(* ===== verification/Blak_Prelude.thy ===== *)
theory Blak_Prelude
  imports Main "HOL-Library.Word" "HOL-Library.AList"
begin

section \<open>Prelude: machine data, hash tables, text and machines\<close>

text \<open>
  What every component of the development shares.
  \<^item> Bytes, fixed-width integers, saturating counters and monotonic clocks.
  \<^item> \<open>std::collections::HashMap\<close> as an association list with distinct keys. The position
    of an entry plays the part of the (unspecified) iteration order of the Rust table, so a
    lemma about every such list is a lemma about every iteration order. Its contract is the
    locale \<open>hash_table\<close>, interpreted on the list operations as \<open>alist\<close>; the
    components use the facts of that interpretation.
  \<^item> The pieces of \<open>str\<close> the sources call: \<open>trim\<close>, \<open>split_once\<close>,
    \<open>from_str_radix\<close>, ASCII case folding. A Rust string is its list of UTF-8 bytes.
  \<^item> The locale \<open>guarded_machine\<close>: a step function with an invariant, and the lift to
    whole runs.
\<close>

named_theorems machine_defs "definitions unfolded when an operation is evaluated"
named_theorems frame_simps "fields an operation leaves alone"

subsection \<open>Machine data\<close>

type_synonym u8 = "8 word"
type_synonym u16 = "16 word"
type_synonym u32 = "32 word"
type_synonym u64 = "64 word"
type_synonym u128 = "128 word"
type_synonym bytes = "u8 list"

text \<open>
  An \<open>Instant\<close> and a \<open>Duration\<close> are counts of nanoseconds. \<open>duration_since\<close>
  saturates at zero, as the subtraction on \<^typ>\<open>nat\<close> does.
\<close>

type_synonym instant = nat
type_synonym duration = nat

definition secs :: "nat \<Rightarrow> duration" where
  "secs n = n * 1000000000"

lemma secs_le [simp]: "secs m \<le> secs n \<longleftrightarrow> m \<le> n"
  by (simp add: secs_def)

lemma secs_less [simp]: "secs m < secs n \<longleftrightarrow> m < n"
  by (simp add: secs_def)

lemma secs_mult: "secs m * n = secs (m * n)"
  by (simp add: secs_def)

lemma secs_min: "min (secs m) (secs n) = secs (min m n)"
  by (simp add: min_def)

lemma secs_eq [simp]: "secs m = secs n \<longleftrightarrow> m = n"
  by (simp add: secs_def)

text \<open>\<open>uN::saturating_add\<close> and \<open>saturating_mul\<close>.\<close>

definition sat_add :: "nat \<Rightarrow> nat \<Rightarrow> nat \<Rightarrow> nat" where
  "sat_add width a b = min (a + b) (2 ^ width - 1)"

definition sat_mul :: "nat \<Rightarrow> nat \<Rightarrow> nat \<Rightarrow> nat" where
  "sat_mul width a b = min (a * b) (2 ^ width - 1)"

lemma sat_add_bound: "sat_add width a b \<le> 2 ^ width - 1"
  by (simp add: sat_add_def)

lemma sat_add_le: "sat_add width a b \<le> a + b"
  by (simp add: sat_add_def)

lemma sat_add_exact: "a + b < 2 ^ width \<Longrightarrow> sat_add width a b = a + b"
  by (simp add: sat_add_def)

lemma sat_add_pos: "0 < width \<Longrightarrow> 0 < b \<Longrightarrow> 0 < sat_add width a b"
  using one_less_power [of "2 :: nat" width] by (auto simp: sat_add_def)

lemma sat_add_reaches: "k \<le> 2 ^ width - 1 \<Longrightarrow> k \<le> sat_add width a b \<longleftrightarrow> k \<le> a + b"
  by (simp add: sat_add_def)

subsection \<open>Hash tables\<close>

type_synonym ('k, 'v) hmap = "('k \<times> 'v) list"

definition hm_ok :: "('k, 'v) hmap \<Rightarrow> bool" where
  "hm_ok m \<longleftrightarrow> distinct (map fst m)"

abbreviation hm_get :: "('k, 'v) hmap \<Rightarrow> 'k \<Rightarrow> 'v option" where
  "hm_get \<equiv> map_of"

definition hm_insert :: "'k \<Rightarrow> 'v \<Rightarrow> ('k, 'v) hmap \<Rightarrow> ('k, 'v) hmap" where
  "hm_insert k v m = AList.update k v m"

definition hm_remove :: "'k \<Rightarrow> ('k, 'v) hmap \<Rightarrow> ('k, 'v) hmap" where
  "hm_remove k m = filter (\<lambda>(k', v). k' \<noteq> k) m"

definition hm_retain :: "('k \<Rightarrow> 'v \<Rightarrow> bool) \<Rightarrow> ('k, 'v) hmap \<Rightarrow> ('k, 'v) hmap" where
  "hm_retain P m = filter (\<lambda>(k, v). P k v) m"

definition hm_contains :: "('k, 'v) hmap \<Rightarrow> 'k \<Rightarrow> bool" where
  "hm_contains m k \<longleftrightarrow> hm_get m k \<noteq> None"

definition hm_map :: "('v \<Rightarrow> 'v) \<Rightarrow> ('k, 'v) hmap \<Rightarrow> ('k, 'v) hmap" where
  "hm_map f m = map (\<lambda>(k, v). (k, f v)) m"

text \<open>The contract the components rely on.\<close>

locale hash_table =
  fixes ok :: "'m \<Rightarrow> bool"
    and get :: "'m \<Rightarrow> 'k \<Rightarrow> 'v option"
    and ins :: "'k \<Rightarrow> 'v \<Rightarrow> 'm \<Rightarrow> 'm"
    and del :: "'k \<Rightarrow> 'm \<Rightarrow> 'm"
    and keep :: "('k \<Rightarrow> 'v \<Rightarrow> bool) \<Rightarrow> 'm \<Rightarrow> 'm"
    and entries :: "'m \<Rightarrow> nat"
  assumes ok_ins: "ok m \<Longrightarrow> ok (ins k v m)"
    and ok_del: "ok m \<Longrightarrow> ok (del k m)"
    and ok_keep: "ok m \<Longrightarrow> ok (keep P m)"
    and get_ins: "get (ins k v m) = (get m)(k \<mapsto> v)"
    and get_del: "get (del k m) = (get m)(k := None)"
    and get_keep: "ok m \<Longrightarrow>
      get (keep P m) k = Option.bind (get m k) (\<lambda>v. if P k v then Some v else None)"
    and finite_dom: "finite (dom (get m))"
    and entries_card: "ok m \<Longrightarrow> entries m = card (dom (get m))"
begin

lemma entries_ins:
  "ok m \<Longrightarrow> entries (ins k v m) = (if get m k = None then Suc (entries m) else entries m)"
  using finite_dom [of m]
  by (auto simp: entries_card ok_ins get_ins domIff insert_absorb card_insert_if)

lemma entries_ins_le: "ok m \<Longrightarrow> entries (ins k v m) \<le> Suc (entries m)"
  by (simp add: entries_ins)

lemma entries_del:
  "ok m \<Longrightarrow> entries (del k m) = (if get m k = None then entries m else entries m - 1)"
  using finite_dom [of m] by (auto simp: entries_card ok_del get_del domIff)

lemma dom_keep: "ok m \<Longrightarrow> dom (get (keep P m)) \<subseteq> dom (get m)"
  by (auto simp: get_keep split: Option.bind_splits)

lemma entries_keep: "ok m \<Longrightarrow> entries (keep P m) \<le> entries m"
  by (simp add: entries_card ok_keep card_mono finite_dom dom_keep)

lemma get_keep_Some:
  "ok m \<Longrightarrow> get (keep P m) k = Some v \<longleftrightarrow> get m k = Some v \<and> P k v"
  by (auto simp: get_keep split: Option.bind_splits if_splits)

lemma get_keep_None:
  "ok m \<Longrightarrow> get (keep P m) k = None \<longleftrightarrow> (\<forall>v. get m k = Some v \<longrightarrow> \<not> P k v)"
  by (auto simp: get_keep split: Option.bind_splits if_splits)

text \<open>Insertion behind a capacity test keeps the table within its capacity.\<close>

lemma capped_ins:
  "ok m \<Longrightarrow> entries m \<le> cap \<Longrightarrow> entries m < cap \<or> get m k \<noteq> None \<Longrightarrow>
    entries (ins k v m) \<le> cap"
  by (auto simp: entries_ins)

end

lemma hm_insert_ok: "hm_ok m \<Longrightarrow> hm_ok (hm_insert k v m)"
  by (simp add: hm_ok_def hm_insert_def distinct_update)

lemma hm_filter_keys: "set (map fst (filter P m)) \<subseteq> set (map fst m)"
  by auto

lemma distinct_fst_filter: "distinct (map fst m) \<Longrightarrow> distinct (map fst (filter P m))"
  by (induction m) auto

lemma map_of_remove: "map_of (filter (\<lambda>(k', v). k' \<noteq> k) m) = (map_of m)(k := None)"
  by (induction m) (auto simp: fun_eq_iff)

lemma map_of_filter_distinct:
  "distinct (map fst m) \<Longrightarrow>
    map_of (filter (\<lambda>(k, v). P k v) m) k
      = Option.bind (map_of m k) (\<lambda>v. if P k v then Some v else None)"
  by (induction m) (auto simp: map_of_eq_None_iff image_iff split: Option.bind_splits)

lemma hm_length_card: "distinct (map fst m) \<Longrightarrow> length m = card (dom (map_of m))"
  using distinct_card [of "map fst m"] by (simp add: dom_map_of_conv_image_fst)

interpretation alist: hash_table hm_ok hm_get hm_insert hm_remove hm_retain length
proof unfold_locales
  fix m :: "('a, 'b) hmap" and k v
  show "hm_get (hm_insert k v m) = (hm_get m)(k \<mapsto> v)"
    by (simp add: hm_insert_def update_conv')
qed (auto simp: hm_ok_def hm_insert_def hm_remove_def hm_retain_def distinct_update
    distinct_fst_filter map_of_remove map_of_filter_distinct hm_length_card finite_dom_map_of)

lemma hm_ok_Nil [simp]: "hm_ok []"
  by (simp add: hm_ok_def)

lemma hm_map_ok [simp]: "hm_ok (hm_map f m) = hm_ok m"
  by (simp add: hm_ok_def hm_map_def case_prod_beta comp_def)

lemma hm_map_get [simp]: "hm_get (hm_map f m) k = map_option f (hm_get m k)"
  by (induction m) (auto simp: hm_map_def)

lemma hm_map_length [simp]: "length (hm_map f m) = length m"
  by (simp add: hm_map_def)

lemma hm_get_mem: "hm_ok m \<Longrightarrow> hm_get m k = Some v \<longleftrightarrow> (k, v) \<in> set m"
  by (simp add: hm_ok_def map_of_eq_Some_iff)

lemma hm_retain_mem: "(k, v) \<in> set (hm_retain P m) \<longleftrightarrow> (k, v) \<in> set m \<and> P k v"
  by (auto simp: hm_retain_def)

lemma hm_remove_mem: "(k, v) \<in> set (hm_remove k' m) \<longleftrightarrow> (k, v) \<in> set m \<and> k \<noteq> k'"
  by (auto simp: hm_remove_def)

lemma hm_insert_mem:
  "hm_ok m \<Longrightarrow> (k, v) \<in> set (hm_insert k' v' m) \<longleftrightarrow>
    (if k = k' then v = v' else (k, v) \<in> set m)"
  using hm_get_mem [of "hm_insert k' v' m" k v] hm_get_mem [of m k v]
  by (auto simp: alist.get_ins alist.ok_ins)

lemmas hm_ok_intros = alist.ok_ins alist.ok_del alist.ok_keep hm_ok_Nil
lemmas hm_get_simps = alist.get_ins alist.get_del alist.get_keep_Some

subsection \<open>Big-endian integers\<close>

fun be_encode :: "nat \<Rightarrow> nat \<Rightarrow> bytes" where
  "be_encode 0 n = []"
| "be_encode (Suc k) n = be_encode k (n div 256) @ [word_of_nat (n mod 256)]"

definition be_decode :: "bytes \<Rightarrow> nat" where
  "be_decode bs = foldl (\<lambda>a b. a * 256 + unat b) 0 bs"

lemma be_decode_Nil [simp]: "be_decode [] = 0"
  by (simp add: be_decode_def)

lemma be_decode_snoc [simp]: "be_decode (bs @ [b]) = be_decode bs * 256 + unat b"
  by (simp add: be_decode_def)

lemma be_encode_length [simp]: "length (be_encode k n) = k"
  by (induction k arbitrary: n) auto

lemma unat_byte_of_nat: "unat (word_of_nat (n mod 256) :: u8) = n mod 256"
  by (simp add: unat_of_nat)

lemma be_decode_encode: "be_decode (be_encode k n) = n mod 256 ^ k"
proof (induction k arbitrary: n)
  case 0
  then show ?case by simp
next
  case (Suc k)
  have "n mod (256 * 256 ^ k) = 256 * (n div 256 mod 256 ^ k) + n mod 256"
    by (rule mod_mult2_eq)
  with Suc show ?case by (simp add: unat_byte_of_nat)
qed

lemma byte_less: "unat (b :: u8) < 256"
  using unsigned_less [of b, where ?'a = nat] by simp

lemma be_encode_decode: "be_encode (length bs) (be_decode bs) = bs"
proof (induction bs rule: rev_induct)
  case Nil
  then show ?case by simp
next
  case (snoc b bs)
  have "(be_decode bs * 256 + unat b) div 256 = be_decode bs"
    and "(be_decode bs * 256 + unat b) mod 256 = unat b"
    using byte_less [of b] by auto
  with snoc show ?case by simp
qed

lemma be_decode_less: "be_decode bs < 256 ^ length bs"
proof (induction bs rule: rev_induct)
  case Nil
  then show ?case by simp
next
  case (snoc b bs)
  then have "Suc (be_decode bs) * 256 \<le> 256 ^ length bs * 256"
    by (intro mult_right_mono) auto
  with byte_less [of b] show ?case by simp
qed

subsection \<open>Text\<close>

text \<open>
  A \<open>str\<close> is its UTF-8 bytes. \<open>char::is_whitespace\<close> holds for the code points below;
  UTF-8 is self-synchronising, so removing encodings from either end of the byte list is what
  \<open>str::trim\<close> does on characters.
\<close>

definition ws_encodings :: "string list" where
  "ws_encodings =
     [[CHR 0x09], [CHR 0x0A], [CHR 0x0B], [CHR 0x0C], [CHR 0x0D], [CHR 0x20],
      [CHR 0xC2, CHR 0x85], [CHR 0xC2, CHR 0xA0], [CHR 0xE1, CHR 0x9A, CHR 0x80],
      [CHR 0xE2, CHR 0x80, CHR 0x80], [CHR 0xE2, CHR 0x80, CHR 0x81],
      [CHR 0xE2, CHR 0x80, CHR 0x82], [CHR 0xE2, CHR 0x80, CHR 0x83],
      [CHR 0xE2, CHR 0x80, CHR 0x84], [CHR 0xE2, CHR 0x80, CHR 0x85],
      [CHR 0xE2, CHR 0x80, CHR 0x86], [CHR 0xE2, CHR 0x80, CHR 0x87],
      [CHR 0xE2, CHR 0x80, CHR 0x88], [CHR 0xE2, CHR 0x80, CHR 0x89],
      [CHR 0xE2, CHR 0x80, CHR 0x8A], [CHR 0xE2, CHR 0x80, CHR 0xA8],
      [CHR 0xE2, CHR 0x80, CHR 0xA9], [CHR 0xE2, CHR 0x80, CHR 0xAF],
      [CHR 0xE2, CHR 0x81, CHR 0x9F], [CHR 0xE3, CHR 0x80, CHR 0x80]]"

definition starts_with :: "'a list \<Rightarrow> 'a list \<Rightarrow> bool" where
  "starts_with p s \<longleftrightarrow> take (length p) s = p"

function strip_all :: "string list \<Rightarrow> string \<Rightarrow> string" where
  "strip_all encs s =
     (case find (\<lambda>w. w \<noteq> [] \<and> starts_with w s) encs of
        None \<Rightarrow> s
      | Some w \<Rightarrow> strip_all encs (drop (length w) s))"
  by pat_completeness auto
termination
proof (relation "measure (\<lambda>(encs, s). length s)")
  fix encs :: "string list" and s w
  assume "find (\<lambda>w. w \<noteq> [] \<and> starts_with w s) encs = Some w"
  then have "w \<noteq> []" and "take (length w) s = w"
    by (auto simp: find_Some_iff starts_with_def)
  then have "s \<noteq> []" by auto
  with \<open>w \<noteq> []\<close> show "((encs, drop (length w) s), encs, s) \<in> measure (\<lambda>(encs, s). length s)"
    by simp
qed simp

declare strip_all.simps [simp del]

definition str_trim_start :: "string \<Rightarrow> string" where
  "str_trim_start s = strip_all ws_encodings s"

definition str_trim_end :: "string \<Rightarrow> string" where
  "str_trim_end s = rev (strip_all (map rev ws_encodings) (rev s))"

definition str_trim :: "string \<Rightarrow> string" where
  "str_trim s = str_trim_end (str_trim_start s)"

definition strip_prefix :: "string \<Rightarrow> string \<Rightarrow> string option" where
  "strip_prefix p s = (if starts_with p s then Some (drop (length p) s) else None)"

text \<open>\<open>str::split_once\<close> on one ASCII character.\<close>

definition split_once :: "char \<Rightarrow> string \<Rightarrow> (string \<times> string) option" where
  "split_once c s =
     (case dropWhile (\<lambda>x. x \<noteq> c) s of
        [] \<Rightarrow> None
      | _ # rest \<Rightarrow> Some (takeWhile (\<lambda>x. x \<noteq> c) s, rest))"

lemma split_once_None: "split_once c s = None \<longleftrightarrow> c \<notin> set s"
proof -
  have "dropWhile (\<lambda>x. x \<noteq> c) s = [] \<longleftrightarrow> c \<notin> set s"
    by (auto simp: dropWhile_eq_Nil_conv)
  moreover have "split_once c s = None \<longleftrightarrow> dropWhile (\<lambda>x. x \<noteq> c) s = []"
    unfolding split_once_def by (cases "dropWhile (\<lambda>x. x \<noteq> c) s") (simp_all del: dropWhile_eq_Nil_conv)
  ultimately show ?thesis by (rule trans [rotated])
qed

lemma split_once_Some: "split_once c s = Some (a, b) \<Longrightarrow> s = a @ c # b \<and> c \<notin> set a"
proof -
  assume "split_once c s = Some (a, b)"
  then obtain x where d: "dropWhile (\<lambda>x. x \<noteq> c) s = x # b"
    and a: "a = takeWhile (\<lambda>x. x \<noteq> c) s"
    by (auto simp: split_once_def split: list.splits)
  from d have "x = c" by (metis (mono_tags) dropWhile_eq_Cons_conv)
  moreover have "s = takeWhile (\<lambda>x. x \<noteq> c) s @ dropWhile (\<lambda>x. x \<noteq> c) s" by simp
  ultimately show "s = a @ c # b \<and> c \<notin> set a"
    using d a by (metis (mono_tags, lifting) set_takeWhileD)
qed

lemma split_once_append: "c \<notin> set a \<Longrightarrow> split_once c (a @ c # b) = Some (a, b)"
  by (induction a) (auto simp: split_once_def split: list.splits)

text \<open>
  \<open>str::split\<close> on one ASCII character, and \<open>str::lines\<close>: the text after the last
  newline is a line only when it is not empty, and a carriage return before a newline goes with it.
\<close>

fun str_split :: "char \<Rightarrow> string \<Rightarrow> string list" where
  "str_split c [] = [[]]"
| "str_split c (x # xs) =
     (if x = c then [] # str_split c xs
      else case str_split c xs of [] \<Rightarrow> [[x]] | y # ys \<Rightarrow> (x # y) # ys)"

fun str_contains :: "string \<Rightarrow> string \<Rightarrow> bool" where
  "str_contains p [] \<longleftrightarrow> p = []"
| "str_contains p (c # s) \<longleftrightarrow> starts_with p (c # s) \<or> str_contains p s"

definition trim_end_char :: "char \<Rightarrow> string \<Rightarrow> string" where
  "trim_end_char c s = rev (dropWhile (\<lambda>x. x = c) (rev s))"

definition str_lines :: "string \<Rightarrow> string list" where
  "str_lines s =
     (let parts = str_split (CHR 0x0A) s;
          strip_cr = (\<lambda>l. if l \<noteq> [] \<and> last l = CHR 0x0D then butlast l else l)
      in map strip_cr (butlast parts) @ (if last parts = [] then [] else [last parts]))"

lemma str_split_nonempty [simp]: "str_split c s \<noteq> []"
  by (induction s) (auto split: list.splits)

lemma str_split_notin: "c \<notin> set s \<Longrightarrow> str_split c s = [s]"
  by (induction s) auto

lemma str_split_append: "c \<notin> set a \<Longrightarrow> str_split c (a @ c # b) = a # str_split c b"
  by (induction a) auto

definition ascii_code :: "char \<Rightarrow> nat" where
  "ascii_code c = (of_char c :: nat)"

definition char_to_digit :: "nat \<Rightarrow> char \<Rightarrow> nat option" where
  "char_to_digit radix c =
     (let n = ascii_code c;
          d = (if 48 \<le> n \<and> n \<le> 57 then n - 48
               else if 97 \<le> n \<and> n \<le> 122 then n - 87
               else if 65 \<le> n \<and> n \<le> 90 then n - 55
               else radix)
      in if d < radix then Some d else None)"

text \<open>
  \<open>uN::from_str_radix\<close>: one leading plus sign is accepted, an empty digit string, a foreign
  character or a value above the type's maximum is an error.
\<close>

definition from_str_radix :: "nat \<Rightarrow> nat \<Rightarrow> string \<Rightarrow> nat option" where
  "from_str_radix radix maxv s =
     (let body = (case s of c # r \<Rightarrow> if c = CHR ''+'' \<and> r \<noteq> [] then r else s | [] \<Rightarrow> [])
      in if body = [] then None
         else case those (map (char_to_digit radix) body) of
                None \<Rightarrow> None
              | Some ds \<Rightarrow>
                  let n = foldl (\<lambda>a d. a * radix + d) 0 ds
                  in if n \<le> maxv then Some n else None)"

lemma from_str_radix_le: "from_str_radix radix maxv s = Some n \<Longrightarrow> n \<le> maxv"
  by (auto simp: from_str_radix_def Let_def split: if_splits option.splits)

definition parse_u8 :: "string \<Rightarrow> u8 option" where
  "parse_u8 s = map_option word_of_nat (from_str_radix 10 255 s)"

definition parse_u16 :: "string \<Rightarrow> u16 option" where
  "parse_u16 s = map_option word_of_nat (from_str_radix 10 65535 s)"

definition char_to_lower :: "char \<Rightarrow> char" where
  "char_to_lower c =
     (let n = ascii_code c in if 65 \<le> n \<and> n \<le> 90 then char_of (n + 32) else c)"

definition to_ascii_lowercase :: "string \<Rightarrow> string" where
  "to_ascii_lowercase s = map char_to_lower s"

definition eq_ignore_ascii_case :: "string \<Rightarrow> string \<Rightarrow> bool" where
  "eq_ignore_ascii_case a b \<longleftrightarrow> to_ascii_lowercase a = to_ascii_lowercase b"

definition is_ascii :: "string \<Rightarrow> bool" where
  "is_ascii s \<longleftrightarrow> list_all (\<lambda>c. ascii_code c < 128) s"

definition is_ascii_lowercase :: "char \<Rightarrow> bool" where
  "is_ascii_lowercase c \<longleftrightarrow> 97 \<le> ascii_code c \<and> ascii_code c \<le> 122"

definition is_ascii_digit :: "char \<Rightarrow> bool" where
  "is_ascii_digit c \<longleftrightarrow> 48 \<le> ascii_code c \<and> ascii_code c \<le> 57"

definition is_ascii_alphabetic :: "char \<Rightarrow> bool" where
  "is_ascii_alphabetic c \<longleftrightarrow>
     is_ascii_lowercase c \<or> (65 \<le> ascii_code c \<and> ascii_code c \<le> 90)"

definition is_ascii_alphanumeric :: "char \<Rightarrow> bool" where
  "is_ascii_alphanumeric c \<longleftrightarrow> is_ascii_alphabetic c \<or> is_ascii_digit c"

text \<open>Text that starts and ends with a printing ASCII character is already trimmed.\<close>

definition printing :: "char \<Rightarrow> bool" where
  "printing c \<longleftrightarrow> 32 < ascii_code c \<and> ascii_code c < 127"

lemma strip_all_id:
  assumes "\<forall>w\<in>set encs. \<not> printing (hd w)" and "s = [] \<or> printing (hd s)"
  shows "strip_all encs s = s"
proof -
  have "\<not> (w \<noteq> [] \<and> starts_with w s)" if "w \<in> set encs" for w
    using assms that by (cases w; cases s) (auto simp: starts_with_def)
  then have "find (\<lambda>w. w \<noteq> [] \<and> starts_with w s) encs = None"
    by (auto simp: find_None_iff)
  then show ?thesis by (simp add: strip_all.simps)
qed

lemma ws_not_printing:
  "\<forall>w\<in>set ws_encodings. \<not> printing (hd w)" "\<forall>w\<in>set (map rev ws_encodings). \<not> printing (hd w)"
  by (simp_all add: ws_encodings_def printing_def ascii_code_def)

lemma str_trim_id: "s = [] \<or> printing (hd s) \<and> printing (last s) \<Longrightarrow> str_trim s = s"
  using strip_all_id [OF ws_not_printing(1), of s] strip_all_id [OF ws_not_printing(2), of "rev s"]
  by (auto simp: str_trim_def str_trim_start_def str_trim_end_def hd_rev)

text \<open>Trimming twice is trimming once.\<close>

lemma strip_all_no_prefix: "w \<in> set encs \<Longrightarrow> w \<noteq> [] \<Longrightarrow> \<not> starts_with w (strip_all encs s)"
proof (induction encs s rule: strip_all.induct)
  case (1 encs s)
  show ?case
  proof (cases "find (\<lambda>w. w \<noteq> [] \<and> starts_with w s) encs")
    case None
    then have "strip_all encs s = s" by (simp add: strip_all.simps [of encs s])
    moreover have "\<not> starts_with w s" using None 1 by (auto simp: find_None_iff)
    ultimately show ?thesis by simp
  next
    case (Some v)
    with 1 show ?thesis by (simp add: strip_all.simps [of encs s])
  qed
qed

lemma strip_all_stuck: "(\<And>w. w \<in> set encs \<Longrightarrow> w \<noteq> [] \<Longrightarrow> \<not> starts_with w s) \<Longrightarrow> strip_all encs s = s"
proof -
  assume "\<And>w. w \<in> set encs \<Longrightarrow> w \<noteq> [] \<Longrightarrow> \<not> starts_with w s"
  then have "find (\<lambda>w. w \<noteq> [] \<and> starts_with w s) encs = None" by (auto simp: find_None_iff)
  then show ?thesis by (simp add: strip_all.simps)
qed

lemma strip_all_suffix: "\<exists>p. s = p @ strip_all encs s"
proof (induction encs s rule: strip_all.induct)
  case (1 encs s)
  show ?case
  proof (cases "find (\<lambda>w. w \<noteq> [] \<and> starts_with w s) encs")
    case None
    then show ?thesis by (simp add: strip_all.simps [of encs s])
  next
    case (Some v)
    with 1 obtain p where p: "drop (length v) s = p @ strip_all encs (drop (length v) s)" by blast
    have "s = (take (length v) s @ p) @ strip_all encs (drop (length v) s)"
      by (metis append_assoc append_take_drop_id p)
    moreover have "strip_all encs s = strip_all encs (drop (length v) s)"
      using Some by (simp add: strip_all.simps [of encs s])
    ultimately show ?thesis by metis
  qed
qed

lemma strip_all_twice: "strip_all encs (strip_all encs s) = strip_all encs s"
  by (rule strip_all_stuck) (rule strip_all_no_prefix)

lemma starts_with_append: "starts_with w s \<Longrightarrow> starts_with w (s @ t)"
  by (metis append_assoc append_eq_conv_conj append_take_drop_id starts_with_def)

lemma str_trim_idem: "str_trim (str_trim s) = str_trim s"
proof -
  let ?a = "str_trim_start s"
  obtain q where "rev ?a = q @ strip_all (map rev ws_encodings) (rev ?a)" using strip_all_suffix by blast
  then have a: "?a = str_trim_end ?a @ rev q"
    by (metis rev_append rev_rev_ident str_trim_end_def)
  have "\<not> starts_with w (str_trim_end ?a)" if "w \<in> set ws_encodings" "w \<noteq> []" for w
    using strip_all_no_prefix [OF that, of s] starts_with_append [of w "str_trim_end ?a" "rev q"] a
    by (metis str_trim_start_def)
  then have "str_trim_start (str_trim_end ?a) = str_trim_end ?a"
    unfolding str_trim_start_def by (intro strip_all_stuck)
  moreover have "str_trim_end (str_trim_end ?a) = str_trim_end ?a"
    unfolding str_trim_end_def by (simp add: strip_all_twice)
  ultimately show ?thesis by (simp add: str_trim_def)
qed

lemma map_filter_mem: "y \<in> set (List.map_filter f xs) \<longleftrightarrow> (\<exists>x\<in>set xs. f x = Some y)"
  by (induction xs) (auto simp: map_filter_simps split: option.splits)

subsection \<open>Results\<close>

text \<open>
  \<open>Result\<close> with its question mark: the error on the left, the value on the right. \<open>ensure\<close>
  is an early return guarded by a condition, \<open>each\<close> a loop that stops at the first error.
\<close>

definition and_then :: "'e + 'a \<Rightarrow> ('a \<Rightarrow> 'e + 'b) \<Rightarrow> 'e + 'b" where
  "and_then r f = (case r of Inl e \<Rightarrow> Inl e | Inr a \<Rightarrow> f a)"

lemma and_then_simps [simp]: "and_then (Inl e) f = Inl e" "and_then (Inr a) f = f a"
  by (simp_all add: and_then_def)

lemma and_then_Inr: "and_then r f = Inr b \<longleftrightarrow> (\<exists>a. r = Inr a \<and> f a = Inr b)"
  by (cases r) simp_all

lemma and_then_Inl: "and_then r f = Inl e \<longleftrightarrow> r = Inl e \<or> (\<exists>a. r = Inr a \<and> f a = Inl e)"
  by (cases r) auto

definition ensure :: "bool \<Rightarrow> 'e \<Rightarrow> 'e + unit" where
  "ensure b e = (if b then Inr () else Inl e)"

fun each :: "('a \<Rightarrow> 'e + unit) \<Rightarrow> 'a list \<Rightarrow> 'e + unit" where
  "each f [] = Inr ()"
| "each f (x # xs) = and_then (f x) (\<lambda>_. each f xs)"

lemma ensure_ok [simp]: "ensure b e = Inr u \<longleftrightarrow> b"
  by (simp add: ensure_def)

lemma each_ok [simp]: "each f xs = Inr u \<longleftrightarrow> (\<forall>x\<in>set xs. f x = Inr ())"
  by (induction xs) (auto simp: and_then_Inr)

lemma and_then_unit: "and_then r (\<lambda>_. r') = Inr b \<longleftrightarrow> (\<exists>u. r = Inr u) \<and> r' = Inr b"
  by (cases r) auto

subsection \<open>Machines\<close>

text \<open>
  A component with state is a step function over its events. Every invariant in the
  development is proved for one step and lifted to runs here.
\<close>

locale guarded_machine =
  fixes step :: "'s \<Rightarrow> 'e \<Rightarrow> 's"
    and inv :: "'s \<Rightarrow> bool"
  assumes step_inv: "inv s \<Longrightarrow> inv (step s e)"
begin

lemma run_inv: "inv s \<Longrightarrow> inv (foldl step s es)"
  by (induction es arbitrary: s) (auto simp: step_inv)

lemma run_prefix_inv: "inv s \<Longrightarrow> inv (foldl step s (take n es))"
  by (rule run_inv)

end

end
