(* ===== verification/Net_Addr.thy ===== *)
theory Net_Addr
  imports Blak_Prelude
begin

section \<open>Addresses of \<open>std::net\<close>\<close>

text \<open>
  \<open>IpAddr\<close>, \<open>SocketAddr\<close>, their octets and the IPv4-mapped conversion, as the relay
  frames, the packet filter and the address pools use them. A \<open>SocketAddr\<close> carries the
  address and the port; the flow label and scope of its IPv6 form are zero in every value the
  sources build with \<open>SocketAddr::new\<close> and are left out.
\<close>

datatype ip_addr = V4 u32 | V6 u128

record socket_addr =
  sa_ip :: ip_addr
  sa_port :: u16

definition is_ipv4 :: "ip_addr \<Rightarrow> bool" where
  "is_ipv4 a \<longleftrightarrow> (case a of V4 _ \<Rightarrow> True | V6 _ \<Rightarrow> False)"

definition is_ipv6 :: "ip_addr \<Rightarrow> bool" where
  "is_ipv6 a \<longleftrightarrow> (case a of V4 _ \<Rightarrow> False | V6 _ \<Rightarrow> True)"

lemma is_ip_simps [simp]:
  "is_ipv4 (V4 a)" "\<not> is_ipv4 (V6 b)" "is_ipv6 (V6 b)" "\<not> is_ipv6 (V4 a)"
  by (simp_all add: is_ipv4_def is_ipv6_def)

definition v4_octets :: "u32 \<Rightarrow> bytes" where
  "v4_octets a = be_encode 4 (unat a)"

definition v6_octets :: "u128 \<Rightarrow> bytes" where
  "v6_octets a = be_encode 16 (unat a)"

definition v4_of_octets :: "bytes \<Rightarrow> u32" where
  "v4_of_octets bs = word_of_nat (be_decode bs)"

definition v6_of_octets :: "bytes \<Rightarrow> u128" where
  "v6_of_octets bs = word_of_nat (be_decode bs)"

definition u16_be :: "u16 \<Rightarrow> bytes" where
  "u16_be p = be_encode 2 (unat p)"

definition u16_of_be :: "bytes \<Rightarrow> u16" where
  "u16_of_be bs = word_of_nat (be_decode bs)"

lemma octets_length [simp]:
  "length (v4_octets a) = 4" "length (v6_octets b) = 16" "length (u16_be p) = 2"
  by (simp_all add: v4_octets_def v6_octets_def u16_be_def)

lemma word_be_roundtrip:
  assumes "256 ^ k = (2 :: nat) ^ LENGTH('a::len)"
  shows "(word_of_nat (be_decode (be_encode k (unat (w :: 'a word)))) :: 'a word) = w"
  using assms by (simp add: be_decode_encode)

lemma be_word_roundtrip:
  assumes "256 ^ length bs = (2 :: nat) ^ LENGTH('a::len)"
  shows "be_encode (length bs) (unat (word_of_nat (be_decode bs) :: 'a word)) = bs"
  using assms be_decode_less [of bs] by (simp add: unat_of_nat be_encode_decode)

lemma v4_of_octets_inverse [simp]: "v4_of_octets (v4_octets a) = a"
  using word_be_roundtrip [of 4 a] by (simp add: v4_of_octets_def v4_octets_def)

lemma v6_of_octets_inverse [simp]: "v6_of_octets (v6_octets a) = a"
  using word_be_roundtrip [of 16 a] by (simp add: v6_of_octets_def v6_octets_def)

lemma u16_of_be_inverse [simp]: "u16_of_be (u16_be a) = a"
  using word_be_roundtrip [of 2 a] by (simp add: u16_of_be_def u16_be_def)

lemma v4_octets_inverse: "length bs = 4 \<Longrightarrow> v4_octets (v4_of_octets bs) = bs"
  using be_word_roundtrip [of bs, where ?'a = 32] by (simp add: v4_of_octets_def v4_octets_def)

lemma v6_octets_inverse: "length bs = 16 \<Longrightarrow> v6_octets (v6_of_octets bs) = bs"
  using be_word_roundtrip [of bs, where ?'a = 128] by (simp add: v6_of_octets_def v6_octets_def)

lemma u16_be_inverse: "length bs = 2 \<Longrightarrow> u16_be (u16_of_be bs) = bs"
  using be_word_roundtrip [of bs, where ?'a = 16] by (simp add: u16_of_be_def u16_be_def)

text \<open>\<open>Ipv4Addr::to_ipv6_mapped\<close> and \<open>Ipv6Addr::to_ipv4_mapped\<close>.\<close>

definition mapped_prefix :: bytes where
  "mapped_prefix = [0, 0, 0, 0, 0, 0, 0, 0, 0, 0, 0xFF, 0xFF]"

definition to_ipv6_mapped :: "u32 \<Rightarrow> u128" where
  "to_ipv6_mapped a = v6_of_octets (mapped_prefix @ v4_octets a)"

definition to_ipv4_mapped :: "u128 \<Rightarrow> u32 option" where
  "to_ipv4_mapped a =
     (if take 12 (v6_octets a) = mapped_prefix
      then Some (v4_of_octets (drop 12 (v6_octets a))) else None)"

lemma mapped_prefix_length [simp]: "length mapped_prefix = 12"
  by (simp add: mapped_prefix_def)

lemma v6_octets_mapped [simp]: "v6_octets (to_ipv6_mapped a) = mapped_prefix @ v4_octets a"
  by (simp add: to_ipv6_mapped_def v6_octets_inverse)

lemma to_ipv4_mapped_iff: "to_ipv4_mapped b = Some a \<longleftrightarrow> b = to_ipv6_mapped a"
proof
  assume "to_ipv4_mapped b = Some a"
  then have p: "take 12 (v6_octets b) = mapped_prefix" and a: "a = v4_of_octets (drop 12 (v6_octets b))"
    by (auto simp: to_ipv4_mapped_def split: if_splits)
  have "v4_octets a = drop 12 (v6_octets b)"
    using a by (simp add: v4_octets_inverse)
  with p have "mapped_prefix @ v4_octets a = v6_octets b"
    by (metis append_take_drop_id)
  then show "b = to_ipv6_mapped a"
    by (simp add: to_ipv6_mapped_def)
next
  assume "b = to_ipv6_mapped a"
  then show "to_ipv4_mapped b = Some a"
    by (simp add: to_ipv4_mapped_def)
qed

end
