(* ===== verification/Relay_Frame.thy ===== *)
theory Relay_Frame
  imports Net_Addr
begin

section \<open>Relay wire format (\<open>blaktail-relay-proto/src/frame.rs\<close>, \<open>lib.rs\<close>)\<close>

text \<open>
  Every frame is a type byte, a 16-byte node id and a body. The builders and parsers of
  \<open>frame.rs\<close>, the region gate and hex decoder of \<open>lib.rs\<close>, and the node id text form
  of \<open>mobile.rs\<close>.
\<close>

definition REGISTER :: u8 where "REGISTER = 1"
definition SEND :: u8 where "SEND = 2"
definition FORWARDED :: u8 where "FORWARDED = 3"
definition PING :: u8 where "PING = 4"
definition OBSERVED :: u8 where "OBSERVED = 5"

definition ID_LEN :: nat where "ID_LEN = 16"
definition TOKEN_LEN :: nat where "TOKEN_LEN = 32"
definition EXPIRY_LEN :: nat where "EXPIRY_LEN = 8"
definition HEADER :: nat where "HEADER = 1 + ID_LEN"
definition REGISTER_FRAME :: nat where "REGISTER_FRAME = HEADER + EXPIRY_LEN + TOKEN_LEN"
definition OBSERVED_FRAME :: nat where "OBSERVED_FRAME = HEADER + 1 + 16 + 2"
definition MAX_PAYLOAD :: nat where "MAX_PAYLOAD = 2048"
definition MAX_SEND_FRAME :: nat where "MAX_SEND_FRAME = HEADER + MAX_PAYLOAD"

lemmas frame_types = REGISTER_def SEND_def FORWARDED_def PING_def OBSERVED_def

lemma frame_sizes [simp]:
  "ID_LEN = 16" "TOKEN_LEN = 32" "EXPIRY_LEN = 8" "HEADER = 17" "REGISTER_FRAME = 57"
  "OBSERVED_FRAME = 36" "MAX_PAYLOAD = 2048" "MAX_SEND_FRAME = 2065"
  by (simp_all add: ID_LEN_def TOKEN_LEN_def EXPIRY_LEN_def HEADER_def REGISTER_FRAME_def
      OBSERVED_FRAME_def MAX_PAYLOAD_def MAX_SEND_FRAME_def)

text \<open>The array types \<open>NodeId = [u8; 16]\<close> and \<open>[u8; 32]\<close> are byte lists of that length.\<close>

type_synonym node_id = bytes

definition id_ok :: "node_id \<Rightarrow> bool" where
  "id_ok i \<longleftrightarrow> length i = ID_LEN"

definition token_ok :: "bytes \<Rightarrow> bool" where
  "token_ok t \<longleftrightarrow> length t = TOKEN_LEN"

definition is_australian_region :: "string \<Rightarrow> bool" where
  "is_australian_region region \<longleftrightarrow>
     to_ascii_lowercase (str_trim region) \<in>
       {''ap-southeast-2'', ''australiaeast'', ''australiasoutheast'',
        ''australia-southeast1'', ''australia-southeast2''}"

subsection \<open>Builders\<close>

definition u64_be :: "u64 \<Rightarrow> bytes" where
  "u64_be n = be_encode 8 (unat n)"

definition u64_of_be :: "bytes \<Rightarrow> u64" where
  "u64_of_be bs = word_of_nat (be_decode bs)"

lemma u64_be_length [simp]: "length (u64_be n) = 8"
  by (simp add: u64_be_def)

lemma u64_of_be_inverse [simp]: "u64_of_be (u64_be n) = n"
  using word_be_roundtrip [of 8 n] by (simp add: u64_of_be_def u64_be_def)

lemma u64_be_inverse: "length bs = 8 \<Longrightarrow> u64_be (u64_of_be bs) = bs"
  using be_word_roundtrip [of bs, where ?'a = 64] by (simp add: u64_of_be_def u64_be_def)

definition register_frame :: "node_id \<Rightarrow> u64 \<Rightarrow> bytes \<Rightarrow> bytes" where
  "register_frame nid expires_at_unix token = REGISTER # nid @ u64_be expires_at_unix @ token"

definition ping_frame :: "node_id \<Rightarrow> bytes" where
  "ping_frame nid = PING # nid"

definition send_frame :: "node_id \<Rightarrow> bytes \<Rightarrow> bytes option" where
  "send_frame destination payload =
     (if length payload > MAX_PAYLOAD then None
      else Some (SEND # destination @ payload))"

text \<open>
  \<open>write_send_frame\<close> writes into the caller's buffer: the result is the returned length and
  the buffer afterwards.
\<close>

definition write_send_frame :: "node_id \<Rightarrow> bytes \<Rightarrow> bytes \<Rightarrow> nat option \<times> bytes" where
  "write_send_frame destination payload out =
     (let len = HEADER + length payload
      in if length payload > MAX_PAYLOAD \<or> length out < len then (None, out)
         else let out1 = out[0 := SEND];
                  out2 = take 1 out1 @ destination @ drop HEADER out1;
                  out3 = take HEADER out2 @ payload @ drop len out2
              in (Some len, out3))"

definition parse_forwarded :: "bytes \<Rightarrow> (node_id \<times> bytes) option" where
  "parse_forwarded frame =
     (if length frame < HEADER \<or> length frame > MAX_SEND_FRAME \<or> frame ! 0 \<noteq> FORWARDED
      then None
      else Some (take ID_LEN (drop 1 frame), drop HEADER frame))"

definition observed_frame :: "node_id \<Rightarrow> socket_addr \<Rightarrow> bytes" where
  "observed_frame nid observed =
     OBSERVED # nid @
     (case sa_ip observed of
        V4 v4 \<Rightarrow> 4 # v6_octets (to_ipv6_mapped v4)
      | V6 v6 \<Rightarrow> 6 # v6_octets v6)
     @ u16_be (sa_port observed)"

definition parse_observed :: "bytes \<Rightarrow> node_id \<Rightarrow> socket_addr option" where
  "parse_observed frame node_id =
     (if length frame \<noteq> OBSERVED_FRAME \<or> frame ! 0 \<noteq> OBSERVED
         \<or> take ID_LEN (drop 1 frame) \<noteq> node_id
      then None
      else let v6 = v6_of_octets (take 16 (drop (HEADER + 1) frame));
               port = u16_of_be (take 2 (drop (HEADER + 17) frame))
           in case (if frame ! HEADER = 4 then map_option V4 (to_ipv4_mapped v6)
                    else if frame ! HEADER = 6 then Some (V6 v6)
                    else None) of
                None \<Rightarrow> None
              | Some ip \<Rightarrow> if port \<noteq> 0 then Some \<lparr>sa_ip = ip, sa_port = port\<rparr> else None)"

subsection \<open>Node id text\<close>

definition hex_nibble :: "nat \<Rightarrow> char" where
  "hex_nibble n = ''0123456789abcdef'' ! n"

definition hex_byte :: "u8 \<Rightarrow> string" where
  "hex_byte b = [hex_nibble (unat b div 16), hex_nibble (unat b mod 16)]"

fun hex_pairs :: "string \<Rightarrow> string list" where
  "hex_pairs (a # b # rest) = [a, b] # hex_pairs rest"
| "hex_pairs _ = []"

definition hex_decode :: "string \<Rightarrow> bytes option" where
  "hex_decode input =
     (if length input mod 2 \<noteq> 0 \<or> \<not> is_ascii input then None
      else map_option (map word_of_nat) (those (map (from_str_radix 16 255) (hex_pairs input))))"

definition format_node_id :: "node_id \<Rightarrow> string" where
  "format_node_id nid =
     (let hex = concat (map hex_byte nid)
      in take 8 hex @ ''-'' @ take 4 (drop 8 hex) @ ''-'' @ take 4 (drop 12 hex) @ ''-''
         @ take 4 (drop 16 hex) @ ''-'' @ drop 20 hex)"

definition parse_node_id :: "string \<Rightarrow> node_id option" where
  "parse_node_id text =
     (let hex = filter (\<lambda>c. c \<noteq> CHR ''-'') text
      in if length hex \<noteq> ID_LEN * 2 then None
         else case hex_decode hex of
                None \<Rightarrow> None
              | Some bs \<Rightarrow> if length bs = ID_LEN then Some bs else None)"

subsection \<open>Frames have one reading\<close>

lemma frame_split:
  assumes "length frame = Suc n"
  shows "frame = frame ! 0 # take k (drop 1 frame) @ drop (Suc k) frame"
proof -
  obtain x xs where "frame = x # xs" using assms by (cases frame) auto
  then show ?thesis by simp
qed

lemma parse_forwarded_iff:
  "parse_forwarded frame = Some (source, payload) \<longleftrightarrow>
     frame = FORWARDED # source @ payload \<and> length source = ID_LEN \<and> length payload \<le> MAX_PAYLOAD"
  (is "?L \<longleftrightarrow> ?R")
proof
  assume ?L
  then have f: "17 \<le> length frame" "length frame \<le> 2065" "frame ! 0 = FORWARDED"
      "source = take 16 (drop 1 frame)" "payload = drop 17 frame"
    by (auto simp: parse_forwarded_def split: if_splits)
  then show ?R using frame_split [of frame "length frame - 1" 16] by auto
next
  assume ?R
  then show ?L by (auto simp: parse_forwarded_def)
qed

lemma observed_frame_length [simp]:
  "length nid = 16 \<Longrightarrow> length (observed_frame nid a) = 36"
  by (simp add: observed_frame_def split: ip_addr.splits)

lemma observed_frame_fields:
  assumes "length nid = 16"
  shows "observed_frame nid a ! 0 = OBSERVED"
    and "take 16 (drop (Suc 0) (observed_frame nid a)) = nid"
    and "observed_frame nid a ! 17 = (if is_ipv4 (sa_ip a) then 4 else 6)"
    and "take 16 (drop 18 (observed_frame nid a)) =
      (case sa_ip a of V4 v4 \<Rightarrow> v6_octets (to_ipv6_mapped v4) | V6 v6 \<Rightarrow> v6_octets v6)"
    and "drop 34 (observed_frame nid a) = u16_be (sa_port a)"
  using assms
  by (auto simp: observed_frame_def nth_append nth_Cons' split: ip_addr.splits)

lemma parse_observed_frame:
  assumes "length nid = 16"
  shows "parse_observed (observed_frame nid a) nid = (if sa_port a = 0 then None else Some a)"
proof -
  have "to_ipv4_mapped (to_ipv6_mapped v) = Some v" for v
    by (simp add: to_ipv4_mapped_iff)
  moreover have "v6_of_octets (v6_octets v) = v" for v
    by (rule v6_of_octets_inverse)
  ultimately show ?thesis
    using assms
    by (cases a; cases "sa_ip a")
       (simp_all add: parse_observed_def observed_frame_fields Let_def del: v6_octets_mapped)
qed

lemma observed_frame_parts:
  assumes "length frame = 36"
  shows "frame = frame ! 0 # take 16 (drop 1 frame) @ frame ! 17 # take 16 (drop 18 frame)
    @ take 2 (drop 34 frame)"
proof -
  have "frame = take 17 frame @ [frame ! 17] @ take 16 (drop 18 frame) @ drop 34 frame"
    using assms id_take_nth_drop [of 17 frame] append_take_drop_id [of 16 "drop 18 frame"]
    by simp
  moreover have "take 17 frame = frame ! 0 # take 16 (drop 1 frame)"
    using assms by (cases frame) auto
  ultimately show ?thesis using assms by simp
qed

lemma parse_observed_sound:
  assumes "parse_observed frame nid = Some a"
  shows "frame = observed_frame nid a \<and> sa_port a \<noteq> 0 \<and> length nid = 16"
proof -
  let ?o = "take 16 (drop 18 frame)" and ?p = "take 2 (drop 34 frame)"
  from assms have len: "length frame = 36" and ty: "frame ! 0 = OBSERVED"
    and nid: "take 16 (drop 1 frame) = nid" and port: "sa_port a = u16_of_be ?p" "sa_port a \<noteq> 0"
    and fam: "frame ! 17 = 4 \<and> (\<exists>v. to_ipv4_mapped (v6_of_octets ?o) = Some v \<and> sa_ip a = V4 v)
        \<or> frame ! 17 = 6 \<and> sa_ip a = V6 (v6_of_octets ?o)"
    by (auto simp: parse_observed_def Let_def split: if_splits option.splits)
  have o: "v6_octets (v6_of_octets ?o) = ?o" and p: "u16_be (u16_of_be ?p) = ?p"
    using len by (simp_all add: v6_octets_inverse u16_be_inverse)
  have "frame = OBSERVED # nid @ frame ! 17 # ?o @ ?p"
    using observed_frame_parts [OF len] ty nid by simp
  also have "\<dots> = observed_frame nid a"
    using fam
  proof
    assume "frame ! 17 = 4 \<and> (\<exists>v. to_ipv4_mapped (v6_of_octets ?o) = Some v \<and> sa_ip a = V4 v)"
    then obtain v where v: "frame ! 17 = 4" "v6_of_octets ?o = to_ipv6_mapped v" "sa_ip a = V4 v"
      by (auto simp: to_ipv4_mapped_iff)
    then have "?o = v6_octets (to_ipv6_mapped v)" using o by simp
    with v p port show ?thesis by (simp add: observed_frame_def)
  next
    assume "frame ! 17 = 6 \<and> sa_ip a = V6 (v6_of_octets ?o)"
    with o p port show ?thesis by (simp add: observed_frame_def)
  qed
  finally have "frame = observed_frame nid a" .
  moreover have "length nid = 16"
    using len by (simp flip: nid)
  ultimately show ?thesis using port by blast
qed

text \<open>
  C36. An OBSERVED reply has exactly one reading: \<open>parse_observed\<close> accepts a byte string for
  a node id if and only if it is the frame \<open>observed_frame\<close> builds for that id and the
  returned address, and the port is not zero. So building and parsing are inverse to each other
  and no other byte string is taken for a reply.
\<close>

theorem observed_iff:
  assumes "id_ok nid"
  shows "parse_observed frame nid = Some a \<longleftrightarrow> frame = observed_frame nid a \<and> sa_port a \<noteq> 0"
  using assms parse_observed_frame [of nid a] parse_observed_sound [of frame nid a]
  by (auto simp: id_ok_def)

theorem observed_iff_witness:
  "parse_observed (observed_frame (replicate 16 7) \<lparr>sa_ip = V4 0xCB007109, sa_port = 3478\<rparr>)
     (replicate 16 7) = Some \<lparr>sa_ip = V4 0xCB007109, sa_port = 3478\<rparr>"
  using observed_iff [of "replicate 16 7"] by (simp add: id_ok_def)

text \<open>
  Writing a SEND frame in place is the same as building it: \<open>write_send_frame\<close>
  returns a length exactly when \<open>send_frame\<close> returns a frame that fits the buffer, the
  buffer then starts with that frame and keeps its old bytes behind it, and in every other case
  the buffer is untouched.
\<close>

theorem write_send_frame_equiv:
  assumes "id_ok destination"
  shows "write_send_frame destination payload out =
    (case send_frame destination payload of
       None \<Rightarrow> (None, out)
     | Some frame \<Rightarrow>
         if length frame \<le> length out
         then (Some (length frame), frame @ drop (length frame) out) else (None, out))"
  using assms
  by (cases out) (auto simp: write_send_frame_def send_frame_def id_ok_def Let_def drop_Cons')

theorem write_send_frame_equiv_witness:
  "write_send_frame (replicate 16 3) [97, 98] (replicate 20 0) =
     (Some 19, (SEND # replicate 16 3 @ [97, 98]) @ [0])"
  using write_send_frame_equiv [of "replicate 16 3" "[97, 98]" "replicate 20 0"]
  by (simp add: id_ok_def send_frame_def)

subsection \<open>Node id text round trip\<close>

lemma nibble_cases:
  fixes n :: nat
  assumes "n < 16"
  shows "n \<in> {0, 1, 2, 3, 4, 5, 6, 7, 8, 9, 10, 11, 12, 13, 14, 15}"
  using assms by (simp only: insert_iff empty_iff) presburger

lemma hex_nibble_digit: "n < 16 \<Longrightarrow> char_to_digit 16 (hex_nibble n) = Some n"
  by (drule nibble_cases)
     (auto simp: hex_nibble_def char_to_digit_def ascii_code_def Let_def)

lemma hex_nibble_plain:
  "n < 16 \<Longrightarrow> hex_nibble n \<noteq> CHR ''+'' \<and> hex_nibble n \<noteq> CHR ''-'' \<and> ascii_code (hex_nibble n) < 128"
  by (drule nibble_cases) (auto simp: hex_nibble_def ascii_code_def)

lemma nibbles_less: "unat (b :: u8) div 16 < 16" "unat b mod 16 < 16"
  using byte_less [of b] by auto

lemma hex_byte_decode: "from_str_radix 16 255 (hex_byte b) = Some (unat b)"
proof -
  have "unat b div 16 * 16 + unat b mod 16 = unat b" and "unat b \<le> 255"
    using byte_less [of b] by auto
  then show ?thesis
    using hex_nibble_plain [OF nibbles_less(1), of b]
    by (simp add: from_str_radix_def hex_byte_def hex_nibble_digit nibbles_less)
qed

lemma hex_bytes_pairs: "hex_pairs (concat (map hex_byte bs)) = map hex_byte bs"
  by (induction bs) (auto simp: hex_byte_def)

lemma hex_bytes_chars:
  "c \<in> set (concat (map hex_byte bs)) \<Longrightarrow> c \<noteq> CHR ''-'' \<and> ascii_code c < 128"
  using hex_nibble_plain nibbles_less by (auto simp: hex_byte_def)

lemma hex_bytes_length: "length (concat (map hex_byte bs)) = 2 * length bs"
  by (induction bs) (auto simp: hex_byte_def)

lemma those_map_Some: "those (map (\<lambda>x. Some (f x)) xs) = Some (map f xs)"
  by (induction xs) auto

lemma hex_decode_bytes: "hex_decode (concat (map hex_byte bs)) = Some bs"
proof -
  have "is_ascii (concat (map hex_byte bs))"
    using hex_bytes_chars [of _ bs] by (auto simp: is_ascii_def list_all_iff)
  then show ?thesis
    by (simp add: hex_decode_def hex_bytes_pairs hex_bytes_length comp_def hex_byte_decode
        those_map_Some)
qed

lemma filter_format_node_id:
  assumes "length nid = 16"
  shows "filter (\<lambda>c. c \<noteq> CHR ''-'') (format_node_id nid) = concat (map hex_byte nid)"
proof -
  let ?h = "concat (map hex_byte nid)"
  have keep: "filter (\<lambda>c. c \<noteq> CHR ''-'') xs = xs" if "set xs \<subseteq> set ?h" for xs
    using that hex_bytes_chars [of _ nid] by (auto simp: filter_id_conv)
  have "set (take n (drop m ?h)) \<subseteq> set ?h" and "set (drop m ?h) \<subseteq> set ?h" for n m
    by (meson set_drop_subset set_take_subset subset_trans)+
  moreover have "set (take n ?h) \<subseteq> set ?h" for n by (rule set_take_subset)
  ultimately have "filter (\<lambda>c. c \<noteq> CHR ''-'') (format_node_id nid) =
      take 8 ?h @ take 4 (drop 8 ?h) @ take 4 (drop 12 ?h) @ take 4 (drop 16 ?h) @ drop 20 ?h"
    by (simp add: format_node_id_def Let_def keep)
  also have "\<dots> = ?h"
    using append_take_drop_id [of 4 "drop 16 ?h"] append_take_drop_id [of 4 "drop 12 ?h"]
      append_take_drop_id [of 4 "drop 8 ?h"] append_take_drop_id [of 8 ?h] by simp
  finally show ?thesis .
qed

text \<open>
  The canonical text of a node id parses back to it: \<open>parse_node_id\<close> inverts
  \<open>format_node_id\<close> on every 16-byte id.
\<close>

theorem node_id_text_roundtrip:
  assumes "id_ok nid"
  shows "parse_node_id (format_node_id nid) = Some nid"
  using assms
  by (simp add: parse_node_id_def id_ok_def filter_format_node_id hex_bytes_length hex_decode_bytes)

theorem node_id_text_roundtrip_witness:
  "parse_node_id (format_node_id [1, 2, 3, 4, 5, 6, 7, 8, 9, 10, 11, 12, 13, 14, 15, 255]) =
     Some [1, 2, 3, 4, 5, 6, 7, 8, 9, 10, 11, 12, 13, 14, 15, 255]"
  by (rule node_id_text_roundtrip) (simp add: id_ok_def)

text \<open>
  The converse fails: \<open>u8::from_str_radix\<close> takes a plus sign in front of one digit, so
  \<open>hex_decode\<close> accepts text that holds no hex pair.
\<close>

lemma hex_decode_accepts_plus: "hex_decode ''+f'' = Some [15]"
  by (simp add: hex_decode_def is_ascii_def from_str_radix_def char_to_digit_def ascii_code_def)

end
