(* ===== verification/Relay_Hub.thy ===== *)
theory Relay_Hub
  imports Complex_Main Relay_Frame
begin

section \<open>The relay server (\<open>blaktail-relay/src/lib.rs\<close>)\<close>

text \<open>
  The registration table, the token buckets, the frame handler \<open>Hub::handle\<close>, the reaper and
  one turn of the loop in \<open>serve_with_streams\<close>.
  \<^item> HMAC-SHA256 is the \<open>hmac\<close> crate: a function parameter \<open>hmac key message\<close> of the
    definitions that call it.
  \<^item> \<open>unix_now()\<close> and \<open>Instant::now()\<close> are arguments: one reading of each clock per
    handled frame.
  \<^item> A token bucket holds an \<open>f64\<close>; the model computes on exact rationals.
  \<^item> What the sockets do with an outgoing packet is an input of the loop turn.
\<close>

type_synonym mac = "bytes \<Rightarrow> bytes \<Rightarrow> bytes"

definition MAX_RATE_BUCKETS :: nat where "MAX_RATE_BUCKETS = 65536"
definition SOURCE_RATE_MULTIPLIER :: nat where "SOURCE_RATE_MULTIPLIER = 10"

record relay_config =
  rc_auth_secret :: bytes
  rc_idle_secs :: nat
  rc_rate_per_sec :: nat
  rc_rate_burst :: nat
  rc_region :: string

definition relay_config_default :: relay_config where
  "relay_config_default =
     \<lparr>rc_auth_secret = [], rc_idle_secs = 120, rc_rate_per_sec = 100, rc_rate_burst = 200,
      rc_region = ''ap-southeast-2''\<rparr>"

subsection \<open>Capability tokens\<close>

definition mint_token :: "mac \<Rightarrow> bytes \<Rightarrow> node_id \<Rightarrow> u64 \<Rightarrow> bytes" where
  "mint_token hmac auth_secret node_id expires_at_unix =
     hmac auth_secret (node_id @ u64_be expires_at_unix)"

definition verify_token :: "mac \<Rightarrow> bytes \<Rightarrow> node_id \<Rightarrow> u64 \<Rightarrow> bytes \<Rightarrow> bool" where
  "verify_token hmac auth_secret node_id expires_at_unix token \<longleftrightarrow>
     (if length token \<noteq> TOKEN_LEN \<or> auth_secret = [] then False
      else hmac auth_secret (node_id @ u64_be expires_at_unix) = token)"

subsection \<open>State\<close>

datatype peer_addr = UdpAddr socket_addr | Stream nat

record client =
  cl_addr :: peer_addr
  cl_expires_at :: u64
  cl_last_seen :: instant

record bucket =
  bk_tokens :: rat
  bk_last_refill :: instant

record metrics =
  m_registers_ok :: u64
  m_registers_rejected :: u64
  m_forwards :: u64
  m_bytes_relayed :: u64
  m_unknown_destination :: u64
  m_rate_limited :: u64
  m_oversized :: u64
  m_stream_queue_full :: u64

definition metrics_default :: metrics where
  "metrics_default =
     \<lparr>m_registers_ok = 0, m_registers_rejected = 0, m_forwards = 0, m_bytes_relayed = 0,
      m_unknown_destination = 0, m_rate_limited = 0, m_oversized = 0, m_stream_queue_full = 0\<rparr>"

record hub =
  hub_config :: relay_config
  hub_metrics :: metrics
  hub_clients :: "(node_id, client) hmap"
  hub_source_buckets :: "(ip_addr, bucket) hmap"
  hub_node_buckets :: "(node_id, bucket) hmap"
  hub_streams :: "(nat, socket_addr) hmap"

definition hub_new :: "relay_config \<Rightarrow> hub" where
  "hub_new config =
     \<lparr>hub_config = config, hub_metrics = metrics_default, hub_clients = [],
      hub_source_buckets = [], hub_node_buckets = [], hub_streams = []\<rparr>"

definition bump :: "(metrics \<Rightarrow> metrics) \<Rightarrow> hub \<Rightarrow> hub" where
  "bump f h = h\<lparr>hub_metrics := f (hub_metrics h)\<rparr>"

definition inc_registers_ok :: "metrics \<Rightarrow> metrics" where
  "inc_registers_ok m = m\<lparr>m_registers_ok := m_registers_ok m + 1\<rparr>"

definition inc_registers_rejected :: "metrics \<Rightarrow> metrics" where
  "inc_registers_rejected m = m\<lparr>m_registers_rejected := m_registers_rejected m + 1\<rparr>"

definition inc_unknown_destination :: "metrics \<Rightarrow> metrics" where
  "inc_unknown_destination m = m\<lparr>m_unknown_destination := m_unknown_destination m + 1\<rparr>"

definition inc_rate_limited :: "metrics \<Rightarrow> metrics" where
  "inc_rate_limited m = m\<lparr>m_rate_limited := m_rate_limited m + 1\<rparr>"

definition inc_oversized :: "metrics \<Rightarrow> metrics" where
  "inc_oversized m = m\<lparr>m_oversized := m_oversized m + 1\<rparr>"

definition inc_stream_queue_full :: "metrics \<Rightarrow> metrics" where
  "inc_stream_queue_full m = m\<lparr>m_stream_queue_full := m_stream_queue_full m + 1\<rparr>"

definition inc_forwards :: "nat \<Rightarrow> metrics \<Rightarrow> metrics" where
  "inc_forwards len m =
     m\<lparr>m_forwards := m_forwards m + 1, m_bytes_relayed := m_bytes_relayed m + word_of_nat len\<rparr>"

lemma bump_simps [simp]:
  "hub_clients (bump f h) = hub_clients h" "hub_config (bump f h) = hub_config h"
  "hub_streams (bump f h) = hub_streams h" "hub_source_buckets (bump f h) = hub_source_buckets h"
  "hub_node_buckets (bump f h) = hub_node_buckets h"
  by (simp_all add: bump_def)

subsection \<open>Token buckets\<close>

definition refill :: "bucket \<Rightarrow> nat \<Rightarrow> nat \<Rightarrow> instant \<Rightarrow> rat" where
  "refill b rate_per_sec rate_burst now =
     min (bk_tokens b + of_nat (now - bk_last_refill b) / 1000000000 * of_nat rate_per_sec)
         (of_nat rate_burst)"

definition admit ::
  "('k, bucket) hmap \<Rightarrow> 'k \<Rightarrow> nat \<Rightarrow> nat \<Rightarrow> instant \<Rightarrow> bool \<times> ('k, bucket) hmap" where
  "admit buckets key rate_per_sec rate_burst now =
     (if length buckets \<ge> MAX_RATE_BUCKETS \<and> \<not> hm_contains buckets key then (False, buckets)
      else let b = (case hm_get buckets key of
                      Some b \<Rightarrow> b
                    | None \<Rightarrow> \<lparr>bk_tokens = of_nat rate_burst, bk_last_refill = now\<rparr>);
               tokens = refill b rate_per_sec rate_burst now
           in if tokens \<ge> 1
              then (True, hm_insert key \<lparr>bk_tokens = tokens - 1, bk_last_refill = now\<rparr> buckets)
              else (False, hm_insert key \<lparr>bk_tokens = tokens, bk_last_refill = now\<rparr> buckets))"

subsection \<open>The frame handler\<close>

definition hub_remote :: "hub \<Rightarrow> peer_addr \<Rightarrow> socket_addr option" where
  "hub_remote h peer =
     (case peer of UdpAddr address \<Rightarrow> Some address | Stream i \<Rightarrow> hm_get (hub_streams h) i)"

definition handle_register ::
  "mac \<Rightarrow> u64 \<Rightarrow> instant \<Rightarrow> hub \<Rightarrow> bytes \<Rightarrow> peer_addr \<Rightarrow> node_id
     \<Rightarrow> (peer_addr \<times> bytes) option \<times> hub" where
  "handle_register hmac unix_now inst h data source nid =
     (if length data \<noteq> REGISTER_FRAME then (None, bump inc_registers_rejected h)
      else let expires_at = u64_of_be (take EXPIRY_LEN (drop HEADER data))
           in if \<not> verify_token hmac (rc_auth_secret (hub_config h)) nid expires_at
                    (drop (HEADER + EXPIRY_LEN) data)
              then (None, bump inc_registers_rejected h)
              else if expires_at \<le> unix_now then (None, bump inc_registers_rejected h)
              else let kept = hm_retain (\<lambda>known_id c. known_id = nid \<or> cl_addr c \<noteq> source) (hub_clients h);
                       fresh = \<lparr>cl_addr = source, cl_expires_at = expires_at, cl_last_seen = inst\<rparr>
                   in (None, bump inc_registers_ok (h\<lparr>hub_clients := hm_insert nid fresh kept\<rparr>)))"

definition touch_client :: "node_id \<Rightarrow> instant \<Rightarrow> hub \<Rightarrow> hub" where
  "touch_client nid inst h =
     (case hm_get (hub_clients h) nid of
        None \<Rightarrow> h
      | Some c \<Rightarrow> h\<lparr>hub_clients := hm_insert nid (c\<lparr>cl_last_seen := inst\<rparr>) (hub_clients h)\<rparr>)"

definition admit_node :: "node_id \<Rightarrow> instant \<Rightarrow> hub \<Rightarrow> bool \<times> hub" where
  "admit_node nid inst h =
     (let (ok, nb) = admit (hub_node_buckets h) nid (rc_rate_per_sec (hub_config h))
                       (rc_rate_burst (hub_config h)) inst
      in (ok, h\<lparr>hub_node_buckets := nb\<rparr>))"

definition handle_send ::
  "u64 \<Rightarrow> instant \<Rightarrow> hub \<Rightarrow> bytes \<Rightarrow> peer_addr \<Rightarrow> node_id
     \<Rightarrow> (peer_addr \<times> bytes) option \<times> hub" where
  "handle_send unix_now inst h data source nid =
     (if length data > MAX_SEND_FRAME then (None, bump inc_oversized h)
      else case find (\<lambda>(known_id, c). cl_addr c = source) (hub_clients h) of
        None \<Rightarrow> (None, bump inc_unknown_destination h)
      | Some (source_id, sc) \<Rightarrow>
          if (case hm_get (hub_clients h) source_id of
                Some c \<Rightarrow> cl_expires_at c \<le> unix_now | None \<Rightarrow> False)
          then (None, bump inc_unknown_destination
                        (h\<lparr>hub_clients := hm_remove source_id (hub_clients h)\<rparr>))
          else let (ok, h) = admit_node source_id inst (touch_client source_id inst h)
               in if \<not> ok then (None, bump inc_rate_limited h)
                  else case hm_get (hub_clients h) nid of
                    None \<Rightarrow> (None, bump inc_unknown_destination h)
                  | Some destination \<Rightarrow>
                      if cl_expires_at destination \<le> unix_now
                      then (None, bump inc_unknown_destination
                                    (h\<lparr>hub_clients := hm_remove nid (hub_clients h)\<rparr>))
                      else (Some (cl_addr destination, FORWARDED # source_id @ drop HEADER data), h))"

definition handle_ping ::
  "u64 \<Rightarrow> instant \<Rightarrow> hub \<Rightarrow> bytes \<Rightarrow> peer_addr \<Rightarrow> socket_addr \<Rightarrow> node_id
     \<Rightarrow> (peer_addr \<times> bytes) option \<times> hub" where
  "handle_ping unix_now inst h data source source_addr nid =
     (if length data \<noteq> HEADER then (None, h)
      else if \<not> (case hm_get (hub_clients h) nid of
                   Some c \<Rightarrow> cl_addr c = source \<and> cl_expires_at c > unix_now | None \<Rightarrow> False)
      then (None, bump inc_unknown_destination h)
      else let (ok, h) = admit_node nid inst (touch_client nid inst h)
           in if \<not> ok then (None, bump inc_rate_limited h)
              else (Some (source, observed_frame nid source_addr), h))"

definition hub_handle ::
  "mac \<Rightarrow> u64 \<Rightarrow> instant \<Rightarrow> hub \<Rightarrow> bytes \<Rightarrow> peer_addr \<Rightarrow> (peer_addr \<times> bytes) option \<times> hub" where
  "hub_handle hmac unix_now inst h data source =
     (case hub_remote h source of
        None \<Rightarrow> (None, h)
      | Some source_addr \<Rightarrow>
          (let (ok, sb) = admit (hub_source_buckets h) (sa_ip source_addr)
                 (sat_mul 32 (rc_rate_per_sec (hub_config h)) SOURCE_RATE_MULTIPLIER)
                 (sat_mul 32 (rc_rate_burst (hub_config h)) SOURCE_RATE_MULTIPLIER) inst;
               h = h\<lparr>hub_source_buckets := sb\<rparr>
           in if \<not> ok then (None, bump inc_rate_limited h)
              else if length data < HEADER then (None, bump inc_oversized h)
              else let nid = take ID_LEN (drop 1 data)
                   in if data ! 0 = REGISTER then handle_register hmac unix_now inst h data source nid
                      else if data ! 0 = SEND then handle_send unix_now inst h data source nid
                      else if data ! 0 = PING
                      then handle_ping unix_now inst h data source source_addr nid
                      else (None, h)))"

definition hub_reap :: "u64 \<Rightarrow> instant \<Rightarrow> hub \<Rightarrow> hub" where
  "hub_reap unix_now inst h =
     (let idle = secs (rc_idle_secs (hub_config h));
          bucket_idle = secs (max (rc_idle_secs (hub_config h)) 60)
      in h\<lparr>hub_clients := hm_retain (\<lambda>_ c. cl_expires_at c > unix_now \<and> inst - cl_last_seen c < idle)
             (hub_clients h),
           hub_source_buckets := hm_retain (\<lambda>_ b. inst - bk_last_refill b < bucket_idle)
             (hub_source_buckets h),
           hub_node_buckets := hm_retain (\<lambda>_ b. inst - bk_last_refill b < bucket_idle)
             (hub_node_buckets h)\<rparr>)"

subsection \<open>The serving loop\<close>

datatype relay_error = Unauthenticated | OutsideAustralia | IoError

definition serve_start :: "relay_config \<Rightarrow> relay_error + hub" where
  "serve_start config =
     (if rc_auth_secret config = [] then Inl Unauthenticated
      else if \<not> is_australian_region (rc_region config) then Inl OutsideAustralia
      else Inr (hub_new config))"

text \<open>
  \<open>tokio::select!\<close> hands the loop one event at a time. A receive error other than
  \<open>ConnectionReset\<close> ends the loop, as does an error of \<open>send_to\<close>.
\<close>

datatype hub_event =
    Datagram bytes socket_addr
  | ReceiveReset
  | ReceiveFailed
  | StreamOpen nat socket_addr
  | StreamFrame nat bytes
  | StreamClosed nat
  | EventsClosed
  | ReapTick

datatype delivery = SentBytes nat | SendFailed | QueueOk | QueueFull | QueueClosed

definition hub_accept ::
  "mac \<Rightarrow> u64 \<Rightarrow> instant \<Rightarrow> hub \<Rightarrow> hub_event \<Rightarrow> relay_error + ((peer_addr \<times> bytes) option \<times> hub)" where
  "hub_accept hmac unix_now inst h e =
     (case e of
        Datagram data source_addr \<Rightarrow> Inr (hub_handle hmac unix_now inst h data (UdpAddr source_addr))
      | ReceiveReset \<Rightarrow> Inr (None, h)
      | ReceiveFailed \<Rightarrow> Inl IoError
      | StreamOpen i remote \<Rightarrow> Inr (None, h\<lparr>hub_streams := hm_insert i remote (hub_streams h)\<rparr>)
      | StreamFrame i frame \<Rightarrow> Inr (hub_handle hmac unix_now inst h frame (Stream i))
      | StreamClosed i \<Rightarrow>
          Inr (None, h\<lparr>hub_streams := hm_remove i (hub_streams h),
                       hub_clients := hm_retain (\<lambda>_ c. cl_addr c \<noteq> Stream i) (hub_clients h)\<rparr>)
      | EventsClosed \<Rightarrow> Inr (None, h)
      | ReapTick \<Rightarrow> Inr (None, hub_reap unix_now inst h))"

definition hub_deliver ::
  "hub \<Rightarrow> peer_addr \<Rightarrow> bytes \<Rightarrow> delivery \<Rightarrow> relay_error + hub" where
  "hub_deliver h destination packet outcome =
     (let is_forward = packet ! 0 = FORWARDED;
          account = (\<lambda>delivered h. if delivered \<and> is_forward
                                   then bump (inc_forwards (length packet)) h else h)
      in case destination of
           UdpAddr address \<Rightarrow>
             (case outcome of
                SentBytes n \<Rightarrow> Inr (account (n = length packet) h)
              | _ \<Rightarrow> Inl IoError)
         | Stream i \<Rightarrow>
             (case hm_get (hub_streams h) i of
                None \<Rightarrow> Inr h
              | Some _ \<Rightarrow>
                  (case outcome of
                     QueueOk \<Rightarrow> Inr (account True h)
                   | QueueFull \<Rightarrow> Inr (bump inc_stream_queue_full h)
                   | _ \<Rightarrow> Inr h)))"

definition hub_turn ::
  "mac \<Rightarrow> u64 \<Rightarrow> instant \<Rightarrow> delivery \<Rightarrow> hub \<Rightarrow> hub_event \<Rightarrow> relay_error + hub" where
  "hub_turn hmac unix_now inst outcome h e =
     (case hub_accept hmac unix_now inst h e of
        Inl err \<Rightarrow> Inl err
      | Inr (None, h) \<Rightarrow> Inr h
      | Inr (Some (destination, packet), h) \<Rightarrow> hub_deliver h destination packet outcome)"

subsection \<open>Well-formedness\<close>

definition hub_ok :: "hub \<Rightarrow> bool" where
  "hub_ok h \<longleftrightarrow>
     hm_ok (hub_clients h) \<and> hm_ok (hub_source_buckets h) \<and> hm_ok (hub_node_buckets h)
     \<and> hm_ok (hub_streams h)
     \<and> length (hub_source_buckets h) \<le> MAX_RATE_BUCKETS \<and> length (hub_node_buckets h) \<le> MAX_RATE_BUCKETS
     \<and> (\<forall>i c. hm_get (hub_clients h) i = Some c \<longrightarrow> length i = ID_LEN)
     \<and> (\<forall>i j c d. hm_get (hub_clients h) i = Some c \<longrightarrow> hm_get (hub_clients h) j = Some d \<longrightarrow>
          cl_addr c = cl_addr d \<longrightarrow> i = j)"

text \<open>Two clients are the same registration: same address, same expiry.\<close>

definition same_reg :: "client \<Rightarrow> client \<Rightarrow> bool" where
  "same_reg c d \<longleftrightarrow> cl_addr c = cl_addr d \<and> cl_expires_at c = cl_expires_at d"

text \<open>Every registration of the later table was in the earlier one.\<close>

definition clients_sub :: "(node_id, client) hmap \<Rightarrow> (node_id, client) hmap \<Rightarrow> bool" where
  "clients_sub m m' \<longleftrightarrow>
     (\<forall>i c'. hm_get m' i = Some c' \<longrightarrow> (\<exists>c. hm_get m i = Some c \<and> same_reg c c'))"

lemma clients_sub_refl [intro, simp]: "clients_sub m m"
  by (auto simp: clients_sub_def same_reg_def)

lemma clients_sub_remove [intro]: "clients_sub m m' \<Longrightarrow> clients_sub m (hm_remove i m')"
  by (auto simp: clients_sub_def alist.get_del)

lemma clients_sub_retain [intro]: "hm_ok m \<Longrightarrow> clients_sub m (hm_retain P m)"
  by (auto simp: clients_sub_def same_reg_def alist.get_keep_Some)

lemma admit_ok:
  assumes "hm_ok bs" and "length bs \<le> MAX_RATE_BUCKETS"
  shows "hm_ok (snd (admit bs k r b now)) \<and> length (snd (admit bs k r b now)) \<le> MAX_RATE_BUCKETS"
  using assms
  by (auto simp: admit_def hm_contains_def Let_def alist.ok_ins intro!: alist.capped_ins)

lemma touch_client_clients:
  "clients_sub (hub_clients h) (hub_clients (touch_client nid inst h))"
  by (auto simp: touch_client_def clients_sub_def same_reg_def alist.get_ins split: option.splits)

lemma touch_client_get:
  "hm_get (hub_clients (touch_client nid inst h)) i =
     map_option (\<lambda>c. if i = nid then c\<lparr>cl_last_seen := inst\<rparr> else c) (hm_get (hub_clients h) i)"
  by (cases "hm_get (hub_clients h) i"; cases "hm_get (hub_clients h) nid")
     (auto simp: touch_client_def alist.get_ins)

lemma touch_client_frame [simp]:
  "hub_config (touch_client nid inst h) = hub_config h"
  "hub_streams (touch_client nid inst h) = hub_streams h"
  "hub_source_buckets (touch_client nid inst h) = hub_source_buckets h"
  "hub_node_buckets (touch_client nid inst h) = hub_node_buckets h"
  by (simp_all add: touch_client_def split: option.splits)

lemma touch_client_hm_ok: "hm_ok (hub_clients h) \<Longrightarrow> hm_ok (hub_clients (touch_client nid inst h))"
  by (simp add: touch_client_def alist.ok_ins split: option.splits)

lemma admit_node_frame [simp]:
  "hub_clients (snd (admit_node nid inst h)) = hub_clients h"
  "hub_config (snd (admit_node nid inst h)) = hub_config h"
  "hub_streams (snd (admit_node nid inst h)) = hub_streams h"
  "hub_source_buckets (snd (admit_node nid inst h)) = hub_source_buckets h"
  by (simp_all add: admit_node_def case_prod_beta Let_def)

lemma hub_ok_cong:
  assumes "hub_ok h" and "hm_ok (hub_clients h')" and "clients_sub (hub_clients h) (hub_clients h')"
    and "hub_streams h' = hub_streams h" and "hm_ok (hub_source_buckets h')" and "hm_ok (hub_node_buckets h')"
    and "length (hub_source_buckets h') \<le> MAX_RATE_BUCKETS" and "length (hub_node_buckets h') \<le> MAX_RATE_BUCKETS"
  shows "hub_ok h'"
proof -
  have "length i = ID_LEN" if "hm_get (hub_clients h') i = Some c" for i c
    using assms(1,3) that unfolding hub_ok_def clients_sub_def by blast
  moreover have "i = j" if "hm_get (hub_clients h') i = Some c" "hm_get (hub_clients h') j = Some d"
      "cl_addr c = cl_addr d" for i j c d
    using assms(1,3) that unfolding hub_ok_def clients_sub_def same_reg_def by metis
  ultimately show ?thesis using assms by (simp add: hub_ok_def)
qed

lemma admit_node_ok: "hub_ok h \<Longrightarrow> hub_ok (snd (admit_node nid inst h))"
  using admit_ok [of "hub_node_buckets h" nid "rc_rate_per_sec (hub_config h)" "rc_rate_burst (hub_config h)" inst]
  by (simp add: hub_ok_def admit_node_def case_prod_beta Let_def)

lemma touch_client_ok: "hub_ok h \<Longrightarrow> hub_ok (touch_client nid inst h)"
  by (rule hub_ok_cong) (auto simp: touch_client_clients touch_client_hm_ok hub_ok_def)

lemma bump_ok [simp]: "hub_ok (bump f h) = hub_ok h"
  by (simp add: hub_ok_def)

lemma remove_client_ok:
  "hub_ok h \<Longrightarrow> m = hub_clients h \<Longrightarrow> hub_ok (h\<lparr>hub_clients := hm_remove i m\<rparr>)"
  by (rule hub_ok_cong) (auto simp: hub_ok_def alist.ok_del)

subsection \<open>Each arm of the handler\<close>

lemma handle_send_frame:
  assumes "hub_ok h"
  shows "hub_ok (snd (handle_send u t h data source nid))
     \<and> clients_sub (hub_clients h) (hub_clients (snd (handle_send u t h data source nid)))
     \<and> hub_config (snd (handle_send u t h data source nid)) = hub_config h"
  using assms touch_client_clients
  by (auto simp: handle_send_def case_prod_beta Let_def remove_client_ok admit_node_ok touch_client_ok
      split: option.splits)

lemma handle_ping_frame:
  assumes "hub_ok h"
  shows "hub_ok (snd (handle_ping u t h data source sa nid))
     \<and> clients_sub (hub_clients h) (hub_clients (snd (handle_ping u t h data source sa nid)))
     \<and> hub_config (snd (handle_ping u t h data source sa nid)) = hub_config h"
  using assms touch_client_clients
  by (auto simp: handle_ping_def case_prod_beta Let_def admit_node_ok touch_client_ok split: option.splits)

definition registers :: "mac \<Rightarrow> bytes \<Rightarrow> u64 \<Rightarrow> bytes \<Rightarrow> peer_addr \<Rightarrow> node_id \<Rightarrow> client \<Rightarrow> bool" where
  "registers hmac secret u data source i c \<longleftrightarrow>
     data = register_frame i (cl_expires_at c) (mint_token hmac secret i (cl_expires_at c))
     \<and> secret \<noteq> [] \<and> cl_addr c = source \<and> u < cl_expires_at c"

lemma register_frame_parts:
  assumes "length data = 57" and "data ! 0 = REGISTER"
  shows "data = register_frame (take 16 (drop 1 data)) (u64_of_be (take 8 (drop 17 data))) (drop 25 data)"
proof -
  have "u64_be (u64_of_be (take 8 (drop 17 data))) = take 8 (drop 17 data)"
    using assms(1) by (intro u64_be_inverse) simp
  moreover have "data = REGISTER # take 16 (drop 1 data) @ take 8 (drop 17 data) @ drop 25 data"
    using frame_split [of data 56 16] append_take_drop_id [of 8 "drop 17 data"] assms
    by simp
  ultimately show ?thesis by (simp add: register_frame_def)
qed

lemma handle_register_new:
  assumes "hm_get (hub_clients (snd (handle_register hmac u t h data source nid))) i = Some c"
    and "hub_ok h" and "nid = take 16 (drop 1 data)" and "data ! 0 = REGISTER"
  shows "(\<exists>c0. hm_get (hub_clients h) i = Some c0 \<and> same_reg c0 c) \<or>
         registers hmac (rc_auth_secret (hub_config h)) u data source i c"
proof (cases "hub_clients (snd (handle_register hmac u t h data source nid)) = hub_clients h")
  case True
  with assms(1) show ?thesis by (auto simp: same_reg_def)
next
  case False
  let ?x = "u64_of_be (take 8 (drop 17 data))"
  from False have len: "length data = 57"
    and v: "verify_token hmac (rc_auth_secret (hub_config h)) nid ?x (drop 25 data)" and u: "u < ?x"
    and t: "hub_clients (snd (handle_register hmac u t h data source nid)) =
      hm_insert nid \<lparr>cl_addr = source, cl_expires_at = ?x, cl_last_seen = t\<rparr>
        (hm_retain (\<lambda>known_id c. known_id = nid \<or> cl_addr c \<noteq> source) (hub_clients h))"
    by (auto simp: handle_register_def Let_def split: if_splits)
  show ?thesis
  proof (cases "i = nid")
    case True
    with assms(1) t have c: "cl_addr c = source" "cl_expires_at c = ?x"
      by (auto simp: alist.get_ins)
    have "data = register_frame nid ?x (drop 25 data)"
      using register_frame_parts [OF len assms(4)] assms(3) by simp
    moreover have "drop 25 data = mint_token hmac (rc_auth_secret (hub_config h)) nid ?x"
      and "rc_auth_secret (hub_config h) \<noteq> []"
      using v by (auto simp: verify_token_def mint_token_def split: if_splits)
    ultimately show ?thesis using c u True by (simp add: registers_def)
  next
    case False
    with assms(1,2) t show ?thesis
      by (auto simp: alist.get_ins alist.get_keep_Some hub_ok_def same_reg_def)
  qed
qed

lemma handle_register_ok:
  assumes "hub_ok h" and "length nid = 16"
  shows "hub_ok (snd (handle_register hmac u t h data source nid))
     \<and> hub_config (snd (handle_register hmac u t h data source nid)) = hub_config h"
  using assms
  by (auto simp: handle_register_def Let_def hub_ok_def alist.ok_ins alist.ok_keep alist.get_ins
      alist.get_keep_Some split: if_splits)

lemma source_bucket_ok:
  assumes "hub_ok h"
  shows "hub_ok (h\<lparr>hub_source_buckets := snd (admit (hub_source_buckets h) k r b inst)\<rparr>)"
  using assms admit_ok [of "hub_source_buckets h" k r b inst] by (simp add: hub_ok_def)

lemma hub_handle_cases:
  "hub_handle hmac u t h data source = (r, h') \<Longrightarrow>
    (\<exists>sa sb. let h1 = h\<lparr>hub_source_buckets := sb\<rparr>; nid = take 16 (drop 1 data)
       in hub_remote h source = Some sa
          \<and> sb = snd (admit (hub_source_buckets h) (sa_ip sa)
               (sat_mul 32 (rc_rate_per_sec (hub_config h)) SOURCE_RATE_MULTIPLIER)
               (sat_mul 32 (rc_rate_burst (hub_config h)) SOURCE_RATE_MULTIPLIER) t)
          \<and> (r = None \<and> (\<exists>f. h' = bump f h1)
             \<or> length data \<ge> 17 \<and> data ! 0 = REGISTER
                \<and> (r, h') = handle_register hmac u t h1 data source nid
             \<or> length data \<ge> 17 \<and> data ! 0 = SEND \<and> (r, h') = handle_send u t h1 data source nid
             \<or> length data \<ge> 17 \<and> data ! 0 = PING \<and> (r, h') = handle_ping u t h1 data source sa nid))
    \<or> hub_remote h source = None \<and> r = None \<and> h' = h"
proof -
  assume e: "hub_handle hmac u t h data source = (r, h')"
  have keep: "\<exists>f. h1 = bump f h1" for h1
    by (rule exI [of _ "\<lambda>m. m"]) (simp add: bump_def)
  show ?thesis
  proof (cases "hub_remote h source")
    case None
    with e show ?thesis by (simp add: hub_handle_def)
  next
    case (Some sa)
    with e keep show ?thesis
      by (auto simp: hub_handle_def case_prod_beta Let_def split: if_splits)
  qed
qed

lemma hub_handle_frame:
  assumes "hub_ok h"
  shows "hub_ok (snd (hub_handle hmac u t h data source))
     \<and> hub_config (snd (hub_handle hmac u t h data source)) = hub_config h"
proof -
  obtain r h' where e: "hub_handle hmac u t h data source = (r, h')" by fastforce
  have id: "length data \<ge> 17 \<Longrightarrow> length (take 16 (drop 1 data)) = 16" by simp
  note ok1 = source_bucket_ok [OF assms]
  from hub_handle_cases [OF e] show ?thesis
    using assms e ok1 handle_register_ok [OF ok1 id] handle_send_frame [OF ok1] handle_ping_frame [OF ok1]
    by (auto simp: Let_def) (metis snd_conv hub.select_convs hub.update_convs hub.simps)+
qed

subsection \<open>What the relay emits\<close>

lemma handle_send_out:
  assumes "handle_send u t h data source nid = (Some (dst, pkt), h')" and "hub_ok h"
  shows "\<exists>sid c d. hm_get (hub_clients h) sid = Some c \<and> cl_addr c = source \<and> u < cl_expires_at c
    \<and> length data \<le> MAX_SEND_FRAME \<and> hm_get (hub_clients h) nid = Some d \<and> u < cl_expires_at d
    \<and> dst = cl_addr d \<and> pkt = FORWARDED # sid @ drop HEADER data"
proof -
  from assms(1) obtain sid sc where f: "find (\<lambda>(known_id, c). cl_addr c = source) (hub_clients h) = Some (sid, sc)"
    and len: "length data \<le> MAX_SEND_FRAME"
    by (auto simp: handle_send_def split: if_splits option.splits)
  from f have "(sid, sc) \<in> set (hub_clients h)" and addr: "cl_addr sc = source"
    by (auto simp: find_Some_iff in_set_conv_nth)
  then have sc: "hm_get (hub_clients h) sid = Some sc"
    using assms(2) by (simp add: hub_ok_def hm_get_mem)
  from assms(1) f sc have live: "u < cl_expires_at sc"
    by (auto simp: handle_send_def split: if_splits)
  with assms(1) f sc obtain d where "hm_get (hub_clients (touch_client sid t h)) nid = Some d"
      "u < cl_expires_at d" "dst = cl_addr d" "pkt = FORWARDED # sid @ drop HEADER data"
    by (auto simp: handle_send_def case_prod_beta Let_def split: if_splits option.splits)
  then obtain d0 where "hm_get (hub_clients h) nid = Some d0" "u < cl_expires_at d0" "dst = cl_addr d0"
      "pkt = FORWARDED # sid @ drop HEADER data"
    by (auto simp: touch_client_get split: if_splits)
  with sc addr live len show ?thesis by blast
qed

lemma handle_ping_out:
  assumes "handle_ping u t h data source sa nid = (Some (dst, pkt), h')"
  shows "length data = HEADER \<and> dst = source \<and> pkt = observed_frame nid sa
    \<and> (\<exists>c. hm_get (hub_clients h) nid = Some c \<and> cl_addr c = source \<and> u < cl_expires_at c)"
  using assms
  by (auto simp: handle_ping_def case_prod_beta Let_def split: if_splits option.splits)

lemma handle_register_silent: "fst (handle_register hmac u t h data source nid) = None"
  by (simp add: handle_register_def Let_def)

text \<open>
  C11. The relay speaks only for live registrations. Whenever \<open>Hub::handle\<close> emits a packet,
  the frame came from the address of a registration whose capability has not expired. Either it
  was a SEND within the size limit, the packet goes to the live registration named as
  destination, and it reads back as a FORWARDED frame carrying the sender's registered id and the
  payload unchanged; or it was a PING for the sender's own id and the reply is its reflexive
  address, sent back to it. Nothing else is ever emitted.
\<close>

theorem emits_only_for_live_registrations:
  assumes "hub_ok h" and "hub_handle hmac u t h data source = (Some (dst, pkt), h')"
  shows "\<exists>sid c. hm_get (hub_clients h) sid = Some c \<and> cl_addr c = source \<and> u < cl_expires_at c \<and>
    ((\<exists>did d. data = SEND # did @ drop HEADER data \<and> hm_get (hub_clients h) did = Some d
        \<and> u < cl_expires_at d \<and> dst = cl_addr d
        \<and> parse_forwarded pkt = Some (sid, drop HEADER data))
     \<or> (data = ping_frame sid \<and> dst = source
        \<and> (\<exists>a. hub_remote h source = Some a \<and> pkt = observed_frame sid a)))"
proof -
  let ?nid = "take 16 (drop 1 data)"
  from hub_handle_cases [OF assms(2)] obtain sa sb where sa: "hub_remote h source = Some sa"
    and sb: "sb = snd (admit (hub_source_buckets h) (sa_ip sa)
               (sat_mul 32 (rc_rate_per_sec (hub_config h)) SOURCE_RATE_MULTIPLIER)
               (sat_mul 32 (rc_rate_burst (hub_config h)) SOURCE_RATE_MULTIPLIER) t)"
    and c: "length data \<ge> 17 \<and> data ! 0 = REGISTER
        \<and> (Some (dst, pkt), h') = handle_register hmac u t (h\<lparr>hub_source_buckets := sb\<rparr>) data source ?nid
      \<or> length data \<ge> 17 \<and> data ! 0 = SEND
        \<and> (Some (dst, pkt), h') = handle_send u t (h\<lparr>hub_source_buckets := sb\<rparr>) data source ?nid
      \<or> length data \<ge> 17 \<and> data ! 0 = PING
        \<and> (Some (dst, pkt), h') = handle_ping u t (h\<lparr>hub_source_buckets := sb\<rparr>) data source sa ?nid"
    by (auto simp: Let_def)
  let ?h1 = "h\<lparr>hub_source_buckets := sb\<rparr>"
  have ok1: "hub_ok ?h1"
    unfolding sb by (rule source_bucket_ok [OF assms(1)])
  from c consider
      (reg) "(Some (dst, pkt), h') = handle_register hmac u t ?h1 data source ?nid"
    | (snd) "17 \<le> length data" "data ! 0 = SEND" "handle_send u t ?h1 data source ?nid = (Some (dst, pkt), h')"
    | (png) "data ! 0 = PING" "handle_ping u t ?h1 data source sa ?nid = (Some (dst, pkt), h')"
    by metis
  then show ?thesis
  proof cases
    case reg
    then show ?thesis using handle_register_silent [of hmac u t ?h1 data source ?nid]
      by (metis fst_conv option.distinct(1))
  next
    case snd
    from handle_send_out [OF snd(3) ok1] obtain sid c d where
        s: "hm_get (hub_clients h) sid = Some c" "cl_addr c = source" "u < cl_expires_at c"
      and d: "length data \<le> MAX_SEND_FRAME" "hm_get (hub_clients h) ?nid = Some d" "u < cl_expires_at d"
        "dst = cl_addr d" "pkt = FORWARDED # sid @ drop HEADER data"
      by auto
    have "length sid = 16" using s(1) assms(1) by (simp add: hub_ok_def)
    then have "parse_forwarded pkt = Some (sid, drop HEADER data)"
      using d by (simp add: parse_forwarded_iff)
    moreover have "data = SEND # ?nid @ drop HEADER data"
      using frame_split [of data "length data - 1" 16] snd(1,2) by simp
    ultimately show ?thesis using s d by blast
  next
    case png
    from handle_ping_out [OF png(2)] obtain c where p: "length data = 17" "dst = source"
        "pkt = observed_frame ?nid sa" "hm_get (hub_clients h) ?nid = Some c" "cl_addr c = source"
        "u < cl_expires_at c"
      by auto
    moreover have "data = ping_frame ?nid"
      using frame_split [of data 16 16] p(1) png(1) by (simp add: ping_frame_def)
    ultimately show ?thesis using sa by blast
  qed
qed

definition demo_config :: relay_config where
  "demo_config = relay_config_default\<lparr>rc_auth_secret := [115]\<rparr>"

definition demo_addr :: socket_addr where
  "demo_addr = \<lparr>sa_ip = V4 0xCB007109, sa_port = 40000\<rparr>"

definition demo_hub :: hub where
  "demo_hub = (hub_new demo_config)\<lparr>hub_clients :=
     [(replicate 16 1, \<lparr>cl_addr = UdpAddr demo_addr, cl_expires_at = 100, cl_last_seen = 0\<rparr>)]\<rparr>"

lemma demo_hub_ok: "hub_ok demo_hub"
  by (auto simp: hub_ok_def demo_hub_def hub_new_def hm_ok_def split: if_splits)

lemmas handle_eval = hub_handle_def handle_ping_def handle_send_def handle_register_def hub_remote_def
  admit_def admit_node_def touch_client_def refill_def hm_contains_def hm_insert_def sat_mul_def
  SOURCE_RATE_MULTIPLIER_def MAX_RATE_BUCKETS_def demo_config_def relay_config_default_def
  hub_new_def frame_types Let_def

theorem emits_only_for_live_registrations_witness:
  "fst (hub_handle (\<lambda>k m. replicate 32 0) 50 0 demo_hub (ping_frame (replicate 16 1)) (UdpAddr demo_addr))
     = Some (UdpAddr demo_addr, observed_frame (replicate 16 1) demo_addr)
   \<and> (\<exists>sid c. hm_get (hub_clients demo_hub) sid = Some c \<and> cl_addr c = UdpAddr demo_addr \<and> 50 < cl_expires_at c)"
proof -
  let ?r = "hub_handle (\<lambda>k m. replicate 32 0) 50 0 demo_hub (ping_frame (replicate 16 1)) (UdpAddr demo_addr)"
  have f: "fst ?r = Some (UdpAddr demo_addr, observed_frame (replicate 16 1) demo_addr)"
    by (simp add: handle_eval demo_hub_def ping_frame_def)
  then have "?r = (Some (UdpAddr demo_addr, observed_frame (replicate 16 1) demo_addr), snd ?r)"
    by (metis prod.collapse)
  from emits_only_for_live_registrations [OF demo_hub_ok this] f show ?thesis by blast
qed

subsection \<open>Runs\<close>

type_synonym turn = "u64 \<times> instant \<times> delivery \<times> hub_event"

fun hub_step :: "mac \<Rightarrow> relay_error + hub \<Rightarrow> turn \<Rightarrow> relay_error + hub" where
  "hub_step hmac (Inl err) _ = Inl err"
| "hub_step hmac (Inr h) (u, t, outcome, e) = hub_turn hmac u t outcome h e"

definition hub_inv :: "relay_config \<Rightarrow> relay_error + hub \<Rightarrow> bool" where
  "hub_inv config s \<longleftrightarrow> (case s of Inl _ \<Rightarrow> True | Inr h \<Rightarrow> hub_ok h \<and> hub_config h = config)"

lemma hub_reap_ok: "hub_ok h \<Longrightarrow> hub_ok (hub_reap u t h)"
  by (rule hub_ok_cong)
     (auto simp: hub_ok_def hub_reap_def Let_def alist.ok_keep alist.entries_keep
       intro: order_trans [OF alist.entries_keep])

lemma hub_accept_ok:
  assumes "hub_accept hmac u t h e = Inr (r, h')" and "hub_ok h"
  shows "hub_ok h' \<and> hub_config h' = hub_config h"
proof (cases e)
  case (Datagram data sa)
  with assms show ?thesis
    using hub_handle_frame [OF assms(2), of hmac u t data "UdpAddr sa"] by (auto simp: hub_accept_def)
next
  case (StreamFrame i data)
  with assms show ?thesis
    using hub_handle_frame [OF assms(2), of hmac u t data "Stream i"] by (auto simp: hub_accept_def)
next
  case ReapTick
  with assms hub_reap_ok [OF assms(2)] show ?thesis
    by (auto simp: hub_accept_def) (simp add: hub_reap_def Let_def)
qed (use assms in \<open>auto simp: hub_accept_def hub_ok_def alist.ok_ins alist.ok_del alist.ok_keep alist.get_keep_Some\<close>)

lemma hub_deliver_frame:
  "hub_deliver h dst pkt outcome = Inr h' \<Longrightarrow>
     hub_clients h' = hub_clients h \<and> hub_config h' = hub_config h \<and> (hub_ok h \<longrightarrow> hub_ok h')"
  by (auto simp: hub_deliver_def Let_def split: peer_addr.splits delivery.splits option.splits if_splits)

lemma hub_turn_accept:
  assumes "hub_turn hmac u t outcome h e = Inr h'"
  obtains r h1 where "hub_accept hmac u t h e = Inr (r, h1)" "hub_clients h' = hub_clients h1"
    "hub_config h' = hub_config h1" "hub_ok h1 \<longrightarrow> hub_ok h'"
  using assms
  by (auto simp: hub_turn_def split: sum.splits option.splits dest!: hub_deliver_frame)

lemma hub_step_inv: "hub_inv config s \<Longrightarrow> hub_inv config (hub_step hmac s x)"
proof (cases s)
  case (Inr h)
  assume inv: "hub_inv config s"
  obtain u t outcome e where x: "x = (u, t, outcome, e)" by (cases x) auto
  show ?thesis
  proof (cases "hub_turn hmac u t outcome h e")
    case (Inr h')
    then obtain r h1 where "hub_accept hmac u t h e = Inr (r, h1)" "hub_config h' = hub_config h1"
        "hub_ok h1 \<longrightarrow> hub_ok h'"
      by (rule hub_turn_accept)
    with inv \<open>s = Inr h\<close> Inr x hub_accept_ok [of hmac u t h e r h1] show ?thesis
      by (simp add: hub_inv_def)
  qed (simp add: \<open>s = Inr h\<close> x hub_inv_def)
qed simp

interpretation hub: guarded_machine "hub_step hmac" "hub_inv config" for hmac config
  by unfold_locales (rule hub_step_inv)

definition hub_run :: "mac \<Rightarrow> relay_config \<Rightarrow> turn list \<Rightarrow> relay_error + hub" where
  "hub_run hmac config xs = foldl (hub_step hmac) (serve_start config) xs"

lemma serve_start_inv: "hub_inv config (serve_start config)"
  by (simp add: hub_inv_def serve_start_def hub_ok_def hub_new_def)

lemma hub_run_inv: "hub_inv config (hub_run hmac config xs)"
  unfolding hub_run_def by (rule hub.run_inv) (rule serve_start_inv)

text \<open>
  C26. One address, one node; bounded tables. In every state the serving loop can reach, no two
  registered node ids share an address, every registered id has 16 bytes, and each of the two
  rate-limiter tables holds at most 65536 buckets.
\<close>

theorem relay_tables_bounded:
  assumes "hub_run hmac config xs = Inr h"
  shows "(\<forall>i j c d. hm_get (hub_clients h) i = Some c \<and> hm_get (hub_clients h) j = Some d
            \<and> cl_addr c = cl_addr d \<longrightarrow> i = j)
       \<and> (\<forall>i\<in>dom (hm_get (hub_clients h)). id_ok i)
       \<and> length (hub_source_buckets h) \<le> 65536 \<and> length (hub_node_buckets h) \<le> 65536"
  using hub_run_inv [of config hmac xs] assms
  unfolding hub_inv_def hub_ok_def MAX_RATE_BUCKETS_def id_ok_def by (auto simp: dom_def)

theorem relay_tables_bounded_witness:
  "\<exists>h. hub_run (\<lambda>k m. replicate 32 0) demo_config [(50, 0, QueueOk, ReapTick)] = Inr h
     \<and> length (hub_source_buckets h) \<le> 65536"
proof -
  have "is_australian_region ''ap-southeast-2''"
    by (simp add: is_australian_region_def to_ascii_lowercase_def char_to_lower_def ascii_code_def
        str_trim_def str_trim_start_def str_trim_end_def strip_all.simps ws_encodings_def starts_with_def)
  then have "\<exists>h. hub_run (\<lambda>k m. replicate 32 0) demo_config [(50, 0, QueueOk, ReapTick)] = Inr h"
    by (simp add: hub_run_def serve_start_def demo_config_def relay_config_default_def hub_turn_def
        hub_accept_def)
  with relay_tables_bounded [of "\<lambda>k m. replicate 32 0" demo_config "[(50, 0, QueueOk, ReapTick)]"]
  show ?thesis by blast
qed

subsection \<open>Where registrations come from\<close>

definition turn_registers :: "mac \<Rightarrow> bytes \<Rightarrow> turn \<Rightarrow> node_id \<Rightarrow> client \<Rightarrow> bool" where
  "turn_registers hmac secret x i c \<longleftrightarrow>
     (case x of (u, t, outcome, e) \<Rightarrow>
       (case e of
          Datagram data sa \<Rightarrow> registers hmac secret u data (UdpAddr sa) i c
        | StreamFrame k data \<Rightarrow> registers hmac secret u data (Stream k) i c
        | _ \<Rightarrow> False))"

lemma registers_same_reg: "registers hmac secret u data src i c \<Longrightarrow> same_reg c d \<Longrightarrow> registers hmac secret u data src i d"
  by (simp add: registers_def same_reg_def)

lemma turn_registers_same_reg:
  "turn_registers hmac secret x i c \<Longrightarrow> same_reg c d \<Longrightarrow> turn_registers hmac secret x i d"
  by (auto simp: turn_registers_def registers_same_reg split: prod.splits hub_event.splits)

lemma hub_handle_origin:
  assumes "hm_get (hub_clients (snd (hub_handle hmac u t h data source))) i = Some c" and "hub_ok h"
  shows "(\<exists>c0. hm_get (hub_clients h) i = Some c0 \<and> same_reg c0 c) \<or>
    registers hmac (rc_auth_secret (hub_config h)) u data source i c"
proof -
  obtain r h' where e: "hub_handle hmac u t h data source = (r, h')" by fastforce
  with assms(1) have c: "hm_get (hub_clients h') i = Some c" by simp
  let ?nid = "take 16 (drop 1 data)"
  from hub_handle_cases [OF e] consider
      (same) "hub_clients h' = hub_clients h"
    | (reg) sb where "hub_ok (h\<lparr>hub_source_buckets := sb\<rparr>)" "data ! 0 = REGISTER"
        "(r, h') = handle_register hmac u t (h\<lparr>hub_source_buckets := sb\<rparr>) data source ?nid"
    | (sub) "clients_sub (hub_clients h) (hub_clients h')"
  proof -
    note ok1 = source_bucket_ok [OF assms(2)]
    from hub_handle_cases [OF e] ok1 handle_send_frame [OF ok1] handle_ping_frame [OF ok1]
    show ?thesis using that
      by (auto simp: Let_def) (metis hub.select_convs hub.update_convs hub.simps snd_conv)+
  qed
  then show ?thesis
  proof cases
    case same
    with c show ?thesis by (auto simp: same_reg_def)
  next
    case (reg sb)
    with c handle_register_new [of hmac u t "h\<lparr>hub_source_buckets := sb\<rparr>" data source ?nid i c]
    show ?thesis by (metis (no_types, lifting) hub.select_convs(1,3) hub.surjective hub.update_convs(4) snd_conv)
  next
    case sub
    with c show ?thesis by (auto simp: clients_sub_def)
  qed
qed

lemma hub_accept_origin:
  assumes "hub_accept hmac u t h e = Inr (r, h')" and "hub_ok h" and "hm_get (hub_clients h') i = Some c"
  shows "(\<exists>c0. hm_get (hub_clients h) i = Some c0 \<and> same_reg c0 c) \<or>
    turn_registers hmac (rc_auth_secret (hub_config h)) (u, t, outcome, e) i c"
proof (cases e)
  case (Datagram data sa)
  with assms hub_handle_origin [of hmac u t h data "UdpAddr sa" i c] show ?thesis
    by (auto simp: hub_accept_def turn_registers_def)
next
  case (StreamFrame k data)
  with assms hub_handle_origin [of hmac u t h data "Stream k" i c] show ?thesis
    by (auto simp: hub_accept_def turn_registers_def)
qed (use assms in \<open>auto simp: hub_accept_def hub_ok_def hub_reap_def Let_def alist.get_keep_Some same_reg_def\<close>)

text \<open>
  C22. Registrations are authentic. In every state the serving loop reaches from its start, each
  registered (id, address, expiry) was put there by a REGISTER frame of the run that arrived from
  exactly that address, before that expiry, and carried the token the coordinator mints for that
  id and expiry under the relay's secret; and the relay runs only with a non-empty secret and in
  an Australian region.
\<close>

theorem registrations_authentic:
  assumes "hub_run hmac config xs = Inr h" and "hm_get (hub_clients h) i = Some c"
  shows "rc_auth_secret config \<noteq> [] \<and> is_australian_region (rc_region config)
    \<and> (\<exists>x\<in>set xs. turn_registers hmac (rc_auth_secret config) x i c)"
  using assms
proof (induction xs arbitrary: h c rule: rev_induct)
  case Nil
  then show ?case by (auto simp: hub_run_def serve_start_def hub_new_def split: if_splits)
next
  case (snoc x xs)
  obtain u t outcome e where x: "x = (u, t, outcome, e)" by (cases x) auto
  from snoc.prems(1) obtain h0 where h0: "hub_run hmac config xs = Inr h0"
    and turn: "hub_turn hmac u t outcome h0 e = Inr h"
    by (cases "hub_run hmac config xs") (auto simp: hub_run_def x)
  have ok: "hub_ok h0" "hub_config h0 = config"
    using hub_run_inv [of config hmac xs] h0 by (auto simp: hub_inv_def)
  have start: "rc_auth_secret config \<noteq> [] \<and> is_australian_region (rc_region config)"
  proof -
    have "\<exists>h. foldl (hub_step hmac) s xs = Inr h \<Longrightarrow> \<exists>h. s = Inr h" for s xs
      by (induction xs arbitrary: s) (fastforce elim: hub_step.elims)+
    then have "\<exists>h. serve_start config = Inr h" using h0 unfolding hub_run_def by blast
    then show ?thesis by (auto simp: serve_start_def split: if_splits)
  qed
  from turn obtain r h1 where h1: "hub_accept hmac u t h0 e = Inr (r, h1)" "hub_clients h = hub_clients h1"
    by (rule hub_turn_accept)
  from hub_accept_origin [OF h1(1) ok(1), of i c outcome] snoc.prems(2) h1(2) ok(2)
  consider c0 where "hm_get (hub_clients h0) i = Some c0" "same_reg c0 c"
    | "turn_registers hmac (rc_auth_secret config) x i c"
    by (auto simp: x)
  then show ?case
  proof cases
    case 1
    from snoc.IH [OF h0 1(1)] 1(2) start show ?thesis
      by (auto intro: turn_registers_same_reg)
  next
    case 2
    with start show ?thesis by auto
  qed
qed

lemma demo_region: "is_australian_region ''ap-southeast-2''"
  by (simp add: is_australian_region_def to_ascii_lowercase_def char_to_lower_def ascii_code_def
      str_trim_def str_trim_start_def str_trim_end_def strip_all.simps ws_encodings_def starts_with_def)

theorem registrations_authentic_witness:
  "\<exists>x\<in>set [(50, 0, QueueOk, Datagram (register_frame (replicate 16 1) 100 (replicate 32 9)) demo_addr)].
     turn_registers (\<lambda>k m. replicate 32 9) [115] x (replicate 16 1)
       \<lparr>cl_addr = UdpAddr demo_addr, cl_expires_at = 100, cl_last_seen = 0\<rparr>"
proof -
  let ?m = "\<lambda>k m :: bytes. replicate 32 (9 :: u8)"
  let ?x = "(50, 0, QueueOk, Datagram (register_frame (replicate 16 1) 100 (replicate 32 9)) demo_addr)"
  have b: "u64_of_be (u64_be 100) = 100" by simp
  have t: "take 16 (drop 1 (register_frame (replicate 16 1) 100 (replicate 32 9))) = replicate 16 1"
    and e: "take 8 (drop 17 (register_frame (replicate 16 1) 100 (replicate 32 9))) = u64_be 100"
    and k: "drop 25 (register_frame (replicate 16 1) 100 (replicate 32 9)) = replicate 32 9"
    and l: "length (register_frame (replicate 16 1) 100 (replicate 32 9)) = 57"
    and z: "register_frame (replicate 16 1) 100 (replicate 32 9) ! 0 = REGISTER"
    by (simp_all add: register_frame_def)
  have "hub_handle ?m 50 0 (hub_new demo_config) (register_frame (replicate 16 1) 100 (replicate 32 9)) (UdpAddr demo_addr) =
      (None, bump inc_registers_ok ((hub_new demo_config)
        \<lparr>hub_source_buckets := [(V4 0xCB007109, \<lparr>bk_tokens = 1999, bk_last_refill = 0\<rparr>)],
         hub_clients := [(replicate 16 1, \<lparr>cl_addr = UdpAddr demo_addr, cl_expires_at = 100, cl_last_seen = 0\<rparr>)]\<rparr>))"
    using t e k l z b
    by (simp add: hub_handle_def handle_register_def hub_remote_def admit_def refill_def hm_contains_def
        hm_insert_def hm_retain_def sat_mul_def SOURCE_RATE_MULTIPLIER_def MAX_RATE_BUCKETS_def
        demo_config_def relay_config_default_def hub_new_def demo_addr_def verify_token_def Let_def)
  then have "\<exists>h. hub_run ?m demo_config [?x] = Inr h
      \<and> hm_get (hub_clients h) (replicate 16 1) =
          Some \<lparr>cl_addr = UdpAddr demo_addr, cl_expires_at = 100, cl_last_seen = 0\<rparr>"
    using demo_region
    by (simp add: hub_run_def serve_start_def demo_config_def relay_config_default_def hub_turn_def
        hub_accept_def)
  then obtain h where "hub_run ?m demo_config [?x] = Inr h" "hm_get (hub_clients h) (replicate 16 1) =
      Some \<lparr>cl_addr = UdpAddr demo_addr, cl_expires_at = 100, cl_last_seen = 0\<rparr>"
    by blast
  from registrations_authentic [OF this] show ?thesis
    by (simp add: demo_config_def)
qed

subsection \<open>The token bucket bounds the admitted rate\<close>

fun admit_all ::
  "('k, bucket) hmap \<Rightarrow> nat \<Rightarrow> nat \<Rightarrow> ('k \<times> instant) list \<Rightarrow> ('k \<times> bool) list \<times> ('k, bucket) hmap" where
  "admit_all bs rate burst [] = ([], bs)"
| "admit_all bs rate burst ((k, t) # xs) =
     (let (ok, bs1) = admit bs k rate burst t; (oks, bs2) = admit_all bs1 rate burst xs
      in ((k, ok) # oks, bs2))"

definition admitted :: "'k \<Rightarrow> ('k \<times> bool) list \<Rightarrow> nat" where
  "admitted key oks = length (filter (\<lambda>(k, ok). k = key \<and> ok) oks)"

definition earned :: "nat \<Rightarrow> instant \<Rightarrow> instant \<Rightarrow> rat" where
  "earned rate t0 t1 = of_nat (t1 - t0) / 1000000000 * of_nat rate"

lemma earned_add: "t0 \<le> t1 \<Longrightarrow> t1 \<le> t2 \<Longrightarrow> earned rate t0 t1 + earned rate t1 t2 = earned rate t0 t2"
proof -
  assume "t0 \<le> t1" "t1 \<le> t2"
  then have "(of_nat (t1 - t0) + of_nat (t2 - t1) :: rat) = of_nat (t2 - t0)"
    by (simp flip: of_nat_add)
  then show ?thesis by (simp add: earned_def add_divide_distrib [symmetric] ring_distribs(2) [symmetric])
qed

lemma earned_nonneg [simp]: "0 \<le> earned rate t0 t1"
  by (simp add: earned_def)

lemma earned_refl [simp]: "earned rate t t = 0"
  by (simp add: earned_def)

lemma admit_other: "k \<noteq> key \<Longrightarrow> hm_get (snd (admit bs k rate burst t)) key = hm_get bs key"
  by (simp add: admit_def Let_def alist.get_ins)

lemma admit_present:
  assumes "hm_get bs key = Some b" and "0 \<le> bk_tokens b" and "bk_last_refill b \<le> t"
  shows "\<exists>b'. hm_get (snd (admit bs key rate burst t)) key = Some b' \<and> 0 \<le> bk_tokens b'
    \<and> bk_last_refill b' = t
    \<and> of_bool (fst (admit bs key rate burst t)) + bk_tokens b'
        \<le> bk_tokens b + earned rate (bk_last_refill b) t"
proof -
  have "0 \<le> refill b rate burst t" and "refill b rate burst t \<le> bk_tokens b + earned rate (bk_last_refill b) t"
    using assms(2) earned_nonneg [of rate "bk_last_refill b" t] by (simp_all add: refill_def earned_def)
  then show ?thesis
    using assms(1) by (simp add: admit_def hm_contains_def Let_def alist.get_ins)
qed

lemma admit_all_present:
  assumes "hm_get bs key = Some b" and "0 \<le> bk_tokens b" and "sorted (bk_last_refill b # map snd xs)"
    and "\<forall>t\<in>set (map snd xs). t \<le> T" and "bk_last_refill b \<le> T"
  shows "of_nat (admitted key (fst (admit_all bs rate burst xs)))
    \<le> bk_tokens b + earned rate (bk_last_refill b) T"
  using assms
proof (induction xs arbitrary: bs b)
  case Nil
  then show ?case by (simp add: admitted_def)
next
  case (Cons x xs)
  obtain k t where x: "x = (k, t)" by (cases x)
  let ?bs1 = "snd (admit bs k rate burst t)"
  show ?case
  proof (cases "k = key")
    case True
    obtain b' where b': "hm_get ?bs1 key = Some b'" "0 \<le> bk_tokens b'" "bk_last_refill b' = t"
        "of_bool (fst (admit bs key rate burst t)) + bk_tokens b' \<le> bk_tokens b + earned rate (bk_last_refill b) t"
      using admit_present [OF Cons.prems(1,2), of t rate burst] Cons.prems(3) x True by auto
    have "of_nat (admitted key (fst (admit_all ?bs1 rate burst xs))) \<le> bk_tokens b' + earned rate t T"
      using Cons.IH [OF b'(1,2)] Cons.prems b'(3) x by auto
    moreover have "earned rate (bk_last_refill b) t + earned rate t T = earned rate (bk_last_refill b) T"
      using Cons.prems x by (intro earned_add) auto
    moreover have "of_nat (admitted key (fst (admit_all bs rate burst (x # xs)))) =
        of_bool (fst (admit bs key rate burst t)) + (of_nat (admitted key (fst (admit_all ?bs1 rate burst xs))) :: rat)"
      using x True by (simp add: admitted_def case_prod_beta Let_def)
    ultimately show ?thesis using b'(4) by linarith
  next
    case False
    then have "hm_get ?bs1 key = Some b" using Cons.prems(1) by (simp add: admit_other)
    from Cons.IH [OF this Cons.prems(2)] Cons.prems x False show ?thesis
      by (auto simp: admitted_def case_prod_beta Let_def)
  qed
qed

lemma admit_fresh:
  assumes "hm_get bs key = None"
  shows "hm_get (snd (admit bs key rate burst t)) key = None \<and> \<not> fst (admit bs key rate burst t)
    \<or> (\<exists>b'. hm_get (snd (admit bs key rate burst t)) key = Some b' \<and> 0 \<le> bk_tokens b' \<and> bk_last_refill b' = t
        \<and> of_bool (fst (admit bs key rate burst t)) + bk_tokens b' \<le> of_nat burst)"
  using assms by (simp add: admit_def hm_contains_def Let_def alist.get_ins refill_def)



end
