(* ===== verification/Relay_Select.thy ===== *)
theory Relay_Select
  imports Blak_Prelude "HOL-Library.Option_ord"
begin

section \<open>Relay choice with back-off (\<open>blaktail-relay-proto/src/select.rs\<close>)\<close>

text \<open>
  \<open>Selector<K>\<close>: the failure table, \<open>choose\<close>, \<open>record_failure\<close>,
  \<open>record_healthy\<close>, \<open>failback_target\<close> and the two counters. The key type \<open>'k\<close> is
  whatever the caller identifies a relay by. The counters are \<open>u64\<close> and wrap.
\<close>

definition BASE_COOLDOWN :: duration where "BASE_COOLDOWN = secs 30"
definition MAX_COOLDOWN :: duration where "MAX_COOLDOWN = secs 600"

text \<open>\<open>Duration::MAX\<close>: \<open>u64::MAX\<close> seconds and 999999999 nanoseconds.\<close>

definition DURATION_MAX :: duration where
  "DURATION_MAX = secs (2 ^ 64 - 1) + 999999999"

definition duration_saturating_mul :: "duration \<Rightarrow> nat \<Rightarrow> duration" where
  "duration_saturating_mul d n = min (d * n) DURATION_MAX"

record failure =
  strikes :: nat
  retry_at :: instant

record 'k selector =
  failures :: "('k, failure) hmap"
  failovers :: u64
  failbacks :: u64

definition selector_default :: "'k selector" where
  "selector_default = \<lparr>failures = [], failovers = 0, failbacks = 0\<rparr>"

definition cooling :: "'k selector \<Rightarrow> 'k \<Rightarrow> instant \<Rightarrow> bool" where
  "cooling s relay now =
     (case hm_get (failures s) relay of None \<Rightarrow> False | Some f \<Rightarrow> retry_at f > now)"

text \<open>\<open>Iterator::min_by_key\<close>: the first element with the least key.\<close>

fun min_by_key :: "('a \<Rightarrow> 'b::linorder) \<Rightarrow> 'a list \<Rightarrow> 'a option" where
  "min_by_key f [] = None"
| "min_by_key f (x # xs) =
     (case min_by_key f xs of None \<Rightarrow> Some x | Some y \<Rightarrow> if f x \<le> f y then Some x else Some y)"

definition choose_relay :: "'k selector \<Rightarrow> 'k list \<Rightarrow> instant \<Rightarrow> 'k option" where
  "choose_relay s candidates now =
     (case find (\<lambda>relay. \<not> cooling s relay now) candidates of
        Some relay \<Rightarrow> Some relay
      | None \<Rightarrow> min_by_key (\<lambda>relay. map_option retry_at (hm_get (failures s) relay)) candidates)"

definition record_failure :: "'k selector \<Rightarrow> 'k \<Rightarrow> instant \<Rightarrow> duration \<times> 'k selector" where
  "record_failure s relay now =
     (let n = (case hm_get (failures s) relay of None \<Rightarrow> 1 | Some f \<Rightarrow> sat_add 32 (strikes f) 1);
          cooldown = min (duration_saturating_mul BASE_COOLDOWN (2 ^ min (n - 1) 10)) MAX_COOLDOWN
      in (cooldown,
          s\<lparr>failures := hm_insert relay \<lparr>strikes = n, retry_at = now + cooldown\<rparr> (failures s)\<rparr>))"

definition record_healthy :: "'k selector \<Rightarrow> 'k \<Rightarrow> 'k selector" where
  "record_healthy s relay = s\<lparr>failures := hm_remove relay (failures s)\<rparr>"

definition failback_target :: "'k selector \<Rightarrow> 'k \<Rightarrow> 'k list \<Rightarrow> instant \<Rightarrow> 'k option" where
  "failback_target s active candidates now =
     find (\<lambda>relay. \<not> cooling s relay now) (takeWhile (\<lambda>relay. relay \<noteq> active) candidates)"

definition note_failover :: "'k selector \<Rightarrow> 'k selector" where
  "note_failover s = s\<lparr>failovers := failovers s + 1\<rparr>"

definition note_failback :: "'k selector \<Rightarrow> 'k selector" where
  "note_failback s = s\<lparr>failbacks := failbacks s + 1\<rparr>"

subsection \<open>Choice\<close>

lemma min_by_key_None [simp]: "min_by_key f xs = None \<longleftrightarrow> xs = []"
  by (cases xs) (auto split: option.splits)

lemma min_by_key_Some:
  "min_by_key f xs = Some y \<Longrightarrow> y \<in> set xs \<and> (\<forall>x\<in>set xs. f y \<le> f x)"
  by (induction xs arbitrary: y) (force split: option.splits if_splits)+

lemma find_None_all: "find P xs = None \<longleftrightarrow> (\<forall>x\<in>set xs. \<not> P x)"
  by (auto simp: find_None_iff)

lemma find_Some_first:
  "find P xs = Some y \<Longrightarrow> y \<in> set xs \<and> P y \<and> (\<forall>x\<in>set (takeWhile (\<lambda>x. x \<noteq> y) xs). \<not> P x)"
  by (induction xs) (auto split: if_splits)

lemma choose_relay_None: "choose_relay s cs now = None \<longleftrightarrow> cs = []"
  by (cases cs) (auto simp: choose_relay_def split: option.splits)

lemma choose_relay_mem: "choose_relay s cs now = Some r \<Longrightarrow> r \<in> set cs"
  by (auto simp: choose_relay_def dest: find_Some_first min_by_key_Some split: option.splits)

lemma choose_relay_healthy:
  assumes "choose_relay s cs now = Some r" and "c \<in> set cs" and "\<not> cooling s c now"
  shows "\<not> cooling s r now \<and> (\<forall>x\<in>set (takeWhile (\<lambda>x. x \<noteq> r) cs). cooling s x now)"
proof -
  from assms(2,3) have "find (\<lambda>relay. \<not> cooling s relay now) cs \<noteq> None"
    by (auto simp: find_None_all)
  with assms(1) show ?thesis
    by (auto simp: choose_relay_def dest: find_Some_first split: option.splits)
qed

lemma choose_relay_all_cooling:
  assumes "choose_relay s cs now = Some r" and "\<forall>c\<in>set cs. cooling s c now" and "c \<in> set cs"
  shows "\<exists>f g. hm_get (failures s) r = Some f \<and> hm_get (failures s) c = Some g \<and> retry_at f \<le> retry_at g"
proof -
  from assms(2) have "find (\<lambda>relay. \<not> cooling s relay now) cs = None"
    by (auto simp: find_None_all)
  with assms(1)
  have min: "min_by_key (\<lambda>relay. map_option retry_at (hm_get (failures s) relay)) cs = Some r"
    by (simp add: choose_relay_def)
  have known: "\<exists>f. hm_get (failures s) x = Some f" if "x \<in> set cs" for x
    using assms(2) that by (auto simp: cooling_def split: option.splits)
  from min_by_key_Some [OF min] have "r \<in> set cs"
    and le: "map_option retry_at (hm_get (failures s) r) \<le> map_option retry_at (hm_get (failures s) c)"
    using assms(3) by auto
  from known [OF \<open>r \<in> set cs\<close>] known [OF assms(3)] le show ?thesis by auto
qed

text \<open>
  Relay choice. A relay is chosen whenever at least one is configured, and it is one of the
  candidates. If some candidate is not cooling down, the chosen one is the first such candidate
  in the coordinator's order, so clients with the same view pick the same relay; if every
  candidate is cooling down, it is one whose back-off ends first.
\<close>

theorem choose_relay_spec:
  "(choose_relay s cs now = None \<longleftrightarrow> cs = []) \<and>
   (choose_relay s cs now = Some r \<longrightarrow>
      r \<in> set cs \<and>
      (if \<exists>c\<in>set cs. \<not> cooling s c now
       then \<not> cooling s r now \<and> (\<forall>c\<in>set (takeWhile (\<lambda>x. x \<noteq> r) cs). cooling s c now)
       else \<forall>c\<in>set cs. \<exists>f g. hm_get (failures s) r = Some f \<and> hm_get (failures s) c = Some g
              \<and> retry_at f \<le> retry_at g))"
proof (intro conjI impI)
  show "choose_relay s cs now = None \<longleftrightarrow> cs = []"
    by (rule choose_relay_None)
  assume r: "choose_relay s cs now = Some r"
  then show "r \<in> set cs"
    by (rule choose_relay_mem)
  show "if \<exists>c\<in>set cs. \<not> cooling s c now
    then \<not> cooling s r now \<and> (\<forall>c\<in>set (takeWhile (\<lambda>x. x \<noteq> r) cs). cooling s c now)
    else \<forall>c\<in>set cs. \<exists>f g. hm_get (failures s) r = Some f \<and> hm_get (failures s) c = Some g
           \<and> retry_at f \<le> retry_at g"
  proof (cases "\<exists>c\<in>set cs. \<not> cooling s c now")
    case True
    with choose_relay_healthy [OF r] show ?thesis by auto
  next
    case False
    then have "\<forall>c\<in>set cs. cooling s c now" by blast
    from choose_relay_all_cooling [OF r this] False show ?thesis by simp
  qed
qed

theorem choose_relay_spec_witness:
  "choose_relay (selector_default :: string selector) [''a'', ''b''] 0 = Some ''a''
   \<and> \<not> cooling (selector_default :: string selector) ''a'' 0"
proof -
  have "choose_relay (selector_default :: string selector) [''a'', ''b''] 0 = Some ''a''"
    by (simp add: choose_relay_def cooling_def selector_default_def)
  with choose_relay_spec [of "selector_default :: string selector" "[''a'', ''b'']" 0 "''a''"]
  show ?thesis by (simp add: cooling_def selector_default_def)
qed

subsection \<open>Back-off\<close>

definition backoff :: "nat \<Rightarrow> duration" where
  "backoff n = secs (min (30 * 2 ^ (n - 1)) 600)"

lemma cooldown_value:
  "min (duration_saturating_mul BASE_COOLDOWN (2 ^ min (n - 1) 10)) MAX_COOLDOWN = backoff n"
proof -
  have small: "(2 :: nat) ^ min (n - 1) 10 \<le> 2 ^ 10"
    by (rule power_increasing) auto
  have "duration_saturating_mul BASE_COOLDOWN (2 ^ min (n - 1) 10) = secs (30 * 2 ^ min (n - 1) 10)"
    using small by (simp add: duration_saturating_mul_def BASE_COOLDOWN_def DURATION_MAX_def secs_def)
  moreover have "min (30 * 2 ^ min (n - 1) 10) 600 = min (30 * 2 ^ (n - 1)) (600 :: nat)"
  proof (cases "n - 1 \<le> 10")
    case True
    then show ?thesis by (simp add: min_def)
  next
    case False
    then have "(2 :: nat) ^ 10 \<le> 2 ^ (n - 1)" by (intro power_increasing) auto
    with False show ?thesis by (simp add: min_def)
  qed
  ultimately show ?thesis by (simp add: backoff_def MAX_COOLDOWN_def secs_min)
qed

lemma record_failure_cooldown:
  "fst (record_failure s relay now) =
     backoff (case hm_get (failures s) relay of None \<Rightarrow> 1 | Some f \<Rightarrow> sat_add 32 (strikes f) 1)"
  using cooldown_value by (simp add: record_failure_def Let_def)

lemma record_failure_get:
  "hm_get (failures (snd (record_failure s relay now))) =
     (hm_get (failures s))(relay \<mapsto>
        \<lparr>strikes = (case hm_get (failures s) relay of None \<Rightarrow> 1 | Some f \<Rightarrow> sat_add 32 (strikes f) 1),
         retry_at = now + fst (record_failure s relay now)\<rparr>)"
  by (simp add: record_failure_def Let_def alist.get_ins)

lemma cooling_after_failure:
  "cooling (snd (record_failure s relay now)) r t \<longleftrightarrow>
     (if r = relay then t < now + fst (record_failure s relay now) else cooling s r t)"
  by (simp add: cooling_def record_failure_get)

lemma backoff_bounds: "secs 30 \<le> backoff n \<and> backoff n \<le> MAX_COOLDOWN"
  by (simp add: backoff_def MAX_COOLDOWN_def)

lemma backoff_saturated: "6 \<le> n \<Longrightarrow> backoff n = secs 600"
proof -
  assume "6 \<le> n"
  then have "(2 :: nat) ^ 5 \<le> 2 ^ (n - 1)" by (intro power_increasing) auto
  then show ?thesis by (simp add: backoff_def)
qed

fun fail_repeatedly :: "'k selector \<Rightarrow> 'k \<Rightarrow> instant list \<Rightarrow> duration list \<times> 'k selector" where
  "fail_repeatedly s relay [] = ([], s)"
| "fail_repeatedly s relay (t # ts) =
     (let (d, s') = record_failure s relay t; (ds, s'') = fail_repeatedly s' relay ts
      in (d # ds, s''))"

lemma fail_repeatedly_from:
  assumes "hm_get (failures s) relay = Some f" and "strikes f + length ts < 2 ^ 32"
  shows "fst (fail_repeatedly s relay ts) = map (\<lambda>i. backoff (strikes f + i + 1)) [0..<length ts]"
  using assms
proof (induction ts arbitrary: s f)
  case Nil
  then show ?case by simp
next
  case (Cons t ts)
  let ?s' = "snd (record_failure s relay t)"
  from Cons.prems have sat: "sat_add 32 (strikes f) 1 = strikes f + 1"
    by (intro sat_add_exact) simp
  then obtain g where g: "hm_get (failures ?s') relay = Some g" "strikes g = strikes f + 1"
    using Cons.prems(1) by (simp add: record_failure_get)
  have "fst (fail_repeatedly ?s' relay ts) = map (\<lambda>i. backoff (strikes g + i + 1)) [0..<length ts]"
    using Cons.IH [OF g(1)] g(2) Cons.prems(2) by simp
  moreover have "fst (record_failure s relay t) = backoff (strikes f + 1)"
    using Cons.prems(1) sat by (simp add: record_failure_cooldown)
  moreover have "map (\<lambda>i. backoff (strikes f + i + 1)) [0..<Suc (length ts)] =
      backoff (strikes f + 1) # map (\<lambda>i. backoff (strikes f + 1 + i + 1)) [0..<length ts]"
    by (simp add: upt_conv_Cons map_Suc_upt [symmetric] comp_def del: upt_Suc)
  ultimately show ?case using g(2)
    by (simp add: case_prod_beta Let_def del: upt_Suc)
qed

text \<open>
  Back-off. The i-th failure in a row of a relay that was healthy (whatever the times) cools
  it down for 30 s doubled i-1 times, capped at 10 min; in particular every cooldown lies between
  30 s and 10 min. A healthy report forgets the strikes: the relay is no longer cooling and its
  next failure starts again at 30 s.
\<close>

theorem backoff_doubles_and_resets:
  assumes "hm_get (failures s) relay = None" and "length ts < 2 ^ 32"
  shows "fst (fail_repeatedly s relay ts) =
           map (\<lambda>i. secs (min (30 * 2 ^ i) 600)) [0..<length ts]
    \<and> \<not> cooling (record_healthy s' relay) relay now
    \<and> fst (record_failure (record_healthy s' relay) relay now) = secs 30"
proof (intro conjI)
  show "fst (fail_repeatedly s relay ts) = map (\<lambda>i. secs (min (30 * 2 ^ i) 600)) [0..<length ts]"
  proof (cases ts)
    case (Cons t us)
    let ?s' = "snd (record_failure s relay t)"
    have d: "fst (record_failure s relay t) = secs 30"
      using assms(1) by (simp add: record_failure_cooldown backoff_def)
    obtain g where g: "hm_get (failures ?s') relay = Some g" "strikes g = 1"
      using assms(1) by (simp add: record_failure_get)
    have "fst (fail_repeatedly ?s' relay us) = map (\<lambda>i. backoff (1 + i + 1)) [0..<length us]"
      using fail_repeatedly_from [OF g(1)] g(2) assms(2) Cons by simp
    then show ?thesis
      using d Cons
      by (simp add: case_prod_beta Let_def upt_conv_Cons map_Suc_upt [symmetric] comp_def
          backoff_def del: upt_Suc)
  qed simp
  show "\<not> cooling (record_healthy s' relay) relay now"
    by (simp add: cooling_def record_healthy_def alist.get_del)
  show "fst (record_failure (record_healthy s' relay) relay now) = secs 30"
    by (simp add: record_failure_cooldown record_healthy_def alist.get_del backoff_def)
qed

theorem backoff_doubles_and_resets_witness:
  "fst (fail_repeatedly (selector_default :: string selector) ''a'' [0, 0, 0, 0, 0, 0, 0]) =
     map secs [30, 60, 120, 240, 480, 600, 600]
   \<and> fst (record_failure (record_healthy (selector_default :: string selector) ''a'') ''a'' 5) = secs 30"
  using backoff_doubles_and_resets [of "selector_default :: string selector" "''a''" "[0, 0, 0, 0, 0, 0, 0]"
      "selector_default" 5]
  by (simp add: selector_default_def upt_conv_Cons)

text \<open>
  Fail-back target. It is a candidate listed before the active relay, it is not the active
  relay, its back-off has ended, and every candidate listed before it is still cooling down.
\<close>

theorem failback_target_priority:
  assumes "failback_target s active cs now = Some r"
  shows "r \<noteq> active \<and> \<not> cooling s r now \<and>
    (\<exists>before after. cs = before @ r # after \<and> active \<notin> set before \<and> (\<forall>x\<in>set before. cooling s x now))"
proof -
  let ?pre = "takeWhile (\<lambda>x. x \<noteq> active) cs"
  from assms obtain i where i: "i < length ?pre" "\<not> cooling s (?pre ! i) now" "r = ?pre ! i"
    and before: "\<forall>j<i. cooling s (?pre ! j) now"
    by (auto simp: failback_target_def find_Some_iff)
  have "?pre = take i ?pre @ r # drop (Suc i) ?pre"
    using i by (simp add: id_take_nth_drop [symmetric])
  then have cs: "cs = take i ?pre @ r # (drop (Suc i) ?pre @ dropWhile (\<lambda>x. x \<noteq> active) cs)"
    by (metis append.assoc append_Cons takeWhile_dropWhile_id)
  have a: "active \<notin> set ?pre" by (auto dest: set_takeWhileD)
  have "r \<in> set ?pre" using i(1,3) by (simp only: nth_mem)
  with a have "r \<noteq> active" by blast
  moreover have "active \<notin> set (take i ?pre)" using a by (meson in_set_takeD)
  moreover have "\<forall>x\<in>set (take i ?pre). cooling s x now"
    using before i(1) by (auto simp: in_set_conv_nth)
  ultimately show ?thesis using cs i by blast
qed

theorem failback_target_priority_witness:
  "failback_target (selector_default :: string selector) ''b'' [''a'', ''b''] 0 = Some ''a''
   \<and> ''a'' \<noteq> ''b'' \<and> \<not> cooling (selector_default :: string selector) ''a'' 0"
proof -
  have "failback_target (selector_default :: string selector) ''b'' [''a'', ''b''] 0 = Some ''a''"
    by (simp add: failback_target_def cooling_def selector_default_def)
  with failback_target_priority [OF this] show ?thesis by simp
qed

end
