(* ===== verification/Relay_Ladder.thy ===== *)
theory Relay_Ladder
  imports Blak_Prelude
begin

section \<open>Link and path hysteresis (\<open>blaktail-relay-proto/src/ladder.rs\<close>)\<close>

text \<open>
  \<open>LinkLadder\<close> decides whether relay frames travel over UDP or the WebSocket fallback,
  \<open>PeerPath\<close> whether a peer is reached directly or through the relay. Both are records with
  one function per method; a run is a left fold of the step function over method calls.
\<close>

definition WSS_AFTER_UDP_MISSES :: nat where "WSS_AFTER_UDP_MISSES = 3"
definition UDP_AFTER_HITS :: nat where "UDP_AFTER_HITS = 3"
definition FAST_ROUND :: duration where "FAST_ROUND = secs 5"
definition STEADY_ROUND :: duration where "STEADY_ROUND = secs 25"
definition RELAY_HEALTH :: duration where "RELAY_HEALTH = secs 50"

datatype link = Udp | Wss

definition transport_label :: "link \<Rightarrow> string" where
  "transport_label l = (case l of Udp \<Rightarrow> ''relay'' | Wss \<Rightarrow> ''relay-wss'')"

record link_ladder =
  ll_link :: link
  ll_wss_available :: bool
  ll_answered :: bool
  ll_misses :: nat
  ll_hits :: nat

definition ladder_new :: "bool \<Rightarrow> link_ladder" where
  "ladder_new wss_available =
     \<lparr>ll_link = Udp, ll_wss_available = wss_available, ll_answered = False, ll_misses = 0, ll_hits = 0\<rparr>"

definition set_wss_available :: "link_ladder \<Rightarrow> bool \<Rightarrow> link_ladder" where
  "set_wss_available l available =
     (let l = l\<lparr>ll_wss_available := available\<rparr>
      in if \<not> available then l\<lparr>ll_link := Udp\<rparr> else l)"

definition udp_answered :: "link_ladder \<Rightarrow> link_ladder" where
  "udp_answered l = l\<lparr>ll_answered := True\<rparr>"

definition end_round :: "link_ladder \<Rightarrow> link \<times> link_ladder" where
  "end_round l =
     (let l1 = (if ll_answered l
                then l\<lparr>ll_answered := False, ll_misses := 0, ll_hits := sat_add 32 (ll_hits l) 1\<rparr>
                else l\<lparr>ll_answered := False, ll_hits := 0, ll_misses := sat_add 32 (ll_misses l) 1\<rparr>);
          l2 = (case ll_link l1 of
                  Udp \<Rightarrow> if ll_wss_available l1 \<and> ll_misses l1 \<ge> WSS_AFTER_UDP_MISSES
                         then l1\<lparr>ll_link := Wss\<rparr> else l1
                | Wss \<Rightarrow> if ll_hits l1 \<ge> UDP_AFTER_HITS then l1\<lparr>ll_link := Udp\<rparr> else l1)
      in (ll_link l2, l2))"

definition udp_proven :: "link_ladder \<Rightarrow> bool" where
  "udp_proven l \<longleftrightarrow> ll_hits l > 0"

definition round_length :: "link_ladder \<Rightarrow> duration" where
  "round_length l =
     (case ll_link l of
        Udp \<Rightarrow> if ll_hits l > 0 then STEADY_ROUND else FAST_ROUND
      | Wss \<Rightarrow> STEADY_ROUND)"

subsection \<open>Runs of the link ladder\<close>

datatype ladder_event = SetWss bool | UdpAnswered | EndRound

definition ladder_step :: "link_ladder \<Rightarrow> ladder_event \<Rightarrow> link_ladder" where
  "ladder_step l e =
     (case e of
        SetWss b \<Rightarrow> set_wss_available l b
      | UdpAnswered \<Rightarrow> udp_answered l
      | EndRound \<Rightarrow> snd (end_round l))"

definition ladder_run :: "bool \<Rightarrow> ladder_event list \<Rightarrow> link_ladder" where
  "ladder_run wss_available es = foldl ladder_step (ladder_new wss_available) es"

lemmas ladder_defs = ladder_step_def set_wss_available_def udp_answered_def end_round_def Let_def

definition ladder_inv :: "link_ladder \<Rightarrow> bool" where
  "ladder_inv l \<longleftrightarrow>
     (ll_hits l = 0 \<or> ll_misses l = 0) \<and> (ll_link l = Wss \<longrightarrow> ll_wss_available l \<and> ll_hits l < UDP_AFTER_HITS)"

lemma sat_add_Suc_le: "sat_add 32 n 1 \<le> Suc n"
  by (simp add: sat_add_def)

lemma sat_add_3: "3 \<le> sat_add 32 n (Suc 0) \<longleftrightarrow> 2 \<le> n"
  by (auto simp: sat_add_def)

lemma ladder_step_inv: "ladder_inv l \<Longrightarrow> ladder_inv (ladder_step l e)"
  by (cases e; cases "ll_link l")
     (auto simp: ladder_inv_def ladder_defs UDP_AFTER_HITS_def WSS_AFTER_UDP_MISSES_def)

interpretation ladder: guarded_machine ladder_step ladder_inv
  by unfold_locales (rule ladder_step_inv)

text \<open>
  The rounds a run has closed, oldest first, each marked with whether a UDP answer arrived in
  it; \<open>pending\<close> is the mark of the round still open.
\<close>

fun rounds :: "bool \<Rightarrow> ladder_event list \<Rightarrow> bool list" where
  "rounds a [] = []"
| "rounds a (SetWss b # es) = rounds a es"
| "rounds a (UdpAnswered # es) = rounds True es"
| "rounds a (EndRound # es) = a # rounds False es"

fun pending :: "bool \<Rightarrow> ladder_event list \<Rightarrow> bool" where
  "pending a [] = a"
| "pending a (SetWss b # es) = pending a es"
| "pending a (UdpAnswered # es) = pending True es"
| "pending a (EndRound # es) = pending False es"

lemma rounds_snoc:
  "rounds a (es @ [e]) = rounds a es @ (case e of EndRound \<Rightarrow> [pending a es] | _ \<Rightarrow> [])"
  by (induction a es rule: rounds.induct) (auto split: ladder_event.splits)

lemma pending_snoc:
  "pending a (es @ [e]) =
     (case e of SetWss b \<Rightarrow> pending a es | UdpAnswered \<Rightarrow> True | EndRound \<Rightarrow> False)"
  by (induction a es rule: pending.induct) (auto split: ladder_event.splits)

definition streak :: "bool \<Rightarrow> bool list \<Rightarrow> nat" where
  "streak b rs = length (takeWhile (\<lambda>x. x = b) (rev rs))"

lemma streak_snoc: "streak b (rs @ [r]) = (if r = b then Suc (streak b rs) else 0)"
  by (simp add: streak_def)

lemma streak_Nil [simp]: "streak b [] = 0"
  by (simp add: streak_def)

lemma streak_ge: "n \<le> streak b rs \<Longrightarrow> take n (rev rs) = replicate n b"
proof -
  assume n: "n \<le> streak b rs"
  let ?t = "takeWhile (\<lambda>x. x = b) (rev rs)"
  have "take n (rev rs) = take n ?t"
    using n unfolding streak_def by (metis takeWhile_dropWhile_id take_append diff_is_0_eq take_0 append_Nil2)
  moreover have "?t = replicate (length ?t) b"
    by (rule replicate_eqI) (auto dest: set_takeWhileD)
  ultimately show ?thesis
    using n unfolding streak_def by (metis min.absorb1 take_replicate)
qed

text \<open>The two counters are the (saturated) lengths of the current streak of rounds.\<close>

lemma ladder_counters:
  "ll_answered (ladder_run w es) = pending False es
   \<and> ll_hits (ladder_run w es) = min (streak True (rounds False es)) (2 ^ 32 - 1)
   \<and> ll_misses (ladder_run w es) = min (streak False (rounds False es)) (2 ^ 32 - 1)"
proof (induction es rule: rev_induct)
  case Nil
  then show ?case by (simp add: ladder_run_def ladder_new_def)
next
  case (snoc e es)
  let ?l = "ladder_run w es"
  have run: "ladder_run w (es @ [e]) = ladder_step ?l e"
    by (simp add: ladder_run_def)
  have "ll_answered (ladder_step ?l e) =
      (case e of SetWss b \<Rightarrow> ll_answered ?l | UdpAnswered \<Rightarrow> True | EndRound \<Rightarrow> False)"
    and "ll_hits (ladder_step ?l e) = (case e of EndRound \<Rightarrow>
      (if ll_answered ?l then sat_add 32 (ll_hits ?l) 1 else 0) | _ \<Rightarrow> ll_hits ?l)"
    and "ll_misses (ladder_step ?l e) = (case e of EndRound \<Rightarrow>
      (if ll_answered ?l then 0 else sat_add 32 (ll_misses ?l) 1) | _ \<Rightarrow> ll_misses ?l)"
    by (auto simp: ladder_defs split: ladder_event.splits link.splits)
  with snoc show ?case
    unfolding run
    by (auto simp: rounds_snoc pending_snoc streak_snoc sat_add_def split: ladder_event.splits)
qed

lemma end_round_switch:
  assumes "ll_link (snd (end_round l)) \<noteq> ll_link l"
  shows "case ll_link l of
      Udp \<Rightarrow> ll_wss_available l \<and> \<not> ll_answered l \<and> 2 \<le> ll_misses l
    | Wss \<Rightarrow> ll_answered l \<and> 2 \<le> ll_hits l"
  using assms
  by (cases "ll_link l")
     (auto simp: end_round_def Let_def WSS_AFTER_UDP_MISSES_def UDP_AFTER_HITS_def sat_add_3
       split: if_splits)

text \<open>
  The link does not flap. Closing a probe round changes the link from UDP to WSS only when a
  WSS endpoint is approved and this round and the two before it got no UDP answer, and from WSS
  back to UDP only when this round and the two before it were all answered.
\<close>

theorem link_switch_needs_three_rounds:
  assumes "ll_link (ladder_run w (es @ [EndRound])) \<noteq> ll_link (ladder_run w es)"
  shows "take 3 (rev (rounds False (es @ [EndRound]))) =
           replicate 3 (ll_link (ladder_run w es) = Wss)
         \<and> (ll_link (ladder_run w es) = Udp \<longrightarrow> ll_wss_available (ladder_run w es))"
proof -
  let ?l = "ladder_run w es" and ?rs = "rounds False es"
  have "ll_link (snd (end_round ?l)) \<noteq> ll_link ?l"
    using assms by (simp add: ladder_run_def ladder_step_def)
  note sw = end_round_switch [OF this]
  have "2 \<le> streak (ll_link ?l = Wss) ?rs" and p: "pending False es = (ll_link ?l = Wss)"
    using sw ladder_counters [of w es] by (cases "ll_link ?l"; simp)+
  then have "take 2 (rev ?rs) = replicate 2 (ll_link ?l = Wss)"
    by (intro streak_ge)
  then have "take 3 (rev (rounds False (es @ [EndRound]))) = replicate 3 (ll_link ?l = Wss)"
    using p by (simp add: rounds_snoc numeral_3_eq_3 numeral_2_eq_2)
  moreover have "ll_link ?l = Udp \<longrightarrow> ll_wss_available ?l"
    using sw by (cases "ll_link ?l") auto
  ultimately show ?thesis by blast
qed

theorem link_switch_needs_three_rounds_witness:
  "ll_link (ladder_run True [EndRound, EndRound]) = Udp
   \<and> ll_link (ladder_run True ([EndRound, EndRound] @ [EndRound])) = Wss
   \<and> take 3 (rev (rounds False ([EndRound, EndRound] @ [EndRound]))) = [False, False, False]"
proof -
  have a: "ll_link (ladder_run True [EndRound, EndRound]) = Udp"
    and b: "ll_link (ladder_run True ([EndRound, EndRound] @ [EndRound])) = Wss"
    by (simp_all add: ladder_run_def ladder_defs ladder_new_def sat_add_def WSS_AFTER_UDP_MISSES_def)
  then have "ll_link (ladder_run True ([EndRound, EndRound] @ [EndRound])) \<noteq>
      ll_link (ladder_run True [EndRound, EndRound])"
    by simp
  from link_switch_needs_three_rounds [OF this] a b show ?thesis
    by (simp add: numeral_3_eq_3)
qed

lemma unavailable_stays:
  "SetWss True \<notin> set es \<Longrightarrow> \<not> ll_wss_available l \<Longrightarrow> \<not> ll_wss_available (foldl ladder_step l es)"
proof (induction es arbitrary: l)
  case (Cons e es)
  have "\<not> ll_wss_available (ladder_step l e)"
    using Cons.prems
    by (cases e; cases "ll_link l") (auto simp: ladder_step_def set_wss_available_def udp_answered_def end_round_def Let_def)
  with Cons show ?case by simp
qed simp

text \<open>
  The WSS link is used only while it is available, in every state a run can reach; and once
  the endpoint is withdrawn the link is UDP, and stays UDP until an endpoint is available again.
\<close>

theorem wss_only_while_available:
  "(ll_link (ladder_run w es) = Wss \<longrightarrow> ll_wss_available (ladder_run w es))
   \<and> (SetWss True \<notin> set later \<longrightarrow> ll_link (ladder_run w (es @ SetWss False # later)) = Udp)"
proof -
  have inv: "ladder_inv (ladder_run w xs)" for xs
    unfolding ladder_run_def
    by (rule ladder.run_inv) (simp add: ladder_inv_def ladder_new_def)
  have "\<not> ll_wss_available (ladder_run w (es @ SetWss False # later))" if "SetWss True \<notin> set later"
    using that unfolding ladder_run_def
    by (simp add: unavailable_stays ladder_step_def set_wss_available_def)
  then show ?thesis using inv [of es] inv [of "es @ SetWss False # later"]
    by (cases "ll_link (ladder_run w (es @ SetWss False # later))") (auto simp: ladder_inv_def)
qed

theorem wss_only_while_available_witness:
  "ll_wss_available (ladder_run True [EndRound, EndRound, EndRound])
   \<and> ll_link (ladder_run True ([EndRound, EndRound, EndRound] @ SetWss False # [EndRound])) = Udp"
proof -
  have "ll_link (ladder_run True [EndRound, EndRound, EndRound]) = Wss"
    by (simp add: ladder_run_def ladder_defs ladder_new_def sat_add_def WSS_AFTER_UDP_MISSES_def)
  with wss_only_while_available [of True "[EndRound, EndRound, EndRound]" "[EndRound]"] show ?thesis by simp
qed

subsection \<open>Direct and relayed paths\<close>

definition DIRECT_SILENCE :: duration where "DIRECT_SILENCE = secs 15"
definition DIRECT_RETRY_EVERY :: duration where "DIRECT_RETRY_EVERY = secs 30"
definition DIRECT_PROBE_WINDOW :: duration where "DIRECT_PROBE_WINDOW = secs 10"
definition DIRECT_PROMOTE_HITS :: nat where "DIRECT_PROMOTE_HITS = 2"

datatype path_mode = Direct | Relay

record route =
  rt_direct :: bool
  rt_relay :: bool

record peer_path =
  pp_mode :: path_mode
  pp_has_direct :: bool
  pp_unanswered_since :: "instant option"
  pp_probe_until :: "instant option"
  pp_next_probe :: "instant option"
  pp_hits :: nat

definition path_new :: "bool \<Rightarrow> peer_path" where
  "path_new has_direct =
     \<lparr>pp_mode = (if has_direct then Direct else Relay), pp_has_direct = has_direct,
      pp_unanswered_since = None, pp_probe_until = None, pp_next_probe = None, pp_hits = 0\<rparr>"

definition set_has_direct :: "peer_path \<Rightarrow> bool \<Rightarrow> peer_path" where
  "set_has_direct p has_direct =
     (let p = p\<lparr>pp_has_direct := has_direct\<rparr>
      in if \<not> has_direct then p\<lparr>pp_mode := Relay\<rparr> else p)"

definition path_route :: "peer_path \<Rightarrow> instant \<Rightarrow> bool \<Rightarrow> route \<times> peer_path" where
  "path_route p now relay_ready =
     (if \<not> relay_ready then (\<lparr>rt_direct = pp_has_direct p, rt_relay = False\<rparr>, p)
      else case pp_mode p of
        Direct \<Rightarrow>
          (let since = (case pp_unanswered_since p of Some t \<Rightarrow> t | None \<Rightarrow> now);
               p = p\<lparr>pp_unanswered_since := Some since\<rparr>
           in if now - since < DIRECT_SILENCE then (\<lparr>rt_direct = True, rt_relay = False\<rparr>, p)
              else (\<lparr>rt_direct = False, rt_relay = True\<rparr>,
                    p\<lparr>pp_mode := Relay, pp_hits := 0, pp_probe_until := None,
                      pp_next_probe := Some (now + DIRECT_RETRY_EVERY)\<rparr>))
      | Relay \<Rightarrow>
          (if \<not> pp_has_direct p then (\<lparr>rt_direct = False, rt_relay = True\<rparr>, p)
           else if (case pp_probe_until p of Some until \<Rightarrow> now < until | None \<Rightarrow> False)
           then (\<lparr>rt_direct = True, rt_relay = True\<rparr>, p)
           else let due = (case pp_next_probe p of None \<Rightarrow> True | Some at \<Rightarrow> at \<le> now);
                    p = (if due
                         then p\<lparr>pp_probe_until := Some (now + DIRECT_PROBE_WINDOW),
                                pp_next_probe := Some (now + DIRECT_RETRY_EVERY), pp_hits := 0\<rparr>
                         else p)
                in (\<lparr>rt_direct = due, rt_relay = True\<rparr>, p)))"

definition path_direct_received :: "peer_path \<Rightarrow> peer_path" where
  "path_direct_received p =
     (let p = p\<lparr>pp_unanswered_since := None\<rparr>
      in if pp_mode p = Relay \<and> pp_has_direct p
         then let p = p\<lparr>pp_hits := sat_add 32 (pp_hits p) 1\<rparr>
              in if pp_hits p \<ge> DIRECT_PROMOTE_HITS
                 then p\<lparr>pp_mode := Direct, pp_hits := 0, pp_probe_until := None\<rparr> else p
         else p)"

datatype path_event = SetHasDirect bool | RouteAt instant bool | DirectReceived

definition path_step :: "peer_path \<Rightarrow> path_event \<Rightarrow> peer_path" where
  "path_step p e =
     (case e of
        SetHasDirect b \<Rightarrow> set_has_direct p b
      | RouteAt now ready \<Rightarrow> snd (path_route p now ready)
      | DirectReceived \<Rightarrow> path_direct_received p)"

definition path_inv :: "peer_path \<Rightarrow> bool" where
  "path_inv p \<longleftrightarrow>
     (pp_mode p = Direct \<longrightarrow> pp_has_direct p \<and> pp_hits p = 0) \<and> pp_hits p < DIRECT_PROMOTE_HITS"

lemma path_new_inv: "path_inv (path_new d)"
  by (simp add: path_inv_def path_new_def DIRECT_PROMOTE_HITS_def)

lemma set_has_direct_inv: "path_inv p \<Longrightarrow> path_inv (set_has_direct p b)"
  by (simp add: path_inv_def set_has_direct_def Let_def)

lemma path_route_inv: "path_inv p \<Longrightarrow> path_inv (snd (path_route p now ready))"
  by (auto simp: path_inv_def path_route_def Let_def DIRECT_PROMOTE_HITS_def
      split: path_mode.splits option.splits)

lemma path_direct_received_inv: "path_inv p \<Longrightarrow> path_inv (path_direct_received p)"
  by (auto simp: path_inv_def path_direct_received_def Let_def DIRECT_PROMOTE_HITS_def)

lemma path_step_inv: "path_inv p \<Longrightarrow> path_inv (path_step p e)"
  by (simp add: path_step_def set_has_direct_inv path_route_inv path_direct_received_inv
      split: path_event.splits)

interpretation path: guarded_machine path_step path_inv
  by unfold_locales (rule path_step_inv)

lemma path_route_direct: "path_inv p \<Longrightarrow> rt_direct (fst (path_route p now ready)) \<Longrightarrow> pp_has_direct p"
  by (auto simp: path_inv_def path_route_def Let_def split: path_mode.splits option.splits if_splits)

lemma path_route_somewhere:
  "ready \<Longrightarrow> rt_direct (fst (path_route p now ready)) \<or> rt_relay (fst (path_route p now ready))"
  by (auto simp: path_route_def Let_def split: path_mode.splits option.splits)

lemma path_route_relay_ready: "rt_relay (fst (path_route p now ready)) \<Longrightarrow> ready"
  by (auto simp: path_route_def split: if_splits)

text \<open>
  C38. Routing is total and honest. After any sequence of calls on a fresh path, an outbound
  datagram is sent somewhere whenever a relay is ready or a direct endpoint is known, it is sent
  directly only when the peer has a direct endpoint, and it is relayed only when a relay is ready.
\<close>

theorem route_never_blackholes:
  "let p = foldl path_step (path_new d) es; r = fst (path_route p now ready)
   in (ready \<or> pp_has_direct p \<longrightarrow> rt_direct r \<or> rt_relay r)
      \<and> (rt_direct r \<longrightarrow> pp_has_direct p) \<and> (rt_relay r \<longrightarrow> ready)"
proof -
  let ?p = "foldl path_step (path_new d) es"
  have "path_inv ?p"
    by (rule path.run_inv) (rule path_new_inv)
  moreover have "\<not> ready \<Longrightarrow> rt_direct (fst (path_route ?p now ready)) = pp_has_direct ?p"
    by (simp add: path_route_def)
  ultimately show ?thesis
    unfolding Let_def
    using path_route_direct path_route_somewhere path_route_relay_ready by blast
qed

theorem route_never_blackholes_witness:
  "rt_relay (fst (path_route (foldl path_step (path_new False) []) 7 True))"
proof -
  have "\<not> pp_has_direct (foldl path_step (path_new False) [])"
    by (simp add: path_new_def)
  with route_never_blackholes [of False "[]" 7 True] show ?thesis by (auto simp: Let_def)
qed

lemma path_demotion:
  assumes "pp_mode p = Direct" and "pp_mode (path_step p e) = Relay"
  shows "e = SetHasDirect False \<or>
    (\<exists>now since. e = RouteAt now True \<and> pp_unanswered_since p = Some since
       \<and> DIRECT_SILENCE \<le> now - since)"
  using assms
  by (cases e)
     (auto simp: path_step_def set_has_direct_def path_route_def path_direct_received_def Let_def
        DIRECT_SILENCE_def secs_def split: option.splits if_splits)

lemma path_hits_progress:
  assumes "pp_mode p = Relay" and "pp_mode (foldl path_step p es) = Direct"
  shows "2 \<le> pp_hits p + count_list es DirectReceived"
  using assms
proof (induction es arbitrary: p)
  case Nil
  then show ?case by simp
next
  case (Cons e es)
  let ?p' = "path_step p e"
  show ?case
  proof (cases "pp_mode ?p'")
    case Relay
    then have "2 \<le> pp_hits ?p' + count_list es DirectReceived"
      using Cons by simp
    moreover have "pp_hits ?p' \<le> pp_hits p + (if e = DirectReceived then 1 else 0)"
      using Cons.prems(1)
      by (cases e) (auto simp: path_step_def set_has_direct_def path_route_def
          path_direct_received_def Let_def sat_add_def split: option.splits)
    ultimately show ?thesis by (auto split: if_splits)
  next
    case Direct
    with Cons.prems(1) have "e = DirectReceived" and "1 \<le> pp_hits p"
      by (cases e; auto simp: path_step_def set_has_direct_def path_route_def
          path_direct_received_def Let_def sat_add_def DIRECT_PROMOTE_HITS_def
          split: option.splits if_splits)+
    then show ?thesis by simp
  qed
qed

text \<open>
  The path does not flap. Routing a datagram gives up a direct path only when at least 15 s
  have passed since the recorded start of the silence. And whatever is called after such a
  demotion, the path is direct again only after two datagrams were received directly.
\<close>

theorem path_hysteresis:
  assumes "pp_mode p = Direct" and "pp_mode (path_step p (RouteAt now ready)) = Relay"
  shows "(\<exists>since. pp_unanswered_since p = Some since \<and> secs 15 \<le> now - since)
    \<and> (pp_mode (foldl path_step (path_step p (RouteAt now ready)) es) = Direct \<longrightarrow>
      2 \<le> count_list es DirectReceived)"
proof (intro conjI impI)
  show "\<exists>since. pp_unanswered_since p = Some since \<and> secs 15 \<le> now - since"
    using path_demotion [OF assms] by (auto simp: DIRECT_SILENCE_def)
  have "pp_hits (path_step p (RouteAt now ready)) = 0"
    using assms by (auto simp: path_step_def path_route_def Let_def split: option.splits if_splits)
  moreover assume "pp_mode (foldl path_step (path_step p (RouteAt now ready)) es) = Direct"
  ultimately show "2 \<le> count_list es DirectReceived"
    using path_hits_progress [OF assms(2)] by fastforce
qed

theorem path_hysteresis_witness:
  "2 \<le> count_list [DirectReceived, DirectReceived] DirectReceived
   \<and> pp_mode (foldl path_step
       (path_step (snd (path_route (path_new True) 0 True)) (RouteAt (secs 15) True))
       [DirectReceived, DirectReceived]) = Direct"
proof -
  let ?p = "snd (path_route (path_new True) 0 True)"
  have m: "pp_mode ?p = Direct" "pp_mode (path_step ?p (RouteAt (secs 15) True)) = Relay"
    and r: "pp_mode (foldl path_step (path_step ?p (RouteAt (secs 15) True))
      [DirectReceived, DirectReceived]) = Direct"
    by (simp_all add: path_new_def path_step_def path_route_def path_direct_received_def Let_def
        DIRECT_SILENCE_def secs_def sat_add_def DIRECT_PROMOTE_HITS_def)
  from path_hysteresis [OF m] r show ?thesis by blast
qed

end
