(* ===== verification/Mobile_Relay.thy ===== *)
theory Mobile_Relay
  imports Relay_Frame Relay_Select Relay_Ladder
begin

section \<open>The mobile relay session (\<open>blaktail-relay-proto/src/mobile.rs\<close>)\<close>

text \<open>
  \<open>MobileRelay\<close> decides, for a platform that owns the sockets, which relay is active, which
  control frames to send, where an outbound datagram goes and which inbound frames carry traffic.
  Every method is a definition on the record of the struct's fields; \<open>now\<close> is an argument, as
  it is in the code. A run is a list of method calls in any order.
\<close>

definition RELAY_GRACE :: duration where "RELAY_GRACE = secs 35"
definition FAILBACK_PROBE :: duration where "FAILBACK_PROBE = secs 10"
definition MAX_PEERS :: nat where "MAX_PEERS = 4096"
definition MAX_RELAYS :: nat where "MAX_RELAYS = 16"
definition MAX_QUEUED_CONTROL :: nat where "MAX_QUEUED_CONTROL = 16"

type_synonym public_key = bytes

record relay_option =
  ro_endpoint :: string
  ro_region :: string
  ro_wss :: "string option"

text \<open>One line of the advertised list, then the list.\<close>

definition parse_relay_line :: "string \<Rightarrow> relay_option option" where
  "parse_relay_line line =
     (case str_split (CHR 0x09) line of
        endpoint # region # rest \<Rightarrow>
          (let endpoint = str_trim endpoint;
               region = str_trim region;
               wss = (case rest of
                        [] \<Rightarrow> None
                      | url # _ \<Rightarrow> (let url = str_trim url in if url = [] then None else Some url))
           in if endpoint = [] \<or> \<not> is_australian_region region then None
              else Some \<lparr>ro_endpoint = endpoint, ro_region = region,
                         ro_wss = (case wss of
                                     None \<Rightarrow> None
                                   | Some url \<Rightarrow>
                                       if starts_with ''wss://'' url \<and> CHR ''@'' \<notin> set url
                                       then Some url else None)\<rparr>)
      | _ \<Rightarrow> None)"

definition parse_relay_lines :: "string \<Rightarrow> relay_option list" where
  "parse_relay_lines lines = take MAX_RELAYS (List.map_filter parse_relay_line (str_lines lines))"

record control =
  ct_link :: link
  ct_endpoint :: string
  ct_frame :: bytes

record outbound =
  ob_direct :: bool
  ob_relay :: "link option"

record mobile_status =
  ms_transport :: string
  ms_relay_endpoint :: "string option"
  ms_relay_link :: "link option"
  ms_wss_url :: "string option"
  ms_relay_healthy :: bool
  ms_peers_direct :: nat
  ms_peers_relayed :: nat
  ms_failovers :: u64

record mobile_peer =
  mp_id :: node_id
  mp_path :: peer_path
  mp_active :: bool

record active_relay =
  ac_endpoint :: string
  ac_wss :: "string option"
  ac_ladder :: link_ladder
  ac_started :: instant
  ac_last_seen :: "instant option"
  ac_round_ends :: instant

record failback_probe =
  fb_endpoint :: string
  fb_until :: instant

record mobile_relay =
  mr_self_id :: node_id
  mr_token :: bytes
  mr_expires :: u64
  mr_allow_wss :: bool
  mr_relays :: "relay_option list"
  mr_selector :: "string selector"
  mr_active :: "active_relay option"
  mr_failback :: "failback_probe option"
  mr_peers :: "(public_key, mobile_peer) hmap"
  mr_control :: "control list"

definition mobile_new :: "node_id \<Rightarrow> bool \<Rightarrow> mobile_relay" where
  "mobile_new self_id allow_wss =
     \<lparr>mr_self_id = self_id, mr_token = replicate TOKEN_LEN 0, mr_expires = 0,
      mr_allow_wss = allow_wss, mr_relays = [], mr_selector = selector_default, mr_active = None,
      mr_failback = None, mr_peers = [], mr_control = []\<rparr>"

subsection \<open>Control frames\<close>

fun make_room :: "'a list \<Rightarrow> 'a list" where
  "make_room [] = []"
| "make_room (x # xs) =
     (if length (x # xs) + 2 > MAX_QUEUED_CONTROL then make_room xs else x # xs)"

definition push_probe :: "mobile_relay \<Rightarrow> link \<Rightarrow> string \<Rightarrow> mobile_relay" where
  "push_probe r l endpoint =
     (if mr_expires r = 0 then r
      else r\<lparr>mr_control := make_room (mr_control r) @
               [\<lparr>ct_link = l, ct_endpoint = endpoint,
                 ct_frame = register_frame (mr_self_id r) (mr_expires r) (mr_token r)\<rparr>,
                \<lparr>ct_link = l, ct_endpoint = endpoint, ct_frame = ping_frame (mr_self_id r)\<rparr>]\<rparr>)"

definition queue_registration :: "mobile_relay \<Rightarrow> mobile_relay" where
  "queue_registration r =
     (case mr_active r of
        None \<Rightarrow> r
      | Some active \<Rightarrow>
          (let endpoint = ac_endpoint active;
               on_wss = (ll_link (ac_ladder active) = Wss \<and> \<not> udp_proven (ac_ladder active));
               r = push_probe r Udp endpoint
           in if on_wss then push_probe r Wss endpoint else r))"

definition activate :: "mobile_relay \<Rightarrow> string \<Rightarrow> instant \<Rightarrow> mobile_relay" where
  "activate r endpoint now =
     (let wss = (case find (\<lambda>relay. ro_endpoint relay = endpoint) (mr_relays r) of
                   None \<Rightarrow> None
                 | Some relay \<Rightarrow> if mr_allow_wss r then ro_wss relay else None);
          ladder = ladder_new (wss \<noteq> None)
      in queue_registration
           (r\<lparr>mr_active := Some \<lparr>ac_endpoint = endpoint, ac_wss = wss, ac_ladder = ladder,
                                  ac_started = now, ac_last_seen = None,
                                  ac_round_ends = now + round_length ladder\<rparr>\<rparr>))"

definition candidates :: "mobile_relay \<Rightarrow> string list" where
  "candidates r = map ro_endpoint (mr_relays r)"

definition activate_choice :: "mobile_relay \<Rightarrow> instant \<Rightarrow> mobile_relay" where
  "activate_choice r now =
     (case choose_relay (mr_selector r) (candidates r) now of
        None \<Rightarrow> r
      | Some endpoint \<Rightarrow> activate r endpoint now)"

subsection \<open>The methods\<close>

definition configure ::
  "mobile_relay \<Rightarrow> bytes \<Rightarrow> u64 \<Rightarrow> relay_option list \<Rightarrow> instant \<Rightarrow> mobile_relay" where
  "configure r token expires relays now =
     (let token_changed = (token \<noteq> mr_token r \<or> expires \<noteq> mr_expires r);
          r = r\<lparr>mr_token := token, mr_expires := expires, mr_relays := relays\<rparr>
      in case mr_active r of
           None \<Rightarrow> activate_choice (r\<lparr>mr_active := None\<rparr>) now
         | Some active \<Rightarrow>
             (case find (\<lambda>relay. ro_endpoint relay = ac_endpoint active) (mr_relays r) of
                None \<Rightarrow> activate_choice (r\<lparr>mr_active := None\<rparr>) now
              | Some relay \<Rightarrow>
                  (let wss = (if mr_allow_wss r then ro_wss relay else None);
                       active = active\<lparr>ac_wss := wss,
                                       ac_ladder := set_wss_available (ac_ladder active) (wss \<noteq> None)\<rparr>;
                       r = r\<lparr>mr_active := Some active\<rparr>
                   in if token_changed then queue_registration r else r)))"

definition set_peer :: "mobile_relay \<Rightarrow> public_key \<Rightarrow> node_id \<Rightarrow> bool \<Rightarrow> mobile_relay" where
  "set_peer r key nid has_direct =
     (case hm_get (mr_peers r) key of
        Some peer \<Rightarrow>
          r\<lparr>mr_peers := hm_insert key
              (peer\<lparr>mp_id := nid, mp_path := set_has_direct (mp_path peer) has_direct, mp_active := True\<rparr>)
              (mr_peers r)\<rparr>
      | None \<Rightarrow>
          if length (mr_peers r) \<ge> MAX_PEERS then r
          else r\<lparr>mr_peers := hm_insert key
                   \<lparr>mp_id = nid, mp_path = path_new has_direct, mp_active = True\<rparr> (mr_peers r)\<rparr>)"

definition begin_peer_refresh :: "mobile_relay \<Rightarrow> mobile_relay" where
  "begin_peer_refresh r = r\<lparr>mr_peers := hm_map (\<lambda>peer. peer\<lparr>mp_active := False\<rparr>) (mr_peers r)\<rparr>"

definition end_peer_refresh :: "mobile_relay \<Rightarrow> mobile_relay" where
  "end_peer_refresh r = r\<lparr>mr_peers := hm_retain (\<lambda>_ peer. mp_active peer) (mr_peers r)\<rparr>"

definition relay_ready :: "mobile_relay \<Rightarrow> bool" where
  "relay_ready r \<longleftrightarrow> mr_active r \<noteq> None \<and> mr_expires r > 0"

definition active_link :: "mobile_relay \<Rightarrow> link option" where
  "active_link r = map_option (\<lambda>active. ll_link (ac_ladder active)) (mr_active r)"

definition mobile_outbound :: "mobile_relay \<Rightarrow> public_key \<Rightarrow> instant \<Rightarrow> outbound \<times> mobile_relay" where
  "mobile_outbound r key now =
     (case hm_get (mr_peers r) key of
        None \<Rightarrow> (\<lparr>ob_direct = True, ob_relay = None\<rparr>, r)
      | Some peer \<Rightarrow>
          (let (rt, p) = path_route (mp_path peer) now (relay_ready r)
           in (\<lparr>ob_direct = rt_direct rt, ob_relay = (if rt_relay rt then active_link r else None)\<rparr>,
               r\<lparr>mr_peers := hm_insert key (peer\<lparr>mp_path := p\<rparr>) (mr_peers r)\<rparr>)))"

definition relayed_peer_ids :: "mobile_relay \<Rightarrow> node_id list" where
  "relayed_peer_ids r =
     (if \<not> relay_ready r then []
      else map mp_id (filter (\<lambda>peer. pp_mode (mp_path peer) = Relay) (map snd (mr_peers r))))"

definition peer_id :: "mobile_relay \<Rightarrow> public_key \<Rightarrow> node_id option" where
  "peer_id r key = map_option mp_id (hm_get (mr_peers r) key)"

definition mobile_direct_received :: "mobile_relay \<Rightarrow> public_key \<Rightarrow> mobile_relay" where
  "mobile_direct_received r key =
     (case hm_get (mr_peers r) key of
        None \<Rightarrow> r
      | Some peer \<Rightarrow>
          r\<lparr>mr_peers := hm_insert key (peer\<lparr>mp_path := path_direct_received (mp_path peer)\<rparr>) (mr_peers r)\<rparr>)"

definition observed_active :: "mobile_relay \<Rightarrow> link \<Rightarrow> string \<Rightarrow> instant \<Rightarrow> mobile_relay" where
  "observed_active r l endpoint now =
     (case mr_active r of
        None \<Rightarrow> r
      | Some active \<Rightarrow>
          if \<not> (case l of Udp \<Rightarrow> ac_endpoint active = endpoint | Wss \<Rightarrow> ac_wss active \<noteq> None) then r
          else let active = active\<lparr>ac_last_seen := Some now\<rparr>;
                   active = (if l = Udp
                             then active\<lparr>ac_ladder := udp_answered (ac_ladder active)\<rparr> else active)
               in r\<lparr>mr_active := Some active,
                    mr_selector := record_healthy (mr_selector r) (ac_endpoint active)\<rparr>)"

definition observed :: "mobile_relay \<Rightarrow> link \<Rightarrow> string \<Rightarrow> instant \<Rightarrow> mobile_relay" where
  "observed r l endpoint now =
     (case (if l = Udp then mr_failback r else None) of
        Some fb \<Rightarrow>
          if fb_endpoint fb = endpoint \<and> now < fb_until fb
          then activate
                 (r\<lparr>mr_failback := None,
                    mr_selector := note_failback (record_healthy (mr_selector r) (fb_endpoint fb))\<rparr>)
                 (fb_endpoint fb) now
          else observed_active r l endpoint now
      | None \<Rightarrow> observed_active r l endpoint now)"

definition mobile_inbound ::
  "mobile_relay \<Rightarrow> bytes \<Rightarrow> link \<Rightarrow> string \<Rightarrow> instant \<Rightarrow> (public_key \<times> bytes) option \<times> mobile_relay" where
  "mobile_inbound r data l endpoint now =
     (if parse_observed data (mr_self_id r) \<noteq> None then (None, observed r l endpoint now)
      else case parse_forwarded data of
        None \<Rightarrow> (None, r)
      | Some (source, payload) \<Rightarrow>
          if \<not> (case mr_active r of
                   None \<Rightarrow> False
                 | Some active \<Rightarrow>
                     (case l of
                        Udp \<Rightarrow> ac_endpoint active = endpoint
                      | Wss \<Rightarrow> ll_link (ac_ladder active) = Wss))
          then (None, r)
          else (map_option (\<lambda>(key, _). (key, payload))
                  (find (\<lambda>(_, peer). mp_id peer = source) (mr_peers r)), r))"

definition healthy :: "active_relay \<Rightarrow> instant \<Rightarrow> bool" where
  "healthy active now \<longleftrightarrow>
     (case ac_last_seen active of
        None \<Rightarrow> now - ac_started active < RELAY_GRACE
      | Some seen \<Rightarrow> now - seen < RELAY_HEALTH)"

definition tick_round :: "mobile_relay \<Rightarrow> active_relay \<Rightarrow> instant \<Rightarrow> mobile_relay" where
  "tick_round r active now =
     (if now \<ge> ac_round_ends active
      then let ladder = snd (end_round (ac_ladder active))
           in queue_registration
                (r\<lparr>mr_active := Some (active\<lparr>ac_ladder := ladder,
                                             ac_round_ends := now + round_length ladder\<rparr>)\<rparr>)
      else r)"

definition tick_failback :: "mobile_relay \<Rightarrow> instant \<Rightarrow> mobile_relay" where
  "tick_failback r now =
     (case mr_failback r of
        Some fb \<Rightarrow>
          if now \<ge> fb_until fb
          then r\<lparr>mr_failback := None,
                 mr_selector := snd (record_failure (mr_selector r) (fb_endpoint fb) now)\<rparr>
          else r
      | None \<Rightarrow>
          (case mr_active r of
             None \<Rightarrow> r
           | Some active \<Rightarrow>
               (case failback_target (mr_selector r) (ac_endpoint active) (candidates r) now of
                  None \<Rightarrow> r
                | Some target \<Rightarrow>
                    push_probe
                      (r\<lparr>mr_failback := Some \<lparr>fb_endpoint = target, fb_until = now + FAILBACK_PROBE\<rparr>\<rparr>)
                      Udp target)))"

definition fail_over :: "mobile_relay \<Rightarrow> active_relay \<Rightarrow> instant \<Rightarrow> mobile_relay" where
  "fail_over r active now =
     activate_choice
       (r\<lparr>mr_selector := note_failover (snd (record_failure (mr_selector r) (ac_endpoint active) now)),
          mr_active := None\<rparr>) now"

definition mobile_tick :: "mobile_relay \<Rightarrow> instant \<Rightarrow> mobile_relay" where
  "mobile_tick r now =
     (if mr_relays r = [] \<or> mr_expires r = 0 then r\<lparr>mr_active := None\<rparr>
      else let r = (if mr_active r = None then activate_choice r now else r)
           in case mr_active r of
                None \<Rightarrow> r
              | Some active \<Rightarrow>
                  if \<not> healthy active now then fail_over r active now
                  else tick_failback (tick_round r active now) now)"

definition poll :: "mobile_relay \<Rightarrow> control option \<times> mobile_relay" where
  "poll r = (case mr_control r of [] \<Rightarrow> (None, r) | c # cs \<Rightarrow> (Some c, r\<lparr>mr_control := cs\<rparr>))"

definition mobile_status_of :: "mobile_relay \<Rightarrow> instant \<Rightarrow> mobile_status" where
  "mobile_status_of r now =
     (let relayed = length (filter (\<lambda>peer. pp_mode (mp_path peer) = Relay \<and> relay_ready r) (map snd (mr_peers r)));
          direct = length (filter (\<lambda>peer. \<not> (pp_mode (mp_path peer) = Relay \<and> relay_ready r)) (map snd (mr_peers r)));
          l = active_link r
      in \<lparr>ms_transport =
            (if relayed = 0 then (if direct = 0 then ''none'' else ''direct'')
             else case l of Some l \<Rightarrow> transport_label l | None \<Rightarrow> ''direct''),
          ms_relay_endpoint = map_option ac_endpoint (mr_active r),
          ms_relay_link = l,
          ms_wss_url =
            (case mr_active r of
               None \<Rightarrow> None
             | Some active \<Rightarrow> if ll_link (ac_ladder active) = Wss then ac_wss active else None),
          ms_relay_healthy =
            (case mr_active r of
               None \<Rightarrow> False
             | Some active \<Rightarrow>
                 (case ac_last_seen active of None \<Rightarrow> False | Some seen \<Rightarrow> now - seen < RELAY_HEALTH)),
          ms_peers_direct = direct,
          ms_peers_relayed = relayed,
          ms_failovers = failovers (mr_selector r)\<rparr>)"

subsection \<open>The advertised list\<close>

text \<open>
  Only approved relays enter the session. Whatever text the coordinator's list holds, the
  parsed list has at most 16 entries, and each has a non-empty endpoint, an Australian region and,
  if any, a \<open>wss://\<close> URL that carries no user information.
\<close>

theorem parse_relay_lines_sound:
  "length (parse_relay_lines text) \<le> 16
   \<and> (\<forall>relay\<in>set (parse_relay_lines text).
        ro_endpoint relay \<noteq> [] \<and> is_australian_region (ro_region relay)
        \<and> (\<forall>url. ro_wss relay = Some url \<longrightarrow> starts_with ''wss://'' url \<and> CHR ''@'' \<notin> set url))"
proof -
  have line: "ro_endpoint relay \<noteq> [] \<and> is_australian_region (ro_region relay)
      \<and> (\<forall>url. ro_wss relay = Some url \<longrightarrow> starts_with ''wss://'' url \<and> CHR ''@'' \<notin> set url)"
    if "parse_relay_line l = Some relay" for l relay
    using that by (auto simp: parse_relay_line_def Let_def split: list.splits if_splits option.splits)
  have "relay \<in> set (parse_relay_lines text) \<Longrightarrow> \<exists>l. parse_relay_line l = Some relay" for relay
    unfolding parse_relay_lines_def map_filter_def by (drule in_set_takeD) force
  then have "\<forall>relay\<in>set (parse_relay_lines text). \<exists>l. parse_relay_line l = Some relay" by blast
  moreover have "length (parse_relay_lines text) \<le> 16"
    by (simp add: parse_relay_lines_def MAX_RELAYS_def)
  ultimately show ?thesis using line by meson
qed

theorem parse_relay_lines_sound_witness:
  "\<exists>relay\<in>set (parse_relay_lines (''a'' @ [CHR 0x09] @ ''australiaeast'')).
     ro_endpoint relay = ''a'' \<and> is_australian_region (ro_region relay)"
proof -
  have "str_trim ''a'' = ''a''" "str_trim ''australiaeast'' = ''australiaeast''"
    by (rule str_trim_id, simp add: printing_def ascii_code_def)+
  then have "\<exists>relay\<in>set (parse_relay_lines (''a'' @ [CHR 0x09] @ ''australiaeast'')). ro_endpoint relay = ''a''"
    by (simp add: parse_relay_lines_def str_lines_def parse_relay_line_def MAX_RELAYS_def map_filter_def
        is_australian_region_def to_ascii_lowercase_def char_to_lower_def ascii_code_def)
  with parse_relay_lines_sound [of "''a'' @ [CHR 0x09] @ ''australiaeast''"] show ?thesis by blast
qed

subsection \<open>Invariant\<close>

definition active_ok :: "bool \<Rightarrow> active_relay \<Rightarrow> bool" where
  "active_ok allow_wss active \<longleftrightarrow>
     ladder_inv (ac_ladder active)
     \<and> (ll_wss_available (ac_ladder active) \<longleftrightarrow> ac_wss active \<noteq> None)
     \<and> (ac_wss active \<noteq> None \<longrightarrow> allow_wss)"

definition peers_ok :: "(public_key, mobile_peer) hmap \<Rightarrow> bool" where
  "peers_ok ps \<longleftrightarrow> hm_ok ps \<and> length ps \<le> MAX_PEERS \<and> (\<forall>(key, peer)\<in>set ps. path_inv (mp_path peer))"

definition mobile_ok :: "mobile_relay \<Rightarrow> bool" where
  "mobile_ok r \<longleftrightarrow>
     peers_ok (mr_peers r)
     \<and> length (mr_control r) \<le> MAX_QUEUED_CONTROL
     \<and> hm_ok (failures (mr_selector r))
     \<and> pred_option (active_ok (mr_allow_wss r)) (mr_active r)"

lemma mobile_new_ok: "mobile_ok (mobile_new self_id allow_wss)"
  by (simp add: mobile_ok_def mobile_new_def peers_ok_def selector_default_def)

lemma make_room_length: "length (make_room xs) + 2 \<le> max MAX_QUEUED_CONTROL 2"
  by (induction xs) (auto simp: max_def)

lemma push_probe_simps [simp]:
  "mr_peers (push_probe r l e) = mr_peers r" "mr_selector (push_probe r l e) = mr_selector r"
  "mr_active (push_probe r l e) = mr_active r" "mr_allow_wss (push_probe r l e) = mr_allow_wss r"
  "mr_relays (push_probe r l e) = mr_relays r" "mr_failback (push_probe r l e) = mr_failback r"
  "mr_expires (push_probe r l e) = mr_expires r" "mr_self_id (push_probe r l e) = mr_self_id r"
  by (simp_all add: push_probe_def)

lemma push_probe_control:
  "length (mr_control r) \<le> MAX_QUEUED_CONTROL \<Longrightarrow> length (mr_control (push_probe r l e)) \<le> MAX_QUEUED_CONTROL"
  using make_room_length [of "mr_control r"] by (simp add: push_probe_def MAX_QUEUED_CONTROL_def)

lemma queue_registration_simps [simp]:
  "mr_peers (queue_registration r) = mr_peers r" "mr_selector (queue_registration r) = mr_selector r"
  "mr_active (queue_registration r) = mr_active r" "mr_allow_wss (queue_registration r) = mr_allow_wss r"
  "mr_relays (queue_registration r) = mr_relays r" "mr_failback (queue_registration r) = mr_failback r"
  "mr_expires (queue_registration r) = mr_expires r" "mr_self_id (queue_registration r) = mr_self_id r"
  by (simp_all add: queue_registration_def Let_def split: option.splits)

lemma queue_registration_control:
  "length (mr_control r) \<le> MAX_QUEUED_CONTROL \<Longrightarrow>
    length (mr_control (queue_registration r)) \<le> MAX_QUEUED_CONTROL"
  by (simp add: queue_registration_def Let_def push_probe_control split: option.splits)

lemma queue_registration_ok: "mobile_ok r \<Longrightarrow> mobile_ok (queue_registration r)"
  by (simp add: mobile_ok_def queue_registration_control)

lemma push_probe_ok: "mobile_ok r \<Longrightarrow> mobile_ok (push_probe r l e)"
  by (simp add: mobile_ok_def push_probe_control)

lemma activate_ok: "mobile_ok r \<Longrightarrow> mobile_ok (activate r endpoint now)"
  unfolding activate_def Let_def
  by (rule queue_registration_ok)
     (auto simp: mobile_ok_def active_ok_def ladder_new_def ladder_inv_def split: option.splits)

lemma activate_choice_ok: "mobile_ok r \<Longrightarrow> mobile_ok (activate_choice r now)"
  by (simp add: activate_choice_def activate_ok split: option.splits)

lemma mobile_ok_no_active: "mobile_ok r \<Longrightarrow> mobile_ok (r\<lparr>mr_active := None\<rparr>)"
  by (simp add: mobile_ok_def)

lemma ladder_set_wss_ok:
  "ladder_inv l \<Longrightarrow> ladder_inv (set_wss_available l b) \<and> ll_wss_available (set_wss_available l b) = b"
  using ladder_step_inv [of l "SetWss b"] by (simp add: ladder_step_def set_wss_available_def Let_def)

lemma ladder_end_round_ok:
  "ladder_inv l \<Longrightarrow> ladder_inv (snd (end_round l)) \<and> ll_wss_available (snd (end_round l)) = ll_wss_available l"
  using ladder_step_inv [of l EndRound] by (auto simp: ladder_step_def end_round_def Let_def split: link.splits)

lemma ladder_answered_ok:
  "ladder_inv l \<Longrightarrow> ladder_inv (udp_answered l) \<and> ll_wss_available (udp_answered l) = ll_wss_available l"
  using ladder_step_inv [of l UdpAnswered] by (simp add: ladder_step_def udp_answered_def)

lemma configure_ok: "mobile_ok r \<Longrightarrow> mobile_ok (configure r token expires relays now)"
proof -
  assume ok: "mobile_ok r"
  let ?r = "r\<lparr>mr_token := token, mr_expires := expires, mr_relays := relays\<rparr>"
  have r: "mobile_ok ?r" using ok by (simp add: mobile_ok_def)
  have choice: "mobile_ok (activate_choice (?r\<lparr>mr_active := None\<rparr>) now)"
    by (intro activate_choice_ok mobile_ok_no_active r)
  have keep: "mobile_ok (?r\<lparr>mr_active := Some (active\<lparr>ac_wss := wss,
        ac_ladder := set_wss_available (ac_ladder active) (wss \<noteq> None)\<rparr>)\<rparr>)"
    if "mr_active r = Some active" "wss \<noteq> None \<longrightarrow> mr_allow_wss r" for active wss
    using ok that ladder_set_wss_ok [of "ac_ladder active" "wss \<noteq> None"]
    by (simp add: mobile_ok_def active_ok_def)
  show ?thesis
  proof (cases "mr_active r")
    case None
    with choice show ?thesis by (simp add: configure_def Let_def)
  next
    case (Some active)
    show ?thesis
    proof (cases "find (\<lambda>relay. ro_endpoint relay = ac_endpoint active) relays")
      case None
      with choice Some show ?thesis by (simp add: configure_def Let_def)
    next
      case (Some relay)
      let ?wss = "if mr_allow_wss r then ro_wss relay else None"
      have "mobile_ok (?r\<lparr>mr_active := Some (active\<lparr>ac_wss := ?wss,
          ac_ladder := set_wss_available (ac_ladder active) (?wss \<noteq> None)\<rparr>)\<rparr>)"
        by (rule keep) (use \<open>mr_active r = Some active\<close> in auto)
      then show ?thesis
        using Some \<open>mr_active r = Some active\<close>
        by (auto simp: configure_def Let_def mobile_ok_def intro!: queue_registration_control)
    qed
  qed
qed

lemma peers_ok_insert:
  "peers_ok ps \<Longrightarrow> path_inv (mp_path peer) \<Longrightarrow> length ps < MAX_PEERS \<or> hm_get ps key \<noteq> None \<Longrightarrow>
    peers_ok (hm_insert key peer ps)"
  using alist.capped_ins [of ps MAX_PEERS key peer]
  by (auto simp: peers_ok_def alist.ok_ins hm_insert_mem split: if_splits)

lemma peers_ok_get: "peers_ok ps \<Longrightarrow> hm_get ps key = Some peer \<Longrightarrow> path_inv (mp_path peer)"
  by (auto simp: peers_ok_def hm_get_mem)

lemma set_peer_ok: "mobile_ok r \<Longrightarrow> mobile_ok (set_peer r key nid has_direct)"
  by (auto simp: mobile_ok_def set_peer_def path_new_inv
      intro!: peers_ok_insert set_has_direct_inv dest: peers_ok_get split: option.splits)

lemma begin_peer_refresh_ok: "mobile_ok r \<Longrightarrow> mobile_ok (begin_peer_refresh r)"
  by (auto simp: mobile_ok_def begin_peer_refresh_def peers_ok_def hm_map_def hm_ok_def comp_def case_prod_beta)

lemma end_peer_refresh_ok: "mobile_ok r \<Longrightarrow> mobile_ok (end_peer_refresh r)"
  using alist.entries_keep [of "mr_peers r" "\<lambda>_ peer. mp_active peer"]
  by (auto simp: mobile_ok_def end_peer_refresh_def peers_ok_def alist.ok_keep hm_retain_mem)

lemma mobile_outbound_ok: "mobile_ok r \<Longrightarrow> mobile_ok (snd (mobile_outbound r key now))"
  by (auto simp: mobile_ok_def mobile_outbound_def case_prod_beta Let_def
      intro!: peers_ok_insert path_route_inv dest: peers_ok_get split: option.splits)

lemma mobile_direct_received_ok: "mobile_ok r \<Longrightarrow> mobile_ok (mobile_direct_received r key)"
  by (auto simp: mobile_ok_def mobile_direct_received_def
      intro!: peers_ok_insert path_direct_received_inv dest: peers_ok_get split: option.splits)

lemma observed_active_ok: "mobile_ok r \<Longrightarrow> mobile_ok (observed_active r l endpoint now)"
  by (auto simp: mobile_ok_def observed_active_def Let_def active_ok_def record_healthy_def
      alist.ok_del ladder_answered_ok split: option.splits link.splits)

lemma observed_ok: "mobile_ok r \<Longrightarrow> mobile_ok (observed r l endpoint now)"
proof -
  assume ok: "mobile_ok r"
  then have "mobile_ok (r\<lparr>mr_failback := None, mr_selector := note_failback (record_healthy (mr_selector r) e)\<rparr>)" for e
    by (simp add: mobile_ok_def note_failback_def record_healthy_def alist.ok_del)
  with ok show ?thesis
    by (auto simp: observed_def observed_active_ok activate_ok split: option.splits)
qed

lemma mobile_inbound_ok: "mobile_ok r \<Longrightarrow> mobile_ok (snd (mobile_inbound r data l endpoint now))"
  by (auto simp: mobile_inbound_def observed_ok split: option.splits)

lemma record_failure_ok: "hm_ok (failures s) \<Longrightarrow> hm_ok (failures (snd (record_failure s e now)))"
  by (simp add: record_failure_def Let_def alist.ok_ins)

lemma tick_round_ok:
  assumes "mobile_ok r" and "mr_active r = Some active"
  shows "mobile_ok (tick_round r active now)"
  using assms
  by (auto simp: tick_round_def Let_def mobile_ok_def active_ok_def ladder_end_round_ok
      intro!: queue_registration_control)

lemma tick_failback_ok: "mobile_ok r \<Longrightarrow> mobile_ok (tick_failback r now)"
  by (auto simp: tick_failback_def mobile_ok_def record_failure_ok intro!: push_probe_ok push_probe_control split: option.splits)

lemma fail_over_ok: "mobile_ok r \<Longrightarrow> mobile_ok (fail_over r active now)"
  unfolding fail_over_def
  by (rule activate_choice_ok) (simp add: mobile_ok_def note_failover_def record_failure_ok)

lemma mobile_tick_ok: "mobile_ok r \<Longrightarrow> mobile_ok (mobile_tick r now)"
  by (auto simp: mobile_tick_def Let_def mobile_ok_no_active activate_choice_ok fail_over_ok
      tick_failback_ok tick_round_ok split: option.splits)

lemma poll_ok: "mobile_ok r \<Longrightarrow> mobile_ok (snd (poll r))"
  by (auto simp: poll_def mobile_ok_def split: list.splits)

subsection \<open>Runs\<close>

datatype mobile_event =
    Configure bytes u64 "relay_option list" instant
  | SetPeer public_key node_id bool
  | BeginPeerRefresh
  | EndPeerRefresh
  | Outbound public_key instant
  | DirectFrom public_key
  | Inbound bytes link string instant
  | Tick instant
  | Poll

fun mobile_step :: "mobile_relay \<Rightarrow> mobile_event \<Rightarrow> mobile_relay" where
  "mobile_step r (Configure token expires relays now) = configure r token expires relays now"
| "mobile_step r (SetPeer key nid has_direct) = set_peer r key nid has_direct"
| "mobile_step r BeginPeerRefresh = begin_peer_refresh r"
| "mobile_step r EndPeerRefresh = end_peer_refresh r"
| "mobile_step r (Outbound key now) = snd (mobile_outbound r key now)"
| "mobile_step r (DirectFrom key) = mobile_direct_received r key"
| "mobile_step r (Inbound data l endpoint now) = snd (mobile_inbound r data l endpoint now)"
| "mobile_step r (Tick now) = mobile_tick r now"
| "mobile_step r Poll = snd (poll r)"

lemmas mobile_ok_intros = configure_ok set_peer_ok begin_peer_refresh_ok end_peer_refresh_ok
  mobile_outbound_ok mobile_direct_received_ok mobile_inbound_ok mobile_tick_ok poll_ok

interpretation mobile: guarded_machine mobile_step mobile_ok
proof
  fix r e
  assume "mobile_ok r"
  then show "mobile_ok (mobile_step r e)"
    by (cases e) (simp_all add: mobile_ok_intros)
qed

definition mobile_run :: "node_id \<Rightarrow> bool \<Rightarrow> mobile_event list \<Rightarrow> mobile_relay" where
  "mobile_run self_id allow_wss es = foldl mobile_step (mobile_new self_id allow_wss) es"

lemma mobile_run_ok: "mobile_ok (mobile_run self_id allow_wss es)"
  unfolding mobile_run_def by (rule mobile.run_inv) (rule mobile_new_ok)

subsection \<open>What a session promises\<close>

text \<open>
  A session stays small. Whatever the platform calls and whatever the relays send, the control
  queue never holds more than 16 frames and the peer table never more than 4096 peers, each key
  once.
\<close>

theorem mobile_session_bounded:
  "length (mr_control (mobile_run self_id allow_wss es)) \<le> 16
   \<and> length (mr_peers (mobile_run self_id allow_wss es)) \<le> 4096
   \<and> distinct (map fst (mr_peers (mobile_run self_id allow_wss es)))"
  using mobile_run_ok [of self_id allow_wss es]
  by (simp add: mobile_ok_def peers_ok_def MAX_QUEUED_CONTROL_def MAX_PEERS_def hm_ok_def)

lemma activate_allow [simp]: "mr_allow_wss (activate r e now) = mr_allow_wss r"
  by (simp add: activate_def Let_def)

lemma activate_choice_allow [simp]: "mr_allow_wss (activate_choice r now) = mr_allow_wss r"
  by (simp add: activate_choice_def split: option.splits)

lemma mobile_step_allow: "mr_allow_wss (mobile_step r e) = mr_allow_wss r"
  by (cases e)
     (auto simp: configure_def set_peer_def begin_peer_refresh_def end_peer_refresh_def
        mobile_outbound_def mobile_direct_received_def mobile_inbound_def observed_def
        observed_active_def mobile_tick_def tick_round_def tick_failback_def fail_over_def poll_def
        Let_def case_prod_beta split: option.splits list.splits)

lemma mobile_run_allow: "mr_allow_wss (mobile_run self_id allow_wss es) = allow_wss"
proof -
  have "mr_allow_wss (foldl mobile_step r es) = mr_allow_wss r" for r
    by (induction es arbitrary: r) (simp_all add: mobile_step_allow)
  then show ?thesis by (simp add: mobile_run_def mobile_new_def)
qed

text \<open>
  The session never strands the platform on a link it cannot open: in every reachable state,
  if the reported link is WSS then the platform allowed WSS and the status carries the URL to open.
\<close>

theorem wss_link_has_url:
  "ms_relay_link (mobile_status_of (mobile_run self_id allow_wss es) now) = Some Wss \<longrightarrow>
     allow_wss \<and> (\<exists>url. ms_wss_url (mobile_status_of (mobile_run self_id allow_wss es) now) = Some url)"
  using mobile_run_ok [of self_id allow_wss es] mobile_run_allow [of self_id allow_wss es]
  by (cases "mr_active (mobile_run self_id allow_wss es)")
     (auto simp: mobile_status_of_def Let_def active_link_def mobile_ok_def active_ok_def ladder_inv_def)

definition demo_relays :: "relay_option list" where
  "demo_relays =
     [\<lparr>ro_endpoint = ''a:1'', ro_region = ''australiaeast'', ro_wss = Some ''wss://a''\<rparr>,
      \<lparr>ro_endpoint = ''b:1'', ro_region = ''australiaeast'', ro_wss = None\<rparr>]"

lemmas mobile_eval = mobile_run_def mobile_new_def configure_def activate_choice_def candidates_def
  choose_relay_def cooling_def selector_default_def activate_def queue_registration_def push_probe_def
  mobile_tick_def healthy_def tick_round_def tick_failback_def failback_target_def end_round_def
  ladder_new_def round_length_def udp_proven_def RELAY_GRACE_def RELAY_HEALTH_def FAST_ROUND_def
  STEADY_ROUND_def WSS_AFTER_UDP_MISSES_def UDP_AFTER_HITS_def sat_add_def secs_def Let_def
  demo_relays_def active_link_def

theorem wss_link_has_url_witness:
  "\<exists>url. ms_wss_url (mobile_status_of (mobile_run [] True
     [Configure [] 9 demo_relays 0, Tick (secs 5), Tick (secs 10), Tick (secs 15)]) 0) = Some url"
proof -
  let ?r = "mobile_run [] True [Configure [] 9 demo_relays 0, Tick (secs 5), Tick (secs 10), Tick (secs 15)]"
  have "active_link ?r = Some Wss"
    by (simp add: mobile_eval)
  then have "ms_relay_link (mobile_status_of ?r 0) = Some Wss"
    by (simp add: mobile_status_of_def Let_def)
  with wss_link_has_url [of "[]" True _ 0] show ?thesis by blast
qed

text \<open>
  C39. Only the active relay delivers traffic, and only for enrolled peers. An inbound frame yields
  a datagram exactly when it is a well-formed FORWARDED frame, it arrived from the active relay
  (its UDP endpoint, or the WebSocket while that carries the session) and its source id belongs to
  a known peer; the datagram is then attributed to a peer with that id, its bytes are unchanged and
  the session state is not touched.
\<close>

theorem inbound_only_from_active_relay:
  "((\<exists>key. fst (mobile_inbound r data l endpoint now) = Some (key, payload)) \<longleftrightarrow>
      (\<exists>source active. data = FORWARDED # source @ payload \<and> length source = 16 \<and> length payload \<le> 2048
         \<and> mr_active r = Some active
         \<and> (case l of Udp \<Rightarrow> ac_endpoint active = endpoint | Wss \<Rightarrow> ll_link (ac_ladder active) = Wss)
         \<and> (\<exists>key peer. (key, peer) \<in> set (mr_peers r) \<and> mp_id peer = source)))
   \<and> (fst (mobile_inbound r data l endpoint now) = Some (key, payload) \<longrightarrow>
        snd (mobile_inbound r data l endpoint now) = r
        \<and> (\<exists>peer. (key, peer) \<in> set (mr_peers r) \<and> data = FORWARDED # mp_id peer @ payload))"
proof -
  have types: "parse_observed (FORWARDED # rest) nid = None" for rest nid
    by (simp add: parse_observed_def FORWARDED_def OBSERVED_def)
  have none: "find (\<lambda>(_, peer). mp_id peer = source) ps = None \<longleftrightarrow>
      \<not> (\<exists>key peer. (key, peer) \<in> set ps \<and> mp_id peer = source)" for source and ps :: "(public_key, mobile_peer) hmap"
    by (auto simp: find_None_iff)
  show ?thesis
  proof (cases "parse_forwarded data")
    case None
    then have no: "\<not> (data = FORWARDED # source @ payload \<and> length source = 16 \<and> length payload \<le> 2048)" for source
      using parse_forwarded_iff [of data source payload] by auto
    have f: "fst (mobile_inbound r data l endpoint now) = None"
      using None by (simp add: mobile_inbound_def)
    show ?thesis unfolding f using no by simp blast
  next
    case (Some sp)
    obtain source payload' where sp: "sp = (source, payload')" by (cases sp)
    with Some have d: "data = FORWARDED # source @ payload'" "length source = 16" "length payload' \<le> 2048"
      using parse_forwarded_iff [of data source payload'] by auto
    have u: "data = FORWARDED # s @ payload \<and> length s = 16 \<longleftrightarrow> s = source \<and> payload = payload'" for s
      using d by auto
    have e: "(\<exists>s active. data = FORWARDED # s @ payload \<and> length s = 16 \<and> length payload \<le> 2048 \<and> Q s active)
        \<longleftrightarrow> payload = payload' \<and> (\<exists>active. Q source active)" for Q :: "node_id \<Rightarrow> active_relay \<Rightarrow> bool"
    proof -
      have "data = FORWARDED # s @ payload \<and> length s = 16 \<and> length payload \<le> 2048 \<and> Q s active
          \<longleftrightarrow> s = source \<and> payload = payload' \<and> Q s active" for s active
        using u [of s] d(3) by auto
      then show ?thesis by auto
    qed
    have o: "parse_observed data nid = None" for nid using d(1) types by simp
    let ?from = "case mr_active r of None \<Rightarrow> False | Some active \<Rightarrow>
        (case l of Udp \<Rightarrow> ac_endpoint active = endpoint | Wss \<Rightarrow> ll_link (ac_ladder active) = Wss)"
    let ?f = "find (\<lambda>(_, peer). mp_id peer = source) (mr_peers r)"
    have m: "mobile_inbound r data l endpoint now =
        (if ?from then map_option (\<lambda>(key, _). (key, payload')) ?f else None, r)"
      using Some sp o by (simp add: mobile_inbound_def)
    have k: "(\<exists>key. fst (mobile_inbound r data l endpoint now) = Some (key, payload)) \<longleftrightarrow>
        ?from \<and> payload = payload' \<and> ?f \<noteq> None"
      unfolding m by (cases ?f) auto
    have s: "(key, peer) \<in> set (mr_peers r) \<and> mp_id peer = source" if "?f = Some (key, peer)" for key peer
      using that by (auto simp: find_Some_iff in_set_conv_nth)
    have "(\<exists>key. fst (mobile_inbound r data l endpoint now) = Some (key, payload)) \<longleftrightarrow>
      (\<exists>source active. data = FORWARDED # source @ payload \<and> length source = 16 \<and> length payload \<le> 2048
         \<and> mr_active r = Some active
         \<and> (case l of Udp \<Rightarrow> ac_endpoint active = endpoint | Wss \<Rightarrow> ll_link (ac_ladder active) = Wss)
         \<and> (\<exists>key peer. (key, peer) \<in> set (mr_peers r) \<and> mp_id peer = source))"
      unfolding k e none by (cases "mr_active r") auto
    moreover have "snd (mobile_inbound r data l endpoint now) = r
        \<and> (\<exists>peer. (key, peer) \<in> set (mr_peers r) \<and> data = FORWARDED # mp_id peer @ payload)"
      if "fst (mobile_inbound r data l endpoint now) = Some (key, payload)"
      using that d(1) s unfolding m by (cases ?f) (auto split: if_splits)
    ultimately show ?thesis by blast
  qed
qed

theorem inbound_only_from_active_relay_witness:
  "\<exists>key. fst (mobile_inbound
       (mobile_run (replicate 16 1) False [Configure [] 9 demo_relays 0, SetPeer [7] (replicate 16 2) False])
       (FORWARDED # replicate 16 2 @ [5]) Udp ''a:1'' 1) = Some (key, [5])"
proof -
  let ?r = "mobile_run (replicate 16 1) False [Configure [] 9 demo_relays 0, SetPeer [7] (replicate 16 2) False]"
  have "map_option ac_endpoint (mr_active ?r) = Some ''a:1''"
    and "map (\<lambda>(key, peer). (key, mp_id peer)) (mr_peers ?r) = [([7], replicate 16 2)]"
    by (simp_all add: mobile_eval set_peer_def MAX_PEERS_def hm_insert_def)
  then have "\<exists>active. mr_active ?r = Some active \<and> ac_endpoint active = ''a:1''"
    and "\<exists>key peer. (key, peer) \<in> set (mr_peers ?r) \<and> mp_id peer = replicate 16 2"
    by (auto simp: map_eq_Cons_conv)
  with inbound_only_from_active_relay
    [of ?r "FORWARDED # replicate 16 2 @ [5]" Udp "''a:1''" 1 "[5]" "[]"]
  show ?thesis by auto
qed

text \<open>
  No outbound datagram is lost by routing. In every reachable state, a datagram for a known
  peer leaves on at least one path whenever the peer has a direct endpoint or a relay is ready; it
  goes direct only to a peer with a direct endpoint, and through a relay only when one is active
  with a live capability, on the link that relay uses. Datagrams for unknown keys go direct.
\<close>

theorem outbound_never_lost:
  "let r = mobile_run self_id allow_wss es; ob = fst (mobile_outbound r key now)
   in (case hm_get (mr_peers r) key of
         None \<Rightarrow> ob = \<lparr>ob_direct = True, ob_relay = None\<rparr>
       | Some peer \<Rightarrow>
           (relay_ready r \<or> pp_has_direct (mp_path peer) \<longrightarrow> ob_direct ob \<or> ob_relay ob \<noteq> None)
           \<and> (ob_direct ob \<longrightarrow> pp_has_direct (mp_path peer))
           \<and> (\<forall>l. ob_relay ob = Some l \<longrightarrow> relay_ready r \<and> active_link r = Some l))"
proof -
  let ?r = "mobile_run self_id allow_wss es"
  show ?thesis
  proof (cases "hm_get (mr_peers ?r) key")
    case None
    then show ?thesis by (simp add: mobile_outbound_def Let_def)
  next
    case (Some peer)
    let ?rt = "fst (path_route (mp_path peer) now (relay_ready ?r))"
    have inv: "path_inv (mp_path peer)"
      using mobile_run_ok [of self_id allow_wss es] Some by (auto simp: mobile_ok_def dest: peers_ok_get)
    have ob: "fst (mobile_outbound ?r key now) =
        \<lparr>ob_direct = rt_direct ?rt, ob_relay = (if rt_relay ?rt then active_link ?r else None)\<rparr>"
      using Some by (simp add: mobile_outbound_def case_prod_beta Let_def)
    have "relay_ready ?r \<Longrightarrow> active_link ?r \<noteq> None"
      by (auto simp: relay_ready_def active_link_def)
    moreover have "\<not> relay_ready ?r \<Longrightarrow> rt_direct ?rt = pp_has_direct (mp_path peer)"
      by (simp add: path_route_def)
    ultimately show ?thesis
      using Some path_route_direct [OF inv, of now "relay_ready ?r"]
        path_route_somewhere [of "relay_ready ?r" "mp_path peer" now]
        path_route_relay_ready [of "mp_path peer" now "relay_ready ?r"]
      by (cases "relay_ready ?r") (auto simp: Let_def ob)
  qed
qed

theorem outbound_never_lost_witness:
  "ob_direct (fst (mobile_outbound (mobile_run [] False [SetPeer [7] [] True]) [7] 0))"
proof -
  let ?r = "mobile_run [] False [SetPeer [7] [] True]"
  have p: "hm_get (mr_peers ?r) [7] = Some \<lparr>mp_id = [], mp_path = path_new True, mp_active = True\<rparr>"
    and a: "\<not> relay_ready ?r"
    by (simp_all add: mobile_eval set_peer_def MAX_PEERS_def hm_insert_def relay_ready_def)
  from outbound_never_lost [of "[]" False "[SetPeer [7] [] True]" "[7]" 0] p a show ?thesis
    by (auto simp: Let_def path_new_def)
qed

subsection \<open>Fail-over\<close>

lemma activate_spec:
  "mr_active (activate r e now) =
     Some \<lparr>ac_endpoint = e,
           ac_wss = (case find (\<lambda>relay. ro_endpoint relay = e) (mr_relays r) of
                       None \<Rightarrow> None | Some relay \<Rightarrow> if mr_allow_wss r then ro_wss relay else None),
           ac_ladder = ladder_new ((case find (\<lambda>relay. ro_endpoint relay = e) (mr_relays r) of
                       None \<Rightarrow> None | Some relay \<Rightarrow> if mr_allow_wss r then ro_wss relay else None) \<noteq> None),
           ac_started = now, ac_last_seen = None, ac_round_ends = now + FAST_ROUND\<rparr>"
  by (simp add: activate_def Let_def round_length_def ladder_new_def)

lemma activate_selector [simp]: "mr_selector (activate r e now) = mr_selector r"
  by (simp add: activate_def Let_def)

lemma activate_control:
  "mr_expires r \<noteq> 0 \<Longrightarrow>
    \<exists>older. mr_control (activate r e now) = older @
      [\<lparr>ct_link = Udp, ct_endpoint = e,
        ct_frame = register_frame (mr_self_id r) (mr_expires r) (mr_token r)\<rparr>,
       \<lparr>ct_link = Udp, ct_endpoint = e, ct_frame = ping_frame (mr_self_id r)\<rparr>]"
  by (simp add: activate_def Let_def queue_registration_def ladder_new_def push_probe_def)

text \<open>
  Fail-over. When the active relay has stayed silent too long and some other advertised relay
  is not cooling down, one tick moves the session to a different advertised relay that is not
  cooling down: it starts fresh on UDP, a REGISTER with the session's capability and a PING to it
  are the last frames queued, the silent relay is barred for at least 30 s and the fail-over is
  counted.
\<close>

theorem tick_fails_over:
  assumes "mr_relays r \<noteq> []" and "mr_expires r \<noteq> 0" and "mr_active r = Some active"
    and "\<not> healthy active now"
    and "e \<in> set (candidates r)" and "e \<noteq> ac_endpoint active" and "\<not> cooling (mr_selector r) e now"
  shows "\<exists>active'. mr_active (mobile_tick r now) = Some active'
    \<and> ac_endpoint active' \<in> set (candidates r) \<and> ac_endpoint active' \<noteq> ac_endpoint active
    \<and> \<not> cooling (mr_selector r) (ac_endpoint active') now
    \<and> ll_link (ac_ladder active') = Udp \<and> ac_started active' = now
    \<and> (\<exists>older. mr_control (mobile_tick r now) = older @
         [\<lparr>ct_link = Udp, ct_endpoint = ac_endpoint active',
           ct_frame = register_frame (mr_self_id r) (mr_expires r) (mr_token r)\<rparr>,
          \<lparr>ct_link = Udp, ct_endpoint = ac_endpoint active', ct_frame = ping_frame (mr_self_id r)\<rparr>])
    \<and> (\<forall>t < now + secs 30. cooling (mr_selector (mobile_tick r now)) (ac_endpoint active) t)
    \<and> failovers (mr_selector (mobile_tick r now)) = failovers (mr_selector r) + 1"
proof -
  let ?s = "note_failover (snd (record_failure (mr_selector r) (ac_endpoint active) now))"
  let ?r = "r\<lparr>mr_selector := ?s, mr_active := None\<rparr>"
  have cool: "cooling ?s x t \<longleftrightarrow>
      (if x = ac_endpoint active then t < now + fst (record_failure (mr_selector r) (ac_endpoint active) now)
       else cooling (mr_selector r) x t)" for x t
    using cooling_after_failure [of "mr_selector r" "ac_endpoint active" now x t]
    by (simp add: note_failover_def cooling_def)
  have long: "secs 30 \<le> fst (record_failure (mr_selector r) (ac_endpoint active) now)"
    using backoff_bounds by (simp add: record_failure_cooldown)
  have tick: "mobile_tick r now = activate_choice ?r now"
    using assms(1-4) by (simp add: mobile_tick_def fail_over_def)
  obtain x where x: "choose_relay ?s (candidates r) now = Some x"
    using assms(5) choose_relay_None [of ?s "candidates r" now] by fastforce
  have "\<not> cooling ?s e now" using assms(6,7) cool by simp
  with choose_relay_healthy [OF x assms(5)] have "\<not> cooling ?s x now" by blast
  moreover have "cooling ?s (ac_endpoint active) now"
    using cool [of "ac_endpoint active" now] long by (simp add: secs_def)
  ultimately have ne: "x \<noteq> ac_endpoint active" by blast
  with \<open>\<not> cooling ?s x now\<close> have nc: "\<not> cooling (mr_selector r) x now" by (simp add: cool)
  have act: "mobile_tick r now = activate ?r x now"
    using x by (simp add: tick activate_choice_def candidates_def)
  have "x \<in> set (candidates r)" by (rule choose_relay_mem [OF x])
  moreover have "cooling (mr_selector (mobile_tick r now)) (ac_endpoint active) t" if "t < now + secs 30" for t
    using that long by (simp add: act cool)
  moreover have "failovers (mr_selector (mobile_tick r now)) = failovers (mr_selector r) + 1"
    by (simp add: act note_failover_def record_failure_def Let_def)
  ultimately show ?thesis
    using ne nc activate_control [of ?r x now] assms(2)
    by (simp add: act activate_spec ladder_new_def)
qed

theorem tick_fails_over_witness:
  "\<exists>active'. mr_active (mobile_tick (mobile_run [] False [Configure [] 9 demo_relays 0]) (secs 35)) = Some active'
     \<and> ac_endpoint active' \<noteq> ''a:1''"
proof -
  let ?r = "mobile_run [] False [Configure [] 9 demo_relays 0]"
  obtain active where a: "mr_active ?r = Some active" "ac_endpoint active = ''a:1''" "\<not> healthy active (secs 35)"
    by (simp add: mobile_eval)
  have "mr_relays ?r \<noteq> []" "mr_expires ?r \<noteq> 0" "''b:1'' \<in> set (candidates ?r)"
    "\<not> cooling (mr_selector ?r) ''b:1'' (secs 35)"
    by (simp_all add: mobile_eval)
  from tick_fails_over [OF this(1,2) a(1,3) this(3) _ this(4)] a(2) show ?thesis by auto
qed

subsection \<open>Which relay is active\<close>

definition advertised :: "mobile_relay \<Rightarrow> bool" where
  "advertised r \<longleftrightarrow>
     pred_option (\<lambda>active. ac_endpoint active \<in> set (candidates r)) (mr_active r)
     \<and> pred_option (\<lambda>fb. fb_endpoint fb \<in> set (candidates r)) (mr_failback r)"

lemma candidates_simps [simp]:
  "candidates (push_probe r l e) = candidates r" "candidates (queue_registration r) = candidates r"
  "candidates (r\<lparr>mr_active := a\<rparr>) = candidates r" "candidates (r\<lparr>mr_failback := f\<rparr>) = candidates r"
  "candidates (r\<lparr>mr_selector := s\<rparr>) = candidates r" "candidates (r\<lparr>mr_peers := ps\<rparr>) = candidates r"
  "candidates (r\<lparr>mr_control := cs\<rparr>) = candidates r" "candidates (activate r e now) = candidates r"
  by (simp_all add: candidates_def activate_def Let_def)

lemma activate_failback [simp]: "mr_failback (activate r e now) = mr_failback r"
  by (simp add: activate_def Let_def)

lemma activate_advertised:
  "advertised r \<Longrightarrow> e \<in> set (candidates r) \<Longrightarrow> advertised (activate r e now)"
  by (simp add: advertised_def activate_spec)

lemma activate_choice_advertised: "advertised r \<Longrightarrow> advertised (activate_choice r now)"
  by (auto simp: activate_choice_def activate_advertised choose_relay_mem split: option.splits)

lemma failback_target_mem: "failback_target s active cs now = Some e \<Longrightarrow> e \<in> set cs"
  by (auto simp: failback_target_def find_Some_iff dest: set_takeWhileD nth_mem)

lemma observed_advertised: "advertised r \<Longrightarrow> advertised (observed r l e now)"
proof -
  assume adv: "advertised r"
  have "advertised (observed_active r l e now)"
    using adv by (auto simp: advertised_def observed_active_def Let_def split: option.splits)
  moreover have "advertised (activate (r\<lparr>mr_failback := None,
      mr_selector := note_failback (record_healthy (mr_selector r) (fb_endpoint fb))\<rparr>) (fb_endpoint fb) now)"
    if "mr_failback r = Some fb" for fb
    using adv that by (intro activate_advertised) (simp_all add: advertised_def)
  ultimately show ?thesis by (auto simp: observed_def split: option.splits)
qed

lemma tick_advertised: "advertised r \<Longrightarrow> advertised (mobile_tick r now)"
proof -
  assume adv: "advertised r"
  have round: "advertised (tick_round r active now)" if "advertised r" "mr_active r = Some active" for r active
    using that by (simp add: tick_round_def Let_def advertised_def)
  have fb: "advertised (tick_failback r now)" if "advertised r" for r
    using that by (auto simp: tick_failback_def advertised_def dest: failback_target_mem split: option.splits)
  have fo: "advertised (fail_over r active now)" if "advertised r" for r active
    unfolding fail_over_def using that by (intro activate_choice_advertised) (simp add: advertised_def)
  have none: "advertised (r\<lparr>mr_active := None\<rparr>)"
    using adv by (simp add: advertised_def)
  show ?thesis
    using adv none activate_choice_advertised [OF adv]
    by (auto simp: mobile_tick_def Let_def intro!: fb fo round split: option.splits)
qed

lemma mobile_step_advertised:
  assumes "advertised r" and "\<And>token expires relays now. e = Configure token expires relays now \<Longrightarrow>
      set (candidates r) \<subseteq> ro_endpoint ` set relays"
  shows "advertised (mobile_step r e)"
proof (cases e)
  case (Configure token expires relays now)
  let ?r = "r\<lparr>mr_token := token, mr_expires := expires, mr_relays := relays\<rparr>"
  have sub: "set (candidates r) \<subseteq> set (candidates ?r)"
    using assms(2) [OF Configure] by (simp add: candidates_def)
  then have adv: "advertised ?r"
    using assms(1) by (auto simp: advertised_def pred_option_def)
  then have "advertised (activate_choice (?r\<lparr>mr_active := None\<rparr>) now)"
    by (intro activate_choice_advertised) (simp add: advertised_def)
  moreover have "advertised (?r\<lparr>mr_active := Some (active\<lparr>ac_wss := w, ac_ladder := l\<rparr>)\<rparr>)"
    if "mr_active r = Some active" for active w l
    using adv that by (simp add: advertised_def)
  ultimately show ?thesis
    using Configure by (auto simp: configure_def Let_def advertised_def split: option.splits)
next
  case (Inbound data l endpoint now)
  then show ?thesis
    using assms(1) by (auto simp: mobile_inbound_def observed_advertised split: option.splits)
next
  case (Tick now)
  then show ?thesis using assms(1) by (simp add: tick_advertised)
qed (use assms(1) in \<open>auto simp: advertised_def set_peer_def begin_peer_refresh_def end_peer_refresh_def
    mobile_outbound_def mobile_direct_received_def poll_def case_prod_beta Let_def
    split: option.splits list.splits\<close>)

text \<open>
  While the coordinator only ever adds relays to the list it advertises, the active relay and
  the one being probed for fail-back are always advertised ones.
\<close>

theorem active_relay_advertised:
  assumes "\<And>before after token expires relays now.
      es = before @ Configure token expires relays now # after \<Longrightarrow>
      set (candidates (mobile_run self_id allow_wss before)) \<subseteq> ro_endpoint ` set relays"
  shows "case mr_active (mobile_run self_id allow_wss es) of
      None \<Rightarrow> True
    | Some active \<Rightarrow> ac_endpoint active \<in> set (candidates (mobile_run self_id allow_wss es))"
proof -
  have "advertised (mobile_run self_id allow_wss es)"
    using assms
  proof (induction es rule: rev_induct)
    case Nil
    then show ?case by (simp add: mobile_run_def mobile_new_def advertised_def)
  next
    case (snoc e es)
    have "advertised (mobile_run self_id allow_wss es)"
    proof (rule snoc.IH)
      fix before after token expires relays now
      assume "es = before @ Configure token expires relays now # after"
      then show "set (candidates (mobile_run self_id allow_wss before)) \<subseteq> ro_endpoint ` set relays"
        using snoc.prems [of before token expires relays now "after @ [e]"] by simp
    qed
    then have "advertised (mobile_step (mobile_run self_id allow_wss es) e)"
      using snoc.prems [of es _ _ _ _ "[]"] by (rule mobile_step_advertised) simp
    then show ?case by (simp add: mobile_run_def)
  qed
  then show ?thesis by (auto simp: advertised_def split: option.splits)
qed

theorem active_relay_advertised_witness:
  "case mr_active (mobile_run [] False [Configure [] 9 demo_relays 0, Tick 1]) of
     None \<Rightarrow> True
   | Some active \<Rightarrow> ac_endpoint active \<in> set (candidates (mobile_run [] False [Configure [] 9 demo_relays 0, Tick 1]))"
proof (rule active_relay_advertised)
  fix before after token expires relays now
  assume "[Configure [] 9 demo_relays 0, Tick 1] = before @ Configure token expires relays now # after"
  then have "before = []" by (cases before) (auto simp: Cons_eq_append_conv)
  then show "set (candidates (mobile_run [] False before)) \<subseteq> ro_endpoint ` set relays"
    by (simp add: mobile_run_def mobile_new_def candidates_def)
qed


subsection \<open>Peer refresh\<close>

definition set_peers :: "mobile_relay \<Rightarrow> (public_key \<times> node_id \<times> bool) list \<Rightarrow> mobile_relay" where
  "set_peers r ps = foldl (\<lambda>r (key, nid, has_direct). set_peer r key nid has_direct) r ps"

fun entry_refreshed :: "node_id option \<Rightarrow> mobile_peer option \<Rightarrow> bool" where
  "entry_refreshed (Some nid) entry \<longleftrightarrow> (\<exists>peer. entry = Some peer \<and> mp_id peer = nid \<and> mp_active peer)"
| "entry_refreshed None entry \<longleftrightarrow> (\<forall>peer. entry = Some peer \<longrightarrow> \<not> mp_active peer)"

definition refreshed :: "(public_key \<times> node_id) list \<Rightarrow> (public_key, mobile_peer) hmap \<Rightarrow> bool" where
  "refreshed so_far peers \<longleftrightarrow> (\<forall>key. entry_refreshed (map_of so_far key) (hm_get peers key))"

lemma set_peer_refreshed:
  assumes "hm_ok (mr_peers r)" and "refreshed so_far (mr_peers r)"
    and "insert key (dom (hm_get (mr_peers r))) \<subseteq> K" and "finite K" and "card K \<le> MAX_PEERS"
  shows "refreshed ((key, nid) # so_far) (mr_peers (set_peer r key nid d))
    \<and> hm_ok (mr_peers (set_peer r key nid d)) \<and> dom (hm_get (mr_peers (set_peer r key nid d))) \<subseteq> K"
proof -
  have "length (mr_peers r) < MAX_PEERS" if "hm_get (mr_peers r) key = None"
  proof -
    have "dom (hm_get (mr_peers r)) \<subset> K" using that assms(3) by auto
    then have "card (dom (hm_get (mr_peers r))) < card K"
      using assms(4) by (simp add: psubset_card_mono)
    then show ?thesis
      using assms(5) by (simp add: alist.entries_card [OF assms(1)])
  qed
  then obtain peer where "mr_peers (set_peer r key nid d) = hm_insert key peer (mr_peers r)"
      "mp_id peer = nid" "mp_active peer"
    by (cases "hm_get (mr_peers r) key") (simp_all add: set_peer_def)
  moreover from this have "refreshed ((key, nid) # so_far) (hm_insert key peer (mr_peers r))"
    using assms(2) by (simp add: refreshed_def alist.get_ins)
  ultimately show ?thesis
    using assms(1,3) by (auto simp: alist.get_ins alist.ok_ins split: if_splits)
qed

lemma set_peers_refreshed:
  assumes "hm_ok (mr_peers r)" and "refreshed so_far (mr_peers r)"
    and "dom (hm_get (mr_peers r)) \<union> fst ` set ps \<subseteq> K" and "finite K" and "card K \<le> MAX_PEERS"
  shows "refreshed (rev (map (\<lambda>(key, nid, d). (key, nid)) ps) @ so_far) (mr_peers (set_peers r ps))
    \<and> hm_ok (mr_peers (set_peers r ps))"
  using assms
proof (induction ps arbitrary: r so_far)
  case Nil
  then show ?case by (simp add: set_peers_def)
next
  case (Cons p ps)
  obtain key nid d where p: "p = (key, nid, d)" by (cases p)
  from Cons.prems p have "refreshed ((key, nid) # so_far) (mr_peers (set_peer r key nid d))
      \<and> hm_ok (mr_peers (set_peer r key nid d)) \<and> dom (hm_get (mr_peers (set_peer r key nid d))) \<subseteq> K"
    by (intro set_peer_refreshed) auto
  with Cons.IH [of "set_peer r key nid d" "(key, nid) # so_far"] Cons.prems p show ?case
    by (simp add: set_peers_def)
qed

text \<open>
  A peer refresh installs exactly the coordinator's list. In any reachable state, marking the
  peers stale, setting each peer of a list and closing the refresh leaves precisely the listed keys,
  each with the node id listed last for it, provided the old and new keys together fit the table.
\<close>

theorem peer_refresh_exact:
  assumes "card (fst ` set (mr_peers (mobile_run self_id allow_wss es)) \<union> fst ` set ps) \<le> 4096"
  shows "peer_id (end_peer_refresh (set_peers (begin_peer_refresh (mobile_run self_id allow_wss es)) ps)) key =
    map_of (rev (map (\<lambda>(key, nid, d). (key, nid)) ps)) key"
proof -
  let ?r = "begin_peer_refresh (mobile_run self_id allow_wss es)"
  let ?K = "fst ` set (mr_peers (mobile_run self_id allow_wss es)) \<union> fst ` set ps"
  let ?m = "map_of (rev (map (\<lambda>(key, nid, d). (key, nid)) ps))"
  have ok: "hm_ok (mr_peers ?r)"
    using begin_peer_refresh_ok [OF mobile_run_ok] by (simp add: mobile_ok_def peers_ok_def)
  have stale: "refreshed [] (mr_peers ?r)"
    by (auto simp: refreshed_def begin_peer_refresh_def)
  have "dom (hm_get (mr_peers ?r)) = fst ` set (mr_peers (mobile_run self_id allow_wss es))"
    by (auto simp: begin_peer_refresh_def dom_def map_of_eq_Some_iff dom_map_of_conv_image_fst [symmetric])
  with set_peers_refreshed [OF ok stale, of ps ?K] assms
  have new: "refreshed (rev (map (\<lambda>(key, nid, d). (key, nid)) ps)) (mr_peers (set_peers ?r ps))"
      "hm_ok (mr_peers (set_peers ?r ps))"
    by (simp_all add: MAX_PEERS_def)
  have g: "hm_get (mr_peers (end_peer_refresh (set_peers ?r ps))) key =
      Option.bind (hm_get (mr_peers (set_peers ?r ps)) key) (\<lambda>peer. if mp_active peer then Some peer else None)"
    using alist.get_keep [OF new(2)] by (simp add: end_peer_refresh_def)
  show ?thesis
  proof (cases "?m key")
    case None
    then have "hm_get (mr_peers (set_peers ?r ps)) key = Some peer \<Longrightarrow> \<not> mp_active peer" for peer
      using new(1) [unfolded refreshed_def, THEN spec, of key] by simp
    then show ?thesis using None g by (cases "hm_get (mr_peers (set_peers ?r ps)) key") (auto simp: peer_id_def)
  next
    case (Some nid)
    then show ?thesis using new(1) [unfolded refreshed_def, THEN spec, of key] g by (auto simp: peer_id_def)
  qed
qed

theorem peer_refresh_exact_witness:
  "peer_id (end_peer_refresh (set_peers (begin_peer_refresh (mobile_run [] False [SetPeer [1] [5] True])) [([2], [6], False)])) [1] = None"
  using peer_refresh_exact [of "[]" False "[SetPeer [1] [5] True]" "[([2], [6], False)]" "[1]"]
  by (simp add: mobile_eval set_peer_def MAX_PEERS_def hm_insert_def)

end
