(* ===== verification/Ip_Text.thy ===== *)
theory Ip_Text
  imports Net_Addr
begin

section \<open>Addresses as text\<close>

text \<open>
  \<open>str::parse::<IpAddr>\<close> and \<open>IpAddr::to_string\<close> of the standard library, which the
  packet filter, the flow events and the coordinator's address pools call. The parser reads a
  prefix of its input and returns the rest, as the library's does; an address is accepted only when
  nothing is left over.
\<close>

subsection \<open>Parsing\<close>

fun read_digits :: "nat \<Rightarrow> nat \<Rightarrow> nat \<Rightarrow> nat \<Rightarrow> nat \<Rightarrow> string \<Rightarrow> (nat \<times> nat \<times> string) option" where
  "read_digits radix max_digits bound result digit_count [] = Some (result, digit_count, [])"
| "read_digits radix max_digits bound result digit_count (c # cs) =
     (case char_to_digit radix c of
        None \<Rightarrow> Some (result, digit_count, c # cs)
      | Some d \<Rightarrow>
          if result * radix \<ge> bound then None
          else if result * radix + d \<ge> bound then None
          else if digit_count + 1 > max_digits then None
          else read_digits radix max_digits bound (result * radix + d) (digit_count + 1) cs)"

definition read_number :: "nat \<Rightarrow> nat \<Rightarrow> bool \<Rightarrow> nat \<Rightarrow> string \<Rightarrow> (nat \<times> string) option" where
  "read_number radix max_digits allow_zero_prefix bound s =
     (let has_leading_zero = (s \<noteq> [] \<and> hd s = CHR ''0'')
      in case read_digits radix max_digits bound 0 0 s of
           None \<Rightarrow> None
         | Some (result, digit_count, rest) \<Rightarrow>
             if digit_count = 0 then None
             else if \<not> allow_zero_prefix \<and> has_leading_zero \<and> digit_count > 1 then None
             else Some (result, rest))"

definition read_separator ::
  "char \<Rightarrow> nat \<Rightarrow> (string \<Rightarrow> ('a \<times> string) option) \<Rightarrow> string \<Rightarrow> ('a \<times> string) option" where
  "read_separator sep index inner s =
     (if index > 0 then (case s of c # cs \<Rightarrow> if c = sep then inner cs else None | [] \<Rightarrow> None)
      else inner s)"

fun read_v4_groups :: "nat \<Rightarrow> nat \<Rightarrow> string \<Rightarrow> (nat list \<times> string) option" where
  "read_v4_groups 0 i s = Some ([], s)"
| "read_v4_groups (Suc n) i s =
     (case read_separator (CHR ''.'') i (read_number 10 3 False 256) s of
        None \<Rightarrow> None
      | Some (g, rest) \<Rightarrow>
          (case read_v4_groups n (Suc i) rest of
             None \<Rightarrow> None
           | Some (gs, rest') \<Rightarrow> Some (g # gs, rest')))"

definition read_ipv4_addr :: "string \<Rightarrow> (u32 \<times> string) option" where
  "read_ipv4_addr s =
     map_option (\<lambda>(gs, rest). (v4_of_octets (map word_of_nat gs), rest)) (read_v4_groups 4 0 s)"

text \<open>
  Up to \<open>left\<close> groups of an IPv6 address from group \<open>i\<close> on: the groups read, whether
  the last two came from a trailing IPv4 address, and the rest. Running out of groups is not an
  error here.
\<close>

fun read_v6_groups :: "nat \<Rightarrow> nat \<Rightarrow> string \<Rightarrow> nat list \<times> bool \<times> string" where
  "read_v6_groups 0 i s = ([], False, s)"
| "read_v6_groups (Suc left) i s =
     (case (if left > 0 then read_separator (CHR '':'') i read_ipv4_addr s else None) of
        Some (a, rest) \<Rightarrow>
          ([unat a div 65536, unat a mod 65536], True, rest)
      | None \<Rightarrow>
          (case read_separator (CHR '':'') i (read_number 16 4 True 65536) s of
             None \<Rightarrow> ([], False, s)
           | Some (g, rest) \<Rightarrow>
               (case read_v6_groups left (Suc i) rest of
                  (gs, v4, rest') \<Rightarrow> (g # gs, v4, rest'))))"

definition v6_of_groups :: "nat list \<Rightarrow> u128" where
  "v6_of_groups gs = word_of_nat (foldl (\<lambda>a g. a * 65536 + g) 0 gs)"

definition read_ipv6_addr :: "string \<Rightarrow> (u128 \<times> string) option" where
  "read_ipv6_addr s =
     (case read_v6_groups 8 0 s of
        (head, head_ipv4, rest) \<Rightarrow>
          if length head = 8 then Some (v6_of_groups head, rest)
          else if head_ipv4 then None
          else (case rest of
                  c1 # c2 # rest \<Rightarrow>
                    if c1 = CHR '':'' \<and> c2 = CHR '':''
                    then (case read_v6_groups (8 - (length head + 1)) 0 rest of
                            (tail, _, rest) \<Rightarrow>
                              Some (v6_of_groups (head @ replicate (8 - length head - length tail) 0 @ tail), rest))
                    else None
                | _ \<Rightarrow> None))"

definition parse_ip :: "string \<Rightarrow> ip_addr option" where
  "parse_ip s =
     (case (case read_ipv4_addr s of
              Some (a, rest) \<Rightarrow> Some (V4 a, rest)
            | None \<Rightarrow> map_option (\<lambda>(a, rest). (V6 a, rest)) (read_ipv6_addr s)) of
        Some (a, []) \<Rightarrow> Some a
      | _ \<Rightarrow> None)"

subsection \<open>Printing\<close>

definition digit_char :: "nat \<Rightarrow> char" where
  "digit_char d = char_of (if d < 10 then 48 + d else 87 + d)"

function show_nat :: "nat \<Rightarrow> nat \<Rightarrow> string" where
  "show_nat radix n =
     (if radix < 2 \<or> n < radix then [digit_char n]
      else show_nat radix (n div radix) @ [digit_char (n mod radix)])"
  by pat_completeness auto
termination by (relation "measure snd") auto

declare show_nat.simps [simp del]

definition join :: "string \<Rightarrow> string list \<Rightarrow> string" where
  "join sep xs = (case xs of [] \<Rightarrow> [] | x # xs \<Rightarrow> x @ concat (map (\<lambda>y. sep @ y) xs))"

definition show_ipv4 :: "u32 \<Rightarrow> string" where
  "show_ipv4 a = join ''.'' (map (\<lambda>b. show_nat 10 (unat b)) (v4_octets a))"

fun be_groups :: "nat \<Rightarrow> nat \<Rightarrow> nat list" where
  "be_groups 0 n = []"
| "be_groups (Suc k) n = be_groups k (n div 65536) @ [n mod 65536]"

definition v6_groups :: "u128 \<Rightarrow> nat list" where
  "v6_groups a = be_groups 8 (unat a)"

text \<open>The first longest run of zero groups, as start and length.\<close>

fun zero_span :: "nat \<Rightarrow> nat \<times> nat \<Rightarrow> nat \<times> nat \<Rightarrow> nat list \<Rightarrow> nat \<times> nat" where
  "zero_span i longest current [] = longest"
| "zero_span i longest current (g # gs) =
     (if g = 0
      then let current = (if snd current = 0 then (i, 1) else (fst current, snd current + 1));
               longest = (if snd current > snd longest then current else longest)
           in zero_span (Suc i) longest current gs
      else zero_span (Suc i) longest (0, 0) gs)"

definition show_ipv6 :: "u128 \<Rightarrow> string" where
  "show_ipv6 a =
     (case to_ipv4_mapped a of
        Some v4 \<Rightarrow> ''::ffff:'' @ show_ipv4 v4
      | None \<Rightarrow>
          (let gs = v6_groups a;
               span = zero_span 0 (0, 0) (0, 0) gs;
               show_groups = (\<lambda>gs. join '':'' (map (show_nat 16) gs))
           in if snd span > 1
              then show_groups (take (fst span) gs) @ ''::'' @ show_groups (drop (fst span + snd span) gs)
              else show_groups gs))"

definition show_ip :: "ip_addr \<Rightarrow> string" where
  "show_ip ip = (case ip of V4 a \<Rightarrow> show_ipv4 a | V6 a \<Rightarrow> show_ipv6 a)"

subsection \<open>Reading back a printed number\<close>

lemma char_to_digit_digit_char:
  "d < radix \<Longrightarrow> radix \<le> 16 \<Longrightarrow> char_to_digit radix (digit_char d) = Some d"
  by (auto simp: char_to_digit_def digit_char_def ascii_code_def Let_def)

lemma char_to_digit_separators [simp]:
  "char_to_digit radix (CHR '':'') = None" "char_to_digit radix (CHR ''.'') = None"
  "char_to_digit radix (CHR ''/'') = None"
  by (simp_all add: char_to_digit_def ascii_code_def Let_def)

lemma show_nat_nonempty [simp]: "show_nat radix n \<noteq> []"
  by (subst show_nat.simps) simp

lemma read_digits_show:
  assumes "2 \<le> radix" and "radix \<le> 16"
  shows "n < bound \<Longrightarrow> c + length (show_nat radix n) \<le> max_digits \<Longrightarrow>
    read_digits radix max_digits bound 0 c (show_nat radix n @ rest) =
    read_digits radix max_digits bound n (c + length (show_nat radix n)) rest"
  using assms
proof (induction radix n arbitrary: rest rule: show_nat.induct)
  case (1 radix n)
  show ?case
  proof (cases "n < radix")
    case True
    then show ?thesis
      using 1 by (simp add: show_nat.simps [of radix n] char_to_digit_digit_char)
  next
    case False
    let ?m = "n div radix"
    have "?m * radix + n mod radix = n" by simp
    then have "?m * radix \<le> n" by linarith
    moreover have "?m \<le> n" by simp
    ultimately have b: "?m < bound" "?m * radix < bound"
      using 1(2) by linarith+
    have s: "show_nat radix n = show_nat radix ?m @ [digit_char (n mod radix)]"
      using False 1(4) by (subst show_nat.simps) simp
    have IH: "read_digits radix max_digits bound 0 c (show_nat radix ?m @ digit_char (n mod radix) # rest) =
        read_digits radix max_digits bound ?m (c + length (show_nat radix ?m)) (digit_char (n mod radix) # rest)"
      using 1(1) [of "digit_char (n mod radix) # rest"] False 1(3,4,5) b(1) s by simp
    have "n mod radix < radix" using 1(4) by simp
    then show ?thesis
      using IH b(2) 1(2,3,5) s by (simp add: char_to_digit_digit_char)
  qed
qed

lemma show_nat_length: "2 \<le> radix \<Longrightarrow> n < radix ^ Suc k \<Longrightarrow> length (show_nat radix n) \<le> Suc k"
proof (induction k arbitrary: n)
  case 0
  then show ?case by (simp add: show_nat.simps)
next
  case (Suc k)
  show ?case
  proof (cases "n < radix")
    case True
    then show ?thesis by (simp add: show_nat.simps)
  next
    case False
    have "n div radix < radix ^ Suc k"
      using Suc.prems by (simp add: less_mult_imp_div_less mult.commute)
    with Suc.IH [of "n div radix"] Suc.prems(1) False show ?thesis
      by (subst show_nat.simps) simp
  qed
qed

lemma digit_char_0: "digit_char 0 = CHR ''0''"
  by code_simp

lemma digit_char_zero: "d < 16 \<Longrightarrow> digit_char d = CHR ''0'' \<longleftrightarrow> d = 0"
proof
  assume "d < 16" "digit_char d = CHR ''0''"
  then have "char_to_digit 16 (CHR ''0'') = Some d"
    using char_to_digit_digit_char [of d 16] by simp
  then show "d = 0" by (simp add: char_to_digit_def ascii_code_def Let_def)
qed (simp add: digit_char_0)

lemma show_nat_hd: "2 \<le> radix \<Longrightarrow> radix \<le> 16 \<Longrightarrow> hd (show_nat radix n) = CHR ''0'' \<longleftrightarrow> n = 0"
proof (induction radix n rule: show_nat.induct)
  case (1 radix n)
  show ?case
  proof (cases "n < radix")
    case True
    then show ?thesis using 1(3) by (simp add: show_nat.simps [of radix n] digit_char_zero)
  next
    case False
    then have "n div radix \<noteq> 0" using 1(2) by (simp add: div_eq_0_iff)
    with 1 False show ?thesis
      by (subst show_nat.simps) auto
  qed
qed

text \<open>What may follow a number: nothing, or a character that is no digit.\<close>

definition stops :: "nat \<Rightarrow> string \<Rightarrow> bool" where
  "stops radix rest \<longleftrightarrow> rest = [] \<or> char_to_digit radix (hd rest) = None"

lemma stops_simps [simp]:
  "stops radix []" "stops radix (CHR '':'' # r)" "stops radix (CHR ''.'' # r)" "stops radix (CHR ''/'' # r)"
  by (simp_all add: stops_def)

lemma read_digits_stop: "stops radix rest \<Longrightarrow> read_digits radix m b r c rest = Some (r, c, rest)"
  by (cases rest) (simp_all add: stops_def)

lemma read_number_show:
  assumes "2 \<le> radix" "radix \<le> 16" and "n < bound" and "length (show_nat radix n) \<le> m"
    and "stops radix rest"
  shows "read_number radix m z bound (show_nat radix n @ rest) = Some (n, rest)"
proof -
  have "read_digits radix m bound 0 0 (show_nat radix n @ rest) = Some (n, length (show_nat radix n), rest)"
    using assms read_digits_show [of radix n bound 0 m rest] by (simp add: read_digits_stop)
  moreover have "hd (show_nat radix n @ rest) = CHR ''0'' \<longleftrightarrow> n = 0"
    using assms(1,2) by (simp add: show_nat_hd)
  moreover have "n = 0 \<Longrightarrow> length (show_nat radix n) = 1"
    using assms(1) by (simp add: show_nat.simps)
  ultimately show ?thesis by (auto simp: read_number_def)
qed

lemma read_octet_show:
  "n < 256 \<Longrightarrow> stops 10 rest \<Longrightarrow> read_number 10 3 False 256 (show_nat 10 n @ rest) = Some (n, rest)"
  using show_nat_length [of 10 n 2] by (intro read_number_show) auto

lemma read_group_show:
  "n < 65536 \<Longrightarrow> stops 16 rest \<Longrightarrow> read_number 16 4 True 65536 (show_nat 16 n @ rest) = Some (n, rest)"
  using show_nat_length [of 16 n 3] by (intro read_number_show) auto

subsection \<open>IPv4\<close>

lemma length_4E:
  assumes "length xs = 4"
  obtains a b c d where "xs = [a, b, c, d]"
  using assms by (auto simp: length_Suc_conv eval_nat_numeral)

lemma read_v4_groups_4: "read_v4_groups 4 i s = read_v4_groups (Suc (Suc (Suc (Suc 0)))) i s"
  by (simp add: eval_nat_numeral)

lemma read_ipv4_show:
  assumes "stops 10 rest"
  shows "read_ipv4_addr (show_ipv4 a @ rest) = Some (a, rest)"
proof -
  obtain b0 b1 b2 b3 where b: "v4_octets a = [b0, b1, b2, b3]"
    using length_4E [OF octets_length(1)] by blast
  have "show_ipv4 a @ rest = show_nat 10 (unat b0) @ CHR ''.'' # show_nat 10 (unat b1) @ CHR ''.'' #
      show_nat 10 (unat b2) @ CHR ''.'' # show_nat 10 (unat b3) @ rest"
    by (simp add: show_ipv4_def b join_def)
  then have "read_v4_groups 4 0 (show_ipv4 a @ rest) = Some ([unat b0, unat b1, unat b2, unat b3], rest)"
    using assms byte_less unfolding read_v4_groups_4 by (simp add: read_separator_def read_octet_show)
  then show ?thesis
    by (simp add: read_ipv4_addr_def b [symmetric])
qed

subsection \<open>IPv6\<close>

lemma be_groups_length [simp]: "length (be_groups k n) = k"
  by (induction k arbitrary: n) auto

lemma be_groups_less: "g \<in> set (be_groups k n) \<Longrightarrow> g < 65536"
  by (induction k arbitrary: n) auto

lemma be_groups_value: "foldl (\<lambda>a g. a * 65536 + g) 0 (be_groups k n) = n mod 65536 ^ k"
proof (induction k arbitrary: n)
  case (Suc k)
  have "n mod (65536 * 65536 ^ k) = 65536 * (n div 65536 mod 65536 ^ k) + n mod 65536"
    by (rule mod_mult2_eq)
  with Suc show ?case by simp
qed simp

lemma v6_of_groups_inverse: "v6_of_groups (v6_groups a) = a"
  using be_groups_value [of 8 "unat a"] unsigned_less [of a, where ?'a = nat]
  by (simp add: v6_of_groups_def v6_groups_def)

definition zero_run :: "nat list \<Rightarrow> nat \<times> nat \<Rightarrow> bool" where
  "zero_run gs span \<longleftrightarrow> fst span + snd span \<le> length gs \<and> (\<forall>j < snd span. gs ! (fst span + j) = 0)"

lemma zero_run_append: "zero_run gs span \<Longrightarrow> zero_run (gs @ hs) span"
  by (auto simp: zero_run_def nth_append)

lemma zero_span_run:
  assumes "zero_run pre longest" and "zero_run pre current"
    and "snd current = 0 \<or> fst current + snd current = length pre"
  shows "zero_run (pre @ gs) (zero_span (length pre) longest current gs)"
  using assms
proof (induction gs arbitrary: pre longest current)
  case (Cons g gs)
  have pre: "pre @ g # gs = (pre @ [g]) @ gs" by simp
  show ?case
  proof (cases "g = 0")
    case True
    let ?c = "if snd current = 0 then (length pre, 1) else (fst current, snd current + 1)"
    have c: "zero_run (pre @ [g]) ?c" "fst ?c + snd ?c = length (pre @ [g])"
      using Cons.prems True by (auto simp: zero_run_def nth_append less_Suc_eq)
    then show ?thesis
      using Cons.IH [of "pre @ [g]" "if snd ?c > snd longest then ?c else longest" ?c] True
        zero_run_append [OF Cons.prems(1), of "[g]"]
      by (simp add: Let_def)
  next
    case False
    have "zero_run (pre @ [g]) (0, 0)" by (simp add: zero_run_def)
    with Cons.IH [of "pre @ [g]" longest "(0, 0)"] False zero_run_append [OF Cons.prems(1), of "[g]"]
    show ?thesis by simp
  qed
qed simp

lemma zero_span_split:
  assumes "zero_span 0 (0, 0) (0, 0) gs = (st, n)"
  shows "gs = take st gs @ replicate n 0 @ drop (st + n) gs \<and> st + n \<le> length gs"
proof -
  have "zero_run gs (st, n)"
    using zero_span_run [of "[]" "(0, 0)" "(0, 0)" gs] assms by (simp add: zero_run_def)
  then have le: "st + n \<le> length gs" and z: "\<forall>j<n. gs ! (st + j) = 0"
    by (simp_all add: zero_run_def)
  have "take n (drop st gs) = replicate n 0"
    using le z by (intro nth_equalityI) auto
  moreover have "gs = take st gs @ take n (drop st gs) @ drop (st + n) gs"
    by (metis append_take_drop_id drop_drop add.commute)
  ultimately show ?thesis using le by simp
qed

lemma read_digits_suffix:
  "read_digits radix m b r c s = Some (r', c', rest) \<Longrightarrow>
    \<exists>ds. s = ds @ rest \<and> (\<forall>x\<in>set ds. char_to_digit radix x \<noteq> None)"
proof (induction s arbitrary: r c)
  case (Cons x s)
  show ?case
  proof (cases "char_to_digit radix x")
    case None
    with Cons.prems show ?thesis by (intro exI [of _ "[]"]) simp
  next
    case (Some d)
    then have "read_digits radix m b (r * radix + d) (c + 1) s = Some (r', c', rest)"
      using Cons.prems by (simp split: if_splits)
    from Cons.IH [OF this] obtain ds where "s = ds @ rest" "\<forall>x\<in>set ds. char_to_digit radix x \<noteq> None"
      by blast
    with Some show ?thesis by (intro exI [of _ "x # ds"]) simp
  qed
qed simp

lemma show_nat_digits: "2 \<le> radix \<Longrightarrow> radix \<le> 16 \<Longrightarrow> x \<in> set (show_nat radix n) \<Longrightarrow> char_to_digit radix x \<noteq> None"
proof (induction radix n rule: show_nat.induct)
  case (1 radix n)
  have d: "char_to_digit radix (digit_char (n mod radix)) \<noteq> None"
    using 1(2,3) by (simp add: char_to_digit_digit_char)
  show ?case
  proof (cases "n < radix")
    case True
    then show ?thesis using 1(4) d by (subst (asm) show_nat.simps) simp
  next
    case False
    then show ?thesis using 1 d by (subst (asm) (2) show_nat.simps) auto
  qed
qed

lemma group_not_v4:
  assumes "rest = [] \<or> hd rest = CHR '':''"
  shows "read_ipv4_addr (show_nat 16 g @ rest) = None"
proof (rule ccontr)
  assume "read_ipv4_addr (show_nat 16 g @ rest) \<noteq> None"
  then obtain n r where n: "read_number 10 3 False 256 (show_nat 16 g @ rest) = Some (n, r)"
    and r: "r \<noteq> []" "hd r = CHR ''.''"
    by (auto simp: read_ipv4_addr_def eval_nat_numeral(3) [of "num.Bit1 num.One"] read_separator_def
        numeral_eq_Suc split: option.splits list.splits if_splits)
  then obtain ds where s: "show_nat 16 g @ rest = ds @ r" and ds: "\<forall>x\<in>set ds. char_to_digit 10 x \<noteq> None"
    by (auto simp: read_number_def Let_def split: option.splits if_splits dest!: read_digits_suffix)
  have dot: "CHR ''.'' \<notin> set (show_nat 16 g)"
    using show_nat_digits [of 16 "CHR ''.''" g] by auto
  from s consider us where "show_nat 16 g = ds @ us" "us @ rest = r"
    | us where "show_nat 16 g @ us = ds" "rest = us @ r"
    by (auto simp: append_eq_append_conv2)
  then show False
  proof cases
    case 1
    then show ?thesis using r dot assms by (cases us) auto
  next
    case 2
    then show ?thesis using r ds assms by (cases us) auto
  qed
qed

definition ends_group :: "string \<Rightarrow> bool" where
  "ends_group rest \<longleftrightarrow> rest = [] \<or> hd rest = CHR '':''"

lemma ends_group_simps [simp]: "ends_group []" "ends_group (CHR '':'' # r)"
  by (simp_all add: ends_group_def)

lemma ends_group_stops: "ends_group rest \<Longrightarrow> stops 16 rest"
  by (auto simp: ends_group_def stops_def)

lemma colons_not_v4: "read_ipv4_addr (CHR '':'' # s) = None"
  unfolding read_ipv4_addr_def read_v4_groups_4 by (simp add: read_separator_def read_number_def)

lemma read_nothing:
  "read_v6_groups k i [] = ([], False, [])"
  "read_v6_groups k i (CHR '':'' # CHR '':'' # r) = ([], False, CHR '':'' # CHR '':'' # r)"
proof -
  have "read_ipv4_addr [] = None" "read_ipv4_addr (CHR '':'' # s) = None"
    "read_number 16 4 True 65536 [] = None" "read_number 16 4 True 65536 (CHR '':'' # s) = None" for s
    unfolding read_ipv4_addr_def read_v4_groups_4 by (simp_all add: read_separator_def read_number_def)
  then show "read_v6_groups k i [] = ([], False, [])"
    "read_v6_groups k i (CHR '':'' # CHR '':'' # r) = ([], False, CHR '':'' # CHR '':'' # r)"
    by (cases k; simp add: read_separator_def)+
qed

lemma read_group_step:
  assumes "g < 65536" and "ends_group rest"
  shows "read_v6_groups (Suc k) i ((if 0 < i then '':'' else []) @ show_nat 16 g @ rest) =
    (case read_v6_groups k (Suc i) rest of (gs, v4, r) \<Rightarrow> (g # gs, v4, r))"
proof -
  have "read_ipv4_addr (show_nat 16 g @ rest) = None"
    using assms(2) by (intro group_not_v4) (simp add: ends_group_def)
  moreover have "read_number 16 4 True 65536 (show_nat 16 g @ rest) = Some (g, rest)"
    using assms by (intro read_group_show ends_group_stops)
  ultimately show ?thesis by (simp add: read_separator_def)
qed

lemma read_groups_later:
  assumes "0 < i" and "\<forall>g\<in>set gs. g < 65536" and "ends_group rest"
  shows "read_v6_groups (length gs + k) i (concat (map (\<lambda>g. CHR '':'' # show_nat 16 g) gs) @ rest) =
    (case read_v6_groups k (i + length gs) rest of (hs, v4, r) \<Rightarrow> (gs @ hs, v4, r))"
  using assms
proof (induction gs arbitrary: i)
  case (Cons g gs)
  let ?rest = "concat (map (\<lambda>g. CHR '':'' # show_nat 16 g) gs) @ rest"
  have e: "ends_group ?rest" using Cons.prems(3) by (cases gs) simp_all
  moreover have "read_v6_groups (length gs + k) (Suc i) ?rest =
      (case read_v6_groups k (i + length (g # gs)) rest of (hs, v4, r) \<Rightarrow> (gs @ hs, v4, r))"
    using Cons.IH [of "Suc i"] Cons.prems by simp
  ultimately show ?case
    using Cons.prems(1,2) read_group_step [of g ?rest "length gs + k" i]
    by (simp add: case_prod_beta del: read_v6_groups.simps)
qed (simp add: case_prod_beta)

lemma read_groups_first:
  assumes "\<forall>g\<in>set gs. g < 65536" and "ends_group rest" and "gs \<noteq> [] \<or> rest = [] \<or> (\<exists>r. rest = ''::'' @ r)"
    and "k = 0 \<or> rest = [] \<or> (\<exists>r. rest = ''::'' @ r)"
  shows "read_v6_groups (length gs + k) 0 (join '':'' (map (show_nat 16) gs) @ rest) = (gs, False, rest)"
proof (cases gs)
  case Nil
  then show ?thesis using assms(3) read_nothing by (auto simp: join_def)
next
  case (Cons g hs)
  let ?rest = "concat (map (\<lambda>g. CHR '':'' # show_nat 16 g) hs) @ rest"
  have e: "ends_group ?rest" using assms(2) by (cases hs) simp_all
  moreover have "read_v6_groups (length hs + k) (Suc 0) ?rest =
      (case read_v6_groups k (Suc 0 + length hs) rest of (hs', v4, r) \<Rightarrow> (hs @ hs', v4, r))"
    using assms(1,2) Cons by (intro read_groups_later) auto
  moreover have "read_v6_groups k (Suc 0 + length hs) rest = ([], False, rest)"
    using assms(4) read_nothing by auto
  ultimately show ?thesis
    using Cons assms(1) read_group_step [of g ?rest "length hs + k" 0]
    by (simp add: join_def comp_def del: read_v6_groups.simps)
qed

lemma read_ipv6_plain:
  assumes "length gs = 8" and "\<forall>g\<in>set gs. g < 65536"
  shows "read_ipv6_addr (join '':'' (map (show_nat 16) gs)) = Some (v6_of_groups gs, [])"
  using read_groups_first [of gs "[]" 0] assms by (simp add: read_ipv6_addr_def)

lemma read_ipv6_compressed:
  assumes "length h + n + length t = 8" and "1 < n" and "\<forall>g\<in>set (h @ t). g < 65536"
  shows "read_ipv6_addr (join '':'' (map (show_nat 16) h) @ ''::'' @ join '':'' (map (show_nat 16) t)) =
    Some (v6_of_groups (h @ replicate n 0 @ t), [])"
proof -
  have "read_v6_groups (length h + (8 - length h)) 0
      (join '':'' (map (show_nat 16) h) @ ''::'' @ join '':'' (map (show_nat 16) t)) =
      (h, False, ''::'' @ join '':'' (map (show_nat 16) t))"
    using assms(3) by (intro read_groups_first) auto
  moreover have "read_v6_groups (length t + (7 - length h - length t)) 0 (join '':'' (map (show_nat 16) t) @ []) = (t, False, [])"
    using assms(3) by (intro read_groups_first) auto
  moreover have "length h + (8 - length h) = 8" "length t + (7 - length h - length t) = 8 - (length h + 1)"
    "8 - length h - length t = n" "length h \<noteq> 8"
    using assms(1,2) by auto
  ultimately show ?thesis by (simp add: read_ipv6_addr_def)
qed

lemma show_groups_not_v4:
  "join '':'' (map (show_nat 16) gs) = [] \<or>
   read_ipv4_addr (join '':'' (map (show_nat 16) gs) @ rest) = None" if "ends_group rest"
proof (cases gs)
  case (Cons g hs)
  have "ends_group (concat (map (\<lambda>g. CHR '':'' # show_nat 16 g) hs) @ rest)"
    using that by (cases hs) simp_all
  then show ?thesis
    using group_not_v4 [of "concat (map (\<lambda>g. CHR '':'' # show_nat 16 g) hs) @ rest" g] Cons
    by (simp add: join_def comp_def ends_group_def)
qed (simp add: join_def)

lemma v6_of_groups_mapped:
  "v6_of_groups [0, 0, 0, 0, 0, 65535, unat a div 65536, unat (a :: u32) mod 65536] = to_ipv6_mapped a"
proof -
  have "be_decode (mapped_prefix @ bs) = 65535 * 256 ^ length bs + be_decode bs" for bs
    by (induction bs rule: rev_induct)
       (simp_all add: mapped_prefix_def be_decode_def append_assoc [symmetric] del: append_assoc)
  then have "be_decode (mapped_prefix @ v4_octets a) = 65535 * 65536 * 65536 + unat a"
    using unsigned_less [of a, where ?'a = nat] be_decode_encode [of 4 "unat a"]
    by (simp add: v4_octets_def)
  then show ?thesis
    by (simp add: v6_of_groups_def to_ipv6_mapped_def v6_of_octets_def)
qed

lemma show_nat_ffff: "show_nat 16 65535 = ''ffff''"
proof -
  have "digit_char 15 = CHR ''f''" by code_simp
  then show ?thesis by (simp add: show_nat.simps)
qed

lemma read_ipv6_mapped: "read_ipv6_addr (''::ffff:'' @ show_ipv4 a) = Some (to_ipv6_mapped a, [])"
proof -
  have r: "read_v6_groups 8 0 (''::ffff:'' @ show_ipv4 a) = ([], False, ''::ffff:'' @ show_ipv4 a)"
    using read_nothing(2) [of 8 0 "''ffff:'' @ show_ipv4 a"] by simp
  have v4: "read_v6_groups (Suc (Suc k)) (Suc 0) ('':'' @ show_ipv4 a) =
      ([unat a div 65536, unat a mod 65536], True, [])" for k
    using read_ipv4_show [of "[]" a] by (simp add: read_separator_def)
  have "read_v6_groups (Suc 6) 0 (show_nat 16 65535 @ '':'' @ show_ipv4 a) =
      (case read_v6_groups (Suc (Suc 4)) (Suc 0) ('':'' @ show_ipv4 a) of (gs, v4, r) \<Rightarrow> (65535 # gs, v4, r))"
    using read_group_step [of 65535 "'':'' @ show_ipv4 a" 6 0] by (simp del: read_v6_groups.simps)
  then have t: "read_v6_groups 7 0 (''ffff:'' @ show_ipv4 a) = ([65535, unat a div 65536, unat a mod 65536], True, [])"
    unfolding v4 show_nat_ffff by simp
  have z: "replicate 5 0 = [0, 0, 0, 0, 0 :: nat]" by code_simp
  show ?thesis
    using t z v6_of_groups_mapped [of a] unfolding read_ipv6_addr_def r by simp
qed

lemma read_ipv6_show: "read_ipv6_addr (show_ipv6 a) = Some (a, [])"
proof (cases "to_ipv4_mapped a")
  case (Some v4)
  then have "a = to_ipv6_mapped v4" by (simp add: to_ipv4_mapped_iff)
  with Some show ?thesis using read_ipv6_mapped [of v4] by (simp add: show_ipv6_def)
next
  case None
  let ?gs = "v6_groups a"
  obtain st n where span: "zero_span 0 (0, 0) (0, 0) ?gs = (st, n)" by (cases "zero_span 0 (0, 0) (0, 0) ?gs")
  have gs: "length ?gs = 8" "\<forall>g\<in>set ?gs. g < 65536"
    by (auto simp: v6_groups_def be_groups_less)
  have split: "?gs = take st ?gs @ replicate n 0 @ drop (st + n) ?gs" "st + n \<le> 8"
    using zero_span_split [OF span] gs(1) by simp_all
  show ?thesis
  proof (cases "1 < n")
    case True
    have "length (take st ?gs) + n + length (drop (st + n) ?gs) = 8" using split(2) gs(1) by simp
    moreover have "\<forall>g\<in>set (take st ?gs @ drop (st + n) ?gs). g < 65536"
      using gs(2) by (auto dest: in_set_takeD in_set_dropD)
    ultimately have "read_ipv6_addr (show_ipv6 a) = Some (v6_of_groups (take st ?gs @ replicate n 0 @ drop (st + n) ?gs), [])"
      using read_ipv6_compressed [OF _ True] None True span by (simp add: show_ipv6_def Let_def)
    with split(1) show ?thesis by (simp add: v6_of_groups_inverse)
  next
    case False
    then show ?thesis
      using read_ipv6_plain [OF gs] None span by (simp add: show_ipv6_def Let_def v6_of_groups_inverse)
  qed
qed

lemma show_ipv6_not_v4: "read_ipv4_addr (show_ipv6 a) = None"
proof (cases "to_ipv4_mapped a")
  case None
  let ?gs = "v6_groups a" and ?text = "\<lambda>gs. join '':'' (map (show_nat 16) gs)"
  have "length ?gs \<noteq> 0" unfolding v6_groups_def be_groups_length by simp
  then have "?text ?gs \<noteq> []" by (cases ?gs) (simp_all add: join_def)
  then have plain: "read_ipv4_addr (?text ?gs) = None"
    using show_groups_not_v4 [of "[]" ?gs] by simp
  have "read_ipv4_addr (?text hs @ ''::'' @ r) = None" for hs r
    using show_groups_not_v4 [of "''::'' @ r" hs] colons_not_v4 by fastforce
  with plain None show ?thesis by (simp add: show_ipv6_def Let_def)
qed (simp add: show_ipv6_def colons_not_v4)

lemma parse_show_ip: "parse_ip (show_ip ip) = Some ip"
  using read_ipv4_show [of "[]"] by (cases ip) (simp_all add: show_ip_def parse_ip_def show_ipv6_not_v4 read_ipv6_show)

subsection \<open>Printed text in other parsers\<close>

lemma those_append:
  "those (xs @ ys) = (case (those xs, those ys) of (Some as, Some bs) \<Rightarrow> Some (as @ bs) | _ \<Rightarrow> None)"
  by (induction xs) (auto split: option.splits)

lemma those_show_nat:
  "2 \<le> radix \<Longrightarrow> radix \<le> 16 \<Longrightarrow>
    \<exists>ds. those (map (char_to_digit radix) (show_nat radix n)) = Some ds \<and> foldl (\<lambda>a d. a * radix + d) 0 ds = n"
proof (induction radix n rule: show_nat.induct)
  case (1 radix n)
  show ?case
  proof (cases "n < radix")
    case True
    then show ?thesis
      using 1(3) by (simp add: show_nat.simps [of radix n] char_to_digit_digit_char)
  next
    case False
    have s: "show_nat radix n = show_nat radix (n div radix) @ [digit_char (n mod radix)]"
      using False 1(2) by (subst show_nat.simps) simp
    obtain ds where "those (map (char_to_digit radix) (show_nat radix (n div radix))) = Some ds"
        "foldl (\<lambda>a d. a * radix + d) 0 ds = n div radix"
      using 1 False by auto
    moreover have "char_to_digit radix (digit_char (n mod radix)) = Some (n mod radix)"
      using 1(2,3) by (simp add: char_to_digit_digit_char)
    ultimately show ?thesis by (simp add: s those_append)
  qed
qed

lemma digit_not_sign: "char_to_digit 10 c \<noteq> None \<Longrightarrow> c \<noteq> CHR ''+'' \<and> c \<noteq> CHR ''-'' \<and> c \<noteq> CHR ''*'' \<and> printing c"
  by (auto simp: char_to_digit_def ascii_code_def printing_def Let_def split: if_splits)

lemma hex_printing: "char_to_digit 16 c \<noteq> None \<Longrightarrow> printing c \<and> c \<noteq> CHR ''/''"
  by (auto simp: char_to_digit_def ascii_code_def printing_def Let_def split: if_splits)

lemma show_decimal_chars: "c \<in> set (show_nat 10 n) \<Longrightarrow> c \<noteq> CHR ''+'' \<and> c \<noteq> CHR ''-'' \<and> c \<noteq> CHR ''*'' \<and> printing c"
  using show_nat_digits [of 10 c n] digit_not_sign by auto

lemma from_str_radix_show: "n \<le> maxv \<Longrightarrow> from_str_radix 10 maxv (show_nat 10 n) = Some n"
proof -
  assume n: "n \<le> maxv"
  obtain ds where ds: "those (map (char_to_digit 10) (show_nat 10 n)) = Some ds" "foldl (\<lambda>a d. a * 10 + d) 0 ds = n"
    using those_show_nat [of 10 n] by auto
  obtain c cs where c: "show_nat 10 n = c # cs" by (cases "show_nat 10 n") auto
  then have "c \<noteq> CHR ''+''" using show_decimal_chars [of c n] by simp
  with ds n c show ?thesis by (simp add: from_str_radix_def Let_def split: option.splits)
qed

lemma join_chars: "c \<in> set (join sep xs) \<Longrightarrow> c \<in> set sep \<or> (\<exists>x\<in>set xs. c \<in> set x)"
  by (auto simp: join_def split: list.splits if_splits)

lemma show_ip_chars: "c \<in> set (show_ip ip) \<Longrightarrow> printing c \<and> c \<noteq> CHR ''/''"
proof -
  assume c: "c \<in> set (show_ip ip)"
  have sep: "printing (CHR ''.'')" "printing (CHR '':'')" "printing (CHR ''f'')"
    by (simp_all add: printing_def ascii_code_def)
  have hex: "printing c \<and> c \<noteq> CHR ''/''" if "c \<in> set (show_nat 16 n)" for n
    using that show_nat_digits [of 16 c n] hex_printing [of c] by auto
  have "char_to_digit 10 d \<noteq> None \<Longrightarrow> char_to_digit 16 d \<noteq> None" for d
    by (auto simp: char_to_digit_def Let_def split: if_splits)
  then have "printing c \<and> c \<noteq> CHR ''/''" if "c \<in> set (show_nat 10 n)" for n
    using that show_nat_digits [of 10 c n] hex_printing [of c] by auto
  then have v4: "printing c \<and> c \<noteq> CHR ''/''" if "c \<in> set (show_ipv4 a)" for a
    using that sep by (auto simp: show_ipv4_def dest!: join_chars)
  show ?thesis
    using c sep hex v4
    by (cases ip) (auto simp: show_ip_def show_ipv6_def Let_def dest!: join_chars split: option.splits if_splits)
qed

lemma show_ip_nonempty: "show_ip ip \<noteq> []"
  using parse_show_ip [of ip] by (auto simp: parse_ip_def read_ipv4_addr_def read_v4_groups_4 read_separator_def
      read_number_def read_ipv6_addr_def read_nothing)

lemma str_trim_show_ip: "str_trim (show_ip ip) = show_ip ip"
  using show_ip_chars [of _ ip] show_ip_nonempty [of ip] by (intro str_trim_id) auto

lemma str_trim_show_nat: "str_trim (show_nat 10 n) = show_nat 10 n"
  using show_decimal_chars [of _ n] by (intro str_trim_id) auto

end
