(* ===== verification/Filter_Policy.thy ===== *)
theory Filter_Policy
  imports Ip_Text
begin

section \<open>The compiled inbound policy (\<open>blaktail-ios-wg/src/filter.rs\<close>)\<close>

text \<open>
  The coordinator's peer map (\<open>PolicyPeer\<close>, \<open>Ingress\<close>), the compiler from it to rule
  tables (\<open>Policy::compile\<close>, \<open>compile_rules\<close>) and the verdict for a new inbound flow
  (\<open>decide_with_hint\<close>). The reference reading of the map is \<open>grants\<close>: what one peer's
  entry says about a protocol and a port, with no tables.
\<close>

unbundle bit_operations_syntax

definition TCP :: u8 where "TCP = 6"
definition UDP :: u8 where "UDP = 17"
definition ICMP :: u8 where "ICMP = 1"
definition ICMPV6 :: u8 where "ICMPV6 = 58"

lemmas proto_numbers = TCP_def UDP_def ICMP_def ICMPV6_def

lemma protos_distinct [simp]:
  "TCP \<noteq> UDP" "UDP \<noteq> TCP" "TCP \<noteq> ICMP" "ICMP \<noteq> TCP" "TCP \<noteq> ICMPV6" "ICMPV6 \<noteq> TCP"
  "UDP \<noteq> ICMP" "ICMP \<noteq> UDP" "UDP \<noteq> ICMPV6" "ICMPV6 \<noteq> UDP" "ICMP \<noteq> ICMPV6" "ICMPV6 \<noteq> ICMP"
  by (simp_all add: proto_numbers)

record ingress =
  in_all :: bool
  in_tcp :: "string list"
  in_udp :: "string list"
  in_icmp :: bool
  in_deny_tcp :: "string list"
  in_deny_udp :: "string list"
  in_deny_icmp :: bool
  in_ssh_users :: "string list"
  in_ssh_deny_users :: "string list"

definition ingress_default :: ingress where
  "ingress_default =
     \<lparr>in_all = False, in_tcp = [], in_udp = [], in_icmp = False, in_deny_tcp = [], in_deny_udp = [],
      in_deny_icmp = False, in_ssh_users = [], in_ssh_deny_users = []\<rparr>"

record pq_hint =
  pq_mode :: string
  pq_capable :: bool

record policy_peer =
  po_id :: string
  po_allowed_ips :: "string list"
  po_ingress :: "ingress option"
  po_pq :: "pq_hint option"

subsection \<open>Port ranges\<close>

definition port_range :: "string \<Rightarrow> (u16 \<times> u16) option" where
  "port_range spec =
     (let spec = str_trim spec
      in if spec = ''*'' then Some (1, 65535)
         else case split_once (CHR ''-'') spec of
           Some (a, b) \<Rightarrow>
             (case parse_u16 a of
                None \<Rightarrow> None
              | Some start \<Rightarrow>
                  (case parse_u16 b of
                     None \<Rightarrow> None
                   | Some stop \<Rightarrow>
                       if start \<noteq> 0 \<and> stop \<noteq> 0 \<and> start \<le> stop then Some (start, stop) else None))
         | None \<Rightarrow>
             (case parse_u16 spec of
                None \<Rightarrow> None
              | Some port \<Rightarrow> if port \<noteq> 0 then Some (port, port) else None))"

definition ssh_restricted :: "ingress \<Rightarrow> bool" where
  "ssh_restricted i \<longleftrightarrow>
     (let unrestricted = (length (in_ssh_users i) = 1 \<and> in_ssh_users i ! 0 = ''*'' \<and> in_ssh_deny_users i = [])
      in in_ssh_users i \<noteq> [] \<and> \<not> unrestricted)"

subsection \<open>Rules\<close>

datatype proto = ProtoTcp | ProtoUdp | ProtoIcmp | ProtoAny

record rule =
  ru_proto :: proto
  ru_ports :: "u16 \<times> u16"
  ru_accept :: bool

definition in_range :: "u16 \<times> u16 \<Rightarrow> u16 \<Rightarrow> bool" where
  "in_range ports port \<longleftrightarrow> fst ports \<le> port \<and> port \<le> snd ports"

definition rule_matches :: "rule \<Rightarrow> u8 \<Rightarrow> u16 \<Rightarrow> bool" where
  "rule_matches r p port =
     (case ru_proto r of
        ProtoAny \<Rightarrow> True
      | ProtoIcmp \<Rightarrow> p = ICMP \<or> p = ICMPV6
      | ProtoTcp \<Rightarrow> p = TCP \<and> in_range (ru_ports r) port
      | ProtoUdp \<Rightarrow> p = UDP \<and> in_range (ru_ports r) port)"

definition mk_rule :: "proto \<Rightarrow> bool \<Rightarrow> u16 \<times> u16 \<Rightarrow> rule" where
  "mk_rule p accept ports = \<lparr>ru_proto = p, ru_ports = ports, ru_accept = accept\<rparr>"

definition effective_deny_tcp :: "ingress \<Rightarrow> string list" where
  "effective_deny_tcp i =
     (if ssh_restricted i \<and> \<not> (\<exists>spec\<in>set (in_deny_tcp i). spec = ''22'')
      then in_deny_tcp i @ [''22''] else in_deny_tcp i)"

definition compile_rules :: "ingress \<Rightarrow> u16 option \<Rightarrow> rule list" where
  "compile_rules i pq_port =
     (let rules =
        (case pq_port of None \<Rightarrow> [] | Some port \<Rightarrow> [mk_rule ProtoTcp True (port, port)])
        @ map (mk_rule ProtoTcp False) (List.map_filter port_range (effective_deny_tcp i))
        @ map (mk_rule ProtoUdp False) (List.map_filter port_range (in_deny_udp i))
        @ (if in_deny_icmp i then [mk_rule ProtoIcmp False (0, 0)] else [])
      in if in_all i then rules @ [mk_rule ProtoAny True (0, 0)]
         else rules
              @ map (mk_rule ProtoTcp True) (List.map_filter port_range (in_tcp i))
              @ map (mk_rule ProtoUdp True) (List.map_filter port_range (in_udp i))
              @ (if in_icmp i then [mk_rule ProtoIcmp True (0, 0)] else []))"

subsection \<open>Prefixes\<close>

record prefix =
  px_network :: ip_addr
  px_bits :: u8

definition prefix_parse :: "string \<Rightarrow> prefix option" where
  "prefix_parse value =
     (case split_once (CHR ''/'') value of
        None \<Rightarrow> None
      | Some (address, bits) \<Rightarrow>
          (case parse_ip (str_trim address) of
             None \<Rightarrow> None
           | Some network \<Rightarrow>
               (case parse_u8 (str_trim bits) of
                  None \<Rightarrow> None
                | Some bits \<Rightarrow>
                    if bits \<le> (if is_ipv4 network then 32 else 128)
                    then Some \<lparr>px_network = network, px_bits = bits\<rparr> else None)))"

definition prefix_contains :: "prefix \<Rightarrow> ip_addr \<Rightarrow> bool" where
  "prefix_contains p address =
     (case (px_network p, address) of
        (V4 network, V4 address) \<Rightarrow>
          (let mask = (if px_bits p = 0 then 0 else push_bit (32 - unat (px_bits p)) (- 1 :: u32))
           in network AND mask = address AND mask)
      | (V6 network, V6 address) \<Rightarrow>
          (let mask = (if px_bits p = 0 then 0 else push_bit (128 - unat (px_bits p)) (- 1 :: u128))
           in network AND mask = address AND mask)
      | _ \<Rightarrow> False)"

definition prefix_host :: "prefix \<Rightarrow> ip_addr option" where
  "prefix_host p =
     (if px_bits p = (if is_ipv4 (px_network p) then 32 else 128) then Some (px_network p) else None)"

subsection \<open>The compiled policy\<close>

record source =
  so_peer :: "string option"
  so_rules :: "rule list"

record policy =
  pol_enforce :: bool
  pol_sources :: "(ip_addr, source list) hmap"
  pol_routes :: "(prefix \<times> string) list"

definition trimmed_id :: "string \<Rightarrow> string option" where
  "trimmed_id s = (let s = str_trim s in if s \<noteq> [] then Some s else None)"

definition allow_all :: policy where
  "allow_all = \<lparr>pol_enforce = False, pol_sources = [], pol_routes = []\<rparr>"

definition deny_all :: policy where
  "deny_all = \<lparr>pol_enforce = True, pol_sources = [], pol_routes = []\<rparr>"

definition pq_open :: "policy_peer \<Rightarrow> u16 option \<Rightarrow> u16 option" where
  "pq_open peer pq_port =
     (case po_pq peer of
        None \<Rightarrow> None
      | Some pq \<Rightarrow>
          if pq_capable pq \<and> pq_mode pq \<noteq> [] \<and> pq_mode pq \<noteq> ''off'' then pq_port else None)"

definition effective_ingress :: "policy_peer \<Rightarrow> ingress" where
  "effective_ingress peer =
     (case po_ingress peer of Some i \<Rightarrow> i | None \<Rightarrow> ingress_default\<lparr>in_all := True\<rparr>)"

definition push_source :: "source \<Rightarrow> (ip_addr, source list) hmap \<Rightarrow> ip_addr \<Rightarrow> (ip_addr, source list) hmap" where
  "push_source entry sources host =
     hm_insert host ((case hm_get sources host of None \<Rightarrow> [] | Some es \<Rightarrow> es) @ [entry]) sources"

definition compile_peer :: "u16 option \<Rightarrow> policy \<Rightarrow> policy_peer \<Rightarrow> policy" where
  "compile_peer pq_port pol peer =
     (let nid = trimmed_id (po_id peer);
          prefixes = List.map_filter prefix_parse (po_allowed_ips peer);
          pol = (case nid of
                   None \<Rightarrow> pol
                 | Some nid \<Rightarrow> pol\<lparr>pol_routes := pol_routes pol @ map (\<lambda>p. (p, nid)) prefixes\<rparr>)
      in if \<not> pol_enforce pol then pol
         else let entry = \<lparr>so_peer = nid, so_rules = compile_rules (effective_ingress peer) (pq_open peer pq_port)\<rparr>
              in pol\<lparr>pol_sources := foldl (push_source entry) (pol_sources pol) (List.map_filter prefix_host prefixes)\<rparr>)"

definition compile_policy :: "policy_peer list \<Rightarrow> u16 option \<Rightarrow> policy" where
  "compile_policy peers pq_port =
     foldl (compile_peer pq_port)
       \<lparr>pol_enforce = (\<exists>peer\<in>set peers. po_ingress peer \<noteq> None), pol_sources = [], pol_routes = []\<rparr> peers"

definition peer_for :: "policy \<Rightarrow> ip_addr \<Rightarrow> string option" where
  "peer_for pol address =
     (case (case hm_get (pol_sources pol) address of
              None \<Rightarrow> None
            | Some entries \<Rightarrow> find (\<lambda>entry. so_peer entry \<noteq> None) entries) of
        Some entry \<Rightarrow> so_peer entry
      | None \<Rightarrow> map_option snd (find (\<lambda>(p, _). prefix_contains p address) (pol_routes pol)))"

fun first_match :: "source list \<Rightarrow> u8 \<Rightarrow> u16 \<Rightarrow> (source \<times> rule) option" where
  "first_match [] p port = None"
| "first_match (entry # entries) p port =
     (case find (\<lambda>r. rule_matches r p port) (so_rules entry) of
        Some r \<Rightarrow> Some (entry, r)
      | None \<Rightarrow> first_match entries p port)"

definition decide_with_hint :: "policy \<Rightarrow> ip_addr \<Rightarrow> u8 \<Rightarrow> u16 \<Rightarrow> bool \<times> string option \<times> string" where
  "decide_with_hint pol src p port =
     (case (case hm_get (pol_sources pol) src of None \<Rightarrow> None | Some entries \<Rightarrow> first_match entries p port) of
        Some (entry, r) \<Rightarrow>
          (let allow = (\<not> pol_enforce pol \<or> ru_accept r)
           in (allow, so_peer entry, if allow then ''acl:allow'' else ''acl:deny-rule''))
      | None \<Rightarrow> (\<not> pol_enforce pol, peer_for pol src, ''acl:default''))"

definition decide :: "policy \<Rightarrow> ip_addr \<Rightarrow> u8 \<Rightarrow> u16 \<Rightarrow> bool \<times> string option" where
  "decide pol src p port = (case decide_with_hint pol src p port of (allow, peer, _) \<Rightarrow> (allow, peer))"

subsection \<open>What a peer's entry grants\<close>

definition listed :: "string list \<Rightarrow> u16 \<Rightarrow> bool" where
  "listed specs port \<longleftrightarrow> (\<exists>range\<in>set (List.map_filter port_range specs). in_range range port)"

definition is_icmp :: "u8 \<Rightarrow> bool" where
  "is_icmp p \<longleftrightarrow> p = ICMP \<or> p = ICMPV6"

definition denied :: "ingress \<Rightarrow> u8 \<Rightarrow> u16 \<Rightarrow> bool" where
  "denied i p port \<longleftrightarrow>
     p = TCP \<and> (listed (in_deny_tcp i) port \<or> ssh_restricted i \<and> port = 22)
     \<or> p = UDP \<and> listed (in_deny_udp i) port
     \<or> is_icmp p \<and> in_deny_icmp i"

definition granted :: "ingress \<Rightarrow> u8 \<Rightarrow> u16 \<Rightarrow> bool" where
  "granted i p port \<longleftrightarrow>
     in_all i \<or> p = TCP \<and> listed (in_tcp i) port \<or> p = UDP \<and> listed (in_udp i) port \<or> is_icmp p \<and> in_icmp i"

definition grants :: "ingress \<Rightarrow> u16 option \<Rightarrow> u8 \<Rightarrow> u16 \<Rightarrow> bool option" where
  "grants i pq_port p port =
     (if p = TCP \<and> pq_port = Some port then Some True
      else if denied i p port then Some False
      else if granted i p port then Some True
      else None)"

definition verdict :: "rule list \<Rightarrow> u8 \<Rightarrow> u16 \<Rightarrow> bool option" where
  "verdict rules p port = map_option ru_accept (find (\<lambda>r. rule_matches r p port) rules)"

lemma verdict_simps [simp]:
  "verdict [] p port = None"
  "verdict (r # rs) p port = (if rule_matches r p port then Some (ru_accept r) else verdict rs p port)"
  by (simp_all add: verdict_def)

definition or_else :: "'a option \<Rightarrow> 'a option \<Rightarrow> 'a option" where
  "or_else x y = (case x of None \<Rightarrow> y | Some _ \<Rightarrow> x)"

lemma verdict_append: "verdict (xs @ ys) p port = or_else (verdict xs p port) (verdict ys p port)"
  by (induction xs) (auto simp: or_else_def)

lemma rule_matches_mk [simp]:
  "rule_matches (mk_rule ProtoAny accept rg) p port"
  "rule_matches (mk_rule ProtoIcmp accept rg) p port \<longleftrightarrow> is_icmp p"
  "rule_matches (mk_rule ProtoTcp accept rg) p port \<longleftrightarrow> p = TCP \<and> in_range rg port"
  "rule_matches (mk_rule ProtoUdp accept rg) p port \<longleftrightarrow> p = UDP \<and> in_range rg port"
  "ru_accept (mk_rule q accept rg) = accept"
  by (simp_all add: rule_matches_def mk_rule_def is_icmp_def)

lemma verdict_ranges:
  "verdict (map (mk_rule q accept) ranges) p port =
     (if \<exists>range\<in>set ranges. rule_matches (mk_rule q accept range) p port then Some accept else None)"
  by (induction ranges) auto

lemma verdict_ports:
  "verdict (map (mk_rule ProtoTcp accept) (List.map_filter port_range specs)) p port =
     (if p = TCP \<and> listed specs port then Some accept else None)"
  "verdict (map (mk_rule ProtoUdp accept) (List.map_filter port_range specs)) p port =
     (if p = UDP \<and> listed specs port then Some accept else None)"
  by (auto simp: verdict_ranges listed_def)

lemma port_range_22: "port_range ''22'' = Some (22, 22)"
proof -
  have "str_trim ''22'' = ''22''" by (rule str_trim_id) (simp add: printing_def ascii_code_def)
  then show ?thesis
    by (simp add: port_range_def split_once_def parse_u16_def from_str_radix_def char_to_digit_def ascii_code_def)
qed

lemma listed_effective:
  "listed (effective_deny_tcp i) port \<longleftrightarrow> listed (in_deny_tcp i) port \<or> ssh_restricted i \<and> port = 22"
proof -
  have "in_range (22, 22) port \<longleftrightarrow> port = 22" by (auto simp: in_range_def)
  moreover have "''22'' \<in> set specs \<Longrightarrow> listed specs 22" for specs
    unfolding listed_def map_filter_def using port_range_22 by (force simp: in_range_def)
  ultimately show ?thesis
    using port_range_22 by (auto simp: effective_deny_tcp_def listed_def map_filter_def)
qed

lemma compile_rules_grants: "verdict (compile_rules i pq_port) p port = grants i pq_port p port"
proof -
  have pq: "verdict (case pq_port of None \<Rightarrow> [] | Some port \<Rightarrow> [mk_rule ProtoTcp True (port, port)]) p port =
      (if p = TCP \<and> pq_port = Some port then Some True else None)"
    by (auto simp: in_range_def split: option.splits)
  have icmp: "verdict (if b then [mk_rule ProtoIcmp a (0, 0)] else []) p port =
      (if is_icmp p \<and> b then Some a else None)" for a b
    by simp
  have any: "verdict [mk_rule ProtoAny True (0, 0)] p port = Some True"
    by simp
  have kinds: "is_icmp p \<Longrightarrow> p \<noteq> TCP \<and> p \<noteq> UDP"
    by (auto simp: is_icmp_def)
  show ?thesis
    unfolding compile_rules_def Let_def grants_def denied_def granted_def if_distrib [of "\<lambda>rs. verdict rs p port"]
      verdict_append verdict_ports listed_effective pq icmp any
    using kinds by (auto simp: or_else_def)
qed

subsection \<open>The compiled tables agree with the map\<close>

definition hosts :: "policy_peer \<Rightarrow> ip_addr list" where
  "hosts peer = List.map_filter prefix_host (List.map_filter prefix_parse (po_allowed_ips peer))"

text \<open>The map read directly: the first peer that owns the source address and has an opinion.\<close>

fun peer_verdict :: "policy_peer list \<Rightarrow> u16 option \<Rightarrow> ip_addr \<Rightarrow> u8 \<Rightarrow> u16 \<Rightarrow> bool option" where
  "peer_verdict [] pq_port src p port = None"
| "peer_verdict (peer # peers) pq_port src p port =
     or_else
       (if src \<in> set (hosts peer) then grants (effective_ingress peer) (pq_open peer pq_port) p port else None)
       (peer_verdict peers pq_port src p port)"

definition entries_at :: "(ip_addr, source list) hmap \<Rightarrow> ip_addr \<Rightarrow> source list" where
  "entries_at sources src = (case hm_get sources src of None \<Rightarrow> [] | Some es \<Rightarrow> es)"

lemma entries_at_push:
  "entries_at (foldl (push_source entry) sources hs) src = entries_at sources src @ replicate (count_list hs src) entry"
  by (induction hs arbitrary: sources)
     (auto simp: entries_at_def push_source_def alist.get_ins replicate_app_Cons_same)

definition peer_entry :: "u16 option \<Rightarrow> policy_peer \<Rightarrow> source" where
  "peer_entry pq_port peer =
     \<lparr>so_peer = trimmed_id (po_id peer), so_rules = compile_rules (effective_ingress peer) (pq_open peer pq_port)\<rparr>"

lemma compile_peer_enforce [simp]: "pol_enforce (compile_peer pq_port pol peer) = pol_enforce pol"
  by (simp add: compile_peer_def Let_def split: option.splits)

lemma compile_peers_enforce: "pol_enforce (foldl (compile_peer pq_port) pol peers) = pol_enforce pol"
  by (induction peers arbitrary: pol) simp_all

lemma compile_peer_entries:
  "pol_enforce pol \<Longrightarrow> entries_at (pol_sources (compile_peer pq_port pol peer)) src =
     entries_at (pol_sources pol) src @ replicate (count_list (hosts peer) src) (peer_entry pq_port peer)"
  by (simp add: compile_peer_def Let_def entries_at_push hosts_def peer_entry_def split: option.splits)

lemma compile_peers_entries:
  "pol_enforce pol \<Longrightarrow> entries_at (pol_sources (foldl (compile_peer pq_port) pol peers)) src =
     entries_at (pol_sources pol) src
     @ concat (map (\<lambda>peer. replicate (count_list (hosts peer) src) (peer_entry pq_port peer)) peers)"
  by (induction peers arbitrary: pol) (simp_all add: compile_peer_entries)

definition match_accept :: "source list \<Rightarrow> u8 \<Rightarrow> u16 \<Rightarrow> bool option" where
  "match_accept es p port = map_option (\<lambda>(_, r). ru_accept r) (first_match es p port)"

lemma match_accept_simps [simp]:
  "match_accept [] p port = None"
  "match_accept (e # es) p port = or_else (verdict (so_rules e) p port) (match_accept es p port)"
  by (auto simp: match_accept_def verdict_def or_else_def split: option.splits)

lemma or_else_assoc: "or_else (or_else x y) z = or_else x (or_else y z)"
  by (simp add: or_else_def split: option.splits)

lemma or_else_None [simp]: "or_else None y = y" "or_else x None = x"
  by (simp_all add: or_else_def split: option.splits)

lemma or_else_twice [simp]: "or_else x (or_else x y) = or_else x y"
  by (simp add: or_else_def split: option.splits)

lemma match_accept_append:
  "match_accept (es @ fs) p port = or_else (match_accept es p port) (match_accept fs p port)"
  by (induction es) (simp_all add: or_else_assoc)

lemma match_accept_replicate:
  "match_accept (replicate n e) p port = (if n = 0 then None else verdict (so_rules e) p port)"
proof (induction n)
  case (Suc n)
  then show ?case
    using or_else_twice [of "verdict (so_rules e) p port" None] by simp
qed simp

lemma match_accept_peers:
  "match_accept (concat (map (\<lambda>peer. replicate (count_list (hosts peer) src) (peer_entry pq_port peer)) peers)) p port =
     peer_verdict peers pq_port src p port"
  by (induction peers)
     (simp_all add: match_accept_append match_accept_replicate peer_entry_def compile_rules_grants count_list_0_iff)

lemma decide_match:
  "fst (decide pol src p port) =
     (case match_accept (entries_at (pol_sources pol) src) p port of
        None \<Rightarrow> \<not> pol_enforce pol | Some accept \<Rightarrow> \<not> pol_enforce pol \<or> accept)"
  by (cases "hm_get (pol_sources pol) src")
     (auto simp: decide_def decide_with_hint_def match_accept_def entries_at_def Let_def case_prod_beta
       split: option.splits)

lemma compile_policy_verdict:
  "fst (decide (compile_policy peers pq_port) src p port) =
     (if \<exists>peer\<in>set peers. po_ingress peer \<noteq> None
      then peer_verdict peers pq_port src p port = Some True
      else True)"
proof -
  let ?enforce = "\<exists>peer\<in>set peers. po_ingress peer \<noteq> None"
  let ?init = "\<lparr>pol_enforce = ?enforce, pol_sources = [], pol_routes = []\<rparr>"
  have e: "pol_enforce (compile_policy peers pq_port) = ?enforce"
    by (simp add: compile_policy_def compile_peers_enforce)
  show ?thesis
  proof (cases ?enforce)
    case True
    then have "entries_at (pol_sources (compile_policy peers pq_port)) src =
        concat (map (\<lambda>peer. replicate (count_list (hosts peer) src) (peer_entry pq_port peer)) peers)"
      using compile_peers_entries [of ?init pq_port peers src]
      by (simp add: compile_policy_def entries_at_def)
    then have "match_accept (entries_at (pol_sources (compile_policy peers pq_port)) src) p port =
        peer_verdict peers pq_port src p port"
      by (simp add: match_accept_peers)
    then show ?thesis
      using True e by (simp add: decide_match split: option.splits)
  next
    case False
    then show ?thesis using e by (auto simp: decide_match split: option.splits)
  qed
qed

text \<open>
  C6. The compiled policy decides exactly what the peer map says. Nothing is filtered when no peer
  carries grants; otherwise a new inbound flow is accepted exactly when the first peer that owns the
  source address and has an opinion accepts it: the post-quantum exchange port first, then the
  peer's denials (TCP 22 among them when its SSH grant is limited to users), then its grants. A
  source no peer owns is rejected.
\<close>

theorem compile_policy_correct:
  "fst (decide (compile_policy peers pq_port) src p port) =
     (if \<exists>peer\<in>set peers. po_ingress peer \<noteq> None
      then peer_verdict peers pq_port src p port = Some True
      else True)"
  by (rule compile_policy_verdict)

text \<open>
  A peer's denial always beats its own grants, and an enforcing policy with no entries accepts
  nothing: if the peer is the only one at the source address, a port it denies is rejected whatever
  else it grants (unless it is the open post-quantum port), and a port it neither denies nor grants
  is rejected too.
\<close>

theorem denial_beats_grant:
  assumes "po_ingress peer = Some i" and "pq_open peer pq_port \<noteq> Some port \<or> p \<noteq> TCP"
    and "denied i p port \<or> \<not> granted i p port"
  shows "\<not> fst (decide (compile_policy [peer] pq_port) src p port) \<and> \<not> fst (decide deny_all src p port)"
proof -
  let ?init = "\<lparr>pol_enforce = True, pol_sources = [], pol_routes = []\<rparr>"
  have "entries_at (pol_sources (compile_policy [peer] pq_port)) src =
      replicate (count_list (hosts peer) src) (peer_entry pq_port peer)"
    using assms(1) compile_peer_entries [of ?init pq_port peer src]
    by (simp add: compile_policy_def entries_at_def)
  then have "match_accept (entries_at (pol_sources (compile_policy [peer] pq_port)) src) p port \<noteq> Some True"
    using assms by (auto simp: match_accept_replicate peer_entry_def compile_rules_grants grants_def effective_ingress_def)
  moreover have "pol_enforce (compile_policy [peer] pq_port)"
    using assms(1) by (simp add: compile_policy_def)
  ultimately show ?thesis
    by (auto simp: decide_match deny_all_def entries_at_def split: option.splits)
qed

theorem denial_beats_grant_witness:
  "\<not> fst (decide (compile_policy [\<lparr>po_id = ''n'', po_allowed_ips = [], po_ingress =
       Some (ingress_default\<lparr>in_all := True, in_deny_icmp := True\<rparr>), po_pq = None\<rparr>] None) (V4 1) ICMP 0)"
  using denial_beats_grant [of "\<lparr>po_id = ''n'', po_allowed_ips = [], po_ingress =
       Some (ingress_default\<lparr>in_all := True, in_deny_icmp := True\<rparr>), po_pq = None\<rparr>"
      "ingress_default\<lparr>in_all := True, in_deny_icmp := True\<rparr>" None 0 ICMP "V4 1"]
  by (simp add: denied_def is_icmp_def)

subsection \<open>Prefixes and port ranges\<close>

lemma mask_agree:
  fixes x y :: "'a::len word"
  shows "x AND push_bit k (- 1) = y AND push_bit k (- 1) \<longleftrightarrow> unat x div 2 ^ k = unat y div 2 ^ k"
proof -
  have m: "x AND push_bit k (- 1) = push_bit k (drop_bit k x)" for x :: "'a word"
    by (rule bit_word_eqI) (auto simp: bit_simps)
  have d: "drop_bit k (push_bit k (drop_bit k x)) = drop_bit k x" for x :: "'a word"
    by (rule bit_word_eqI) (auto simp: bit_simps dest: bit_imp_le_length)
  have "x AND push_bit k (- 1) = y AND push_bit k (- 1) \<longleftrightarrow> drop_bit k x = drop_bit k y"
    unfolding m by (metis d)
  also have "\<dots> \<longleftrightarrow> unat x div 2 ^ k = unat y div 2 ^ k"
    unfolding word_unat_eq_iff unat_drop_bit_eq by (simp add: drop_bit_eq_div)
  finally show ?thesis .
qed

lemmas mask_agree_not = mask_agree [unfolded push_bit_minus_one_eq_not_mask]

lemma prefix_parse_bits:
  "prefix_parse text = Some p \<Longrightarrow> unat (px_bits p) \<le> (if is_ipv4 (px_network p) then 32 else 128)"
  by (auto simp: prefix_parse_def word_le_nat_alt split: option.splits if_splits)

text \<open>
  A parsed prefix contains exactly the addresses of its family that agree with it on its
  leading bits.
\<close>

theorem prefix_contains_leading_bits:
  assumes "prefix_parse text = Some p"
  shows "prefix_contains p address \<longleftrightarrow>
    (case (px_network p, address) of
       (V4 n, V4 a) \<Rightarrow> unat n div 2 ^ (32 - unat (px_bits p)) = unat a div 2 ^ (32 - unat (px_bits p))
     | (V6 n, V6 a) \<Rightarrow> unat n div 2 ^ (128 - unat (px_bits p)) = unat a div 2 ^ (128 - unat (px_bits p))
     | _ \<Rightarrow> False)"
proof -
  have "unat x div 2 ^ 32 = 0" for x :: u32
    using unsigned_less [of x, where ?'a = nat] by simp
  moreover have "unat x div 2 ^ 128 = 0" for x :: u128
    using unsigned_less [of x, where ?'a = nat] by simp
  ultimately show ?thesis
    by (cases "px_network p"; cases address) (auto simp: prefix_contains_def mask_agree_not Let_def)
qed

lemma prefix_parse_show:
  assumes "b \<le> (if is_ipv4 ip then 32 else 128)"
  shows "prefix_parse (show_ip ip @ ''/'' @ show_nat 10 b) = Some \<lparr>px_network = ip, px_bits = word_of_nat b\<rparr>"
proof -
  have "CHR ''/'' \<notin> set (show_ip ip)" using show_ip_chars by blast
  then have "split_once (CHR ''/'') (show_ip ip @ ''/'' @ show_nat 10 b) = Some (show_ip ip, show_nat 10 b)"
    using split_once_append [of "CHR ''/''" "show_ip ip" "show_nat 10 b"] by simp
  moreover have "parse_u8 (show_nat 10 b) = Some (word_of_nat b)"
    using assms by (simp add: parse_u8_def from_str_radix_show split: if_splits)
  moreover have "unat (word_of_nat b :: u8) = b"
    using assms by (simp add: unat_of_nat split: if_splits)
  ultimately show ?thesis
    using assms by (simp add: prefix_parse_def str_trim_show_ip str_trim_show_nat parse_show_ip word_le_nat_alt
        split: if_splits)
qed

theorem prefix_contains_leading_bits_witness:
  "prefix_contains \<lparr>px_network = V4 0x0A000000, px_bits = 8\<rparr> (V4 0x0A010203)
   \<and> \<not> prefix_contains \<lparr>px_network = V4 0x0A000000, px_bits = 8\<rparr> (V4 0x0B010203)"
  using prefix_contains_leading_bits [OF prefix_parse_show [of 8 "V4 0x0A000000"], of "V4 0x0A010203"]
    prefix_contains_leading_bits [OF prefix_parse_show [of 8 "V4 0x0A000000"], of "V4 0x0B010203"]
  by simp

lemma parse_u16_show: "parse_u16 (show_nat 10 (unat (p :: u16))) = Some p"
  using unsigned_less [of p, where ?'a = nat] by (simp add: parse_u16_def from_str_radix_show)

text \<open>
  Port specifications mean what they say. Whatever text is accepted, it denotes a non-empty
  range of non-zero ports; a printed port and a printed range denote exactly themselves, a star
  denotes every port, and an inverted range denotes nothing.
\<close>

theorem port_range_denotes:
  "(\<forall>spec lo hi. port_range spec = Some (lo, hi) \<longrightarrow> 0 < lo \<and> lo \<le> hi)
   \<and> port_range ''*'' = Some (1, 65535)
   \<and> port_range (show_nat 10 (unat a)) = (if a = 0 then None else Some (a, a))
   \<and> port_range (show_nat 10 (unat a) @ ''-'' @ show_nat 10 (unat b)) =
        (if 0 < a \<and> a \<le> b then Some (a, b) else None)"
proof (intro conjI allI impI)
  fix spec lo hi
  assume "port_range spec = Some (lo, hi)"
  then show "0 < lo" "lo \<le> hi"
    by (auto simp: port_range_def Let_def word_neq_0_conv split: if_splits option.splits)
next
  have "str_trim ''*'' = ''*''" by (rule str_trim_id) (simp add: printing_def ascii_code_def)
  then show "port_range ''*'' = Some (1, 65535)" by (simp add: port_range_def)
next
  have chars: "CHR ''-'' \<notin> set (show_nat 10 n)" "show_nat 10 n \<noteq> ''*''" for n
    using show_decimal_chars [of "CHR ''-''" n] show_decimal_chars [of "CHR ''*''" n] by auto
  then have "split_once (CHR ''-'') (show_nat 10 (unat a)) = None"
    by (simp add: split_once_None)
  then show "port_range (show_nat 10 (unat a)) = (if a = 0 then None else Some (a, a))"
    using chars by (simp add: port_range_def str_trim_show_nat parse_u16_show)
  let ?s = "show_nat 10 (unat a) @ ''-'' @ show_nat 10 (unat b)"
  have "str_trim ?s = ?s"
    using show_decimal_chars [of "hd (show_nat 10 (unat a))" "unat a"]
      show_decimal_chars [of "last (show_nat 10 (unat b))" "unat b"]
    by (intro str_trim_id) simp
  moreover have "?s \<noteq> ''*''" by (cases "show_nat 10 (unat a)") auto
  moreover have "split_once (CHR ''-'') ?s = Some (show_nat 10 (unat a), show_nat 10 (unat b))"
    using chars split_once_append [of "CHR ''-''" "show_nat 10 (unat a)"] by simp
  ultimately show "port_range ?s = (if 0 < a \<and> a \<le> b then Some (a, b) else None)"
    by (auto simp: port_range_def parse_u16_show word_neq_0_conv)
qed

theorem port_range_denotes_witness: "0 < fst (the (port_range ''22'')) \<and> port_range ''22'' = Some (22, 22)"
  using port_range_denotes [of 0 0] port_range_22 by auto

end
