(* ===== verification/Packet_Parse.thy ===== *)
theory Packet_Parse
  imports Filter_Policy
begin

section \<open>Packet parsing (\<open>blaktail-ios-wg/src/filter.rs\<close>)\<close>

text \<open>
  \<open>parse_packet\<close>, \<open>parse_embedded\<close> and their helpers. The source mixes checked reads
  (\<open>data.get(i)?\<close>, which give up) with direct indexing (\<open>data[i]\<close>, which panics out of
  range); the two are different errors here, so that the absence of panics is a statement about the
  definitions. The extension-header loop is a recursive function that terminates because it counts
  the headers it walks.
\<close>

datatype parse_error = Malformed | Panic

text \<open>A checked read, and an index that must be in range.\<close>

definition fetch :: "bytes \<Rightarrow> nat \<Rightarrow> parse_error + u8" where
  "fetch data i = (if i < length data then Inr (data ! i) else Inl Malformed)"

definition index_at :: "bytes \<Rightarrow> nat \<Rightarrow> parse_error + u8" where
  "index_at data i = (if i < length data then Inr (data ! i) else Inl Panic)"

definition slice :: "bytes \<Rightarrow> nat \<Rightarrow> nat \<Rightarrow> parse_error + bytes" where
  "slice data i j = (if i \<le> j \<and> j \<le> length data then Inr (take (j - i) (drop i data)) else Inl Panic)"

definition get_slice :: "bytes \<Rightarrow> nat \<Rightarrow> nat \<Rightarrow> parse_error + bytes" where
  "get_slice data i j = (if i \<le> j \<and> j \<le> length data then Inr (take (j - i) (drop i data)) else Inl Malformed)"

definition be16 :: "bytes \<Rightarrow> nat \<Rightarrow> parse_error + u16" where
  "be16 data i = and_then (fetch data i) (\<lambda>a. and_then (fetch data (i + 1)) (\<lambda>b. Inr (u16_of_be [a, b])))"

record fragment_key =
  fk_source :: ip_addr
  fk_destination :: ip_addr
  fk_proto :: u8
  fk_ident :: u32

datatype fragment = Whole | First fragment_key | Later fragment_key

datatype l4 = L4Ports u16 u16 u8 | L4Icmp u8 u16 nat | L4Other

record packet =
  pk_source :: ip_addr
  pk_destination :: ip_addr
  pk_proto :: u8
  pk_l4 :: l4
  pk_fragment :: fragment
  pk_len :: nat

definition MAX_EXT_HEADERS :: nat where "MAX_EXT_HEADERS = 8"

definition is_later :: "fragment \<Rightarrow> bool" where
  "is_later f \<longleftrightarrow> (case f of Later _ \<Rightarrow> True | _ \<Rightarrow> False)"

subsection \<open>The IP header\<close>

definition v4_fragment :: "ip_addr \<Rightarrow> ip_addr \<Rightarrow> u8 \<Rightarrow> u16 \<Rightarrow> u16 \<Rightarrow> fragment" where
  "v4_fragment src dst p flags ident =
     (let key = \<lparr>fk_source = src, fk_destination = dst, fk_proto = p, fk_ident = ucast ident\<rparr>
      in if flags AND 0x1fff \<noteq> 0 then Later key
         else if flags AND 0x2000 \<noteq> 0 then First key
         else Whole)"

definition v4_header :: "bytes \<Rightarrow> parse_error + (ip_addr \<times> ip_addr \<times> u8 \<times> nat \<times> fragment \<times> bytes)" where
  "v4_header data =
     and_then (fetch data 0) (\<lambda>b0. let ihl = unat (b0 AND 0x0f) * 4 in
     and_then (be16 data 2) (\<lambda>len. let total = unat len in
     if ihl < 20 \<or> total < ihl \<or> total > length data then Inl Malformed
     else and_then (slice data 0 total) (\<lambda>data.
     and_then (index_at data 9) (\<lambda>p.
     and_then (slice data 12 16) (\<lambda>src.
     and_then (slice data 16 20) (\<lambda>dst.
     and_then (be16 data 6) (\<lambda>flags.
     and_then (be16 data 4) (\<lambda>ident.
     let src = V4 (v4_of_octets src); dst = V4 (v4_of_octets dst)
     in Inr (src, dst, p, ihl, v4_fragment src dst p flags ident, data)))))))))"

definition v6_header :: "bytes \<Rightarrow> parse_error + (ip_addr \<times> ip_addr \<times> u8 \<times> nat \<times> fragment \<times> bytes)" where
  "v6_header data =
     (if length data < 40 then Inl Malformed
      else and_then (be16 data 4) (\<lambda>len. let total = 40 + unat len in
      if total > length data then Inl Malformed
      else and_then (slice data 0 total) (\<lambda>data.
      and_then (slice data 8 24) (\<lambda>src.
      and_then (slice data 24 40) (\<lambda>dst.
      and_then (index_at data 6) (\<lambda>p.
      Inr (V6 (v6_of_octets src), V6 (v6_of_octets dst), p, 40, Whole, data)))))))"

definition ip_header :: "bytes \<Rightarrow> parse_error + (ip_addr \<times> ip_addr \<times> u8 \<times> nat \<times> fragment \<times> bytes)" where
  "ip_header data =
     and_then (fetch data 0) (\<lambda>b0.
     if drop_bit 4 b0 = 4 then v4_header data
     else if drop_bit 4 b0 = 6 then v6_header data
     else Inl Malformed)"

subsection \<open>IPv6 extension headers\<close>

text \<open>
  What one header adds: its length, and the fragment it declares. The outer option is \<open>None\<close>
  when the protocol is not an extension header.
\<close>

definition ext_header ::
  "bytes \<Rightarrow> ip_addr \<Rightarrow> ip_addr \<Rightarrow> u8 \<Rightarrow> nat \<Rightarrow> fragment \<Rightarrow> (parse_error + (nat \<times> fragment)) option" where
  "ext_header data src dst p offset frag =
     (if p = 0 \<or> p = 43 \<or> p = 60
      then Some (and_then (fetch data (offset + 1)) (\<lambda>b. Inr ((unat b + 1) * 8, frag)))
      else if p = 51 then Some (and_then (fetch data (offset + 1)) (\<lambda>b. Inr ((unat b + 2) * 4, frag)))
      else if p = 44
      then Some (and_then (be16 data (offset + 2)) (\<lambda>field.
                 and_then (get_slice data (offset + 4) (offset + 8)) (\<lambda>ident.
                 and_then (fetch data offset) (\<lambda>next.
                 let key = \<lparr>fk_source = src, fk_destination = dst, fk_proto = next,
                            fk_ident = word_of_nat (be_decode ident)\<rparr>
                 in Inr (8, if drop_bit 3 field \<noteq> 0 then Later key
                            else if field AND 1 \<noteq> 0 then First key
                            else frag)))))
      else None)"

function walk ::
  "bytes \<Rightarrow> ip_addr \<Rightarrow> ip_addr \<Rightarrow> nat \<Rightarrow> u8 \<Rightarrow> nat \<Rightarrow> fragment \<Rightarrow> parse_error + (u8 \<times> nat \<times> fragment)" where
  "walk data src dst walked p offset frag =
     (case ext_header data src dst p offset frag of
        None \<Rightarrow> Inr (p, offset, frag)
      | Some r \<Rightarrow>
          and_then r (\<lambda>(header_len, frag).
          if walked + 1 > MAX_EXT_HEADERS then Inl Malformed
          else and_then (fetch data offset) (\<lambda>next.
               let offset = offset + header_len
               in if offset > length data then Inl Malformed
                  else if is_later frag then Inr (next, offset, frag)
                  else walk data src dst (walked + 1) next offset frag)))"
  by pat_completeness auto
termination
  by (relation "measure (\<lambda>(data, src, dst, walked, p, offset, frag). MAX_EXT_HEADERS - walked)") auto

declare walk.simps [simp del]

subsection \<open>The transport header\<close>

definition icmp_header :: "bytes \<Rightarrow> nat \<Rightarrow> parse_error + l4" where
  "icmp_header data offset =
     and_then (be16 data (offset + 6)) (\<lambda>_.
     and_then (index_at data offset) (\<lambda>kind.
     and_then (be16 data (offset + 4)) (\<lambda>ident.
     Inr (L4Icmp kind ident (offset + 8)))))"

definition l4_header :: "bytes \<Rightarrow> ip_addr \<Rightarrow> u8 \<Rightarrow> nat \<Rightarrow> fragment \<Rightarrow> bool \<Rightarrow> parse_error + l4" where
  "l4_header data src p offset frag embedded =
     (if is_later frag then Inr L4Other
      else if p = TCP
      then (if \<not> embedded \<and> length data < offset + 20 then Inl Malformed
            else and_then (be16 data offset) (\<lambda>sport.
                 and_then (be16 data (offset + 2)) (\<lambda>dport.
                 Inr (L4Ports sport dport (if offset + 13 < length data then data ! (offset + 13) else 0)))))
      else if p = UDP
      then and_then (be16 data (offset + 6)) (\<lambda>_.
           and_then (be16 data offset) (\<lambda>sport.
           and_then (be16 data (offset + 2)) (\<lambda>dport.
           Inr (L4Ports sport dport 0))))
      else if p = ICMP \<and> is_ipv4 src then icmp_header data offset
      else if p = ICMPV6 \<and> is_ipv6 src then icmp_header data offset
      else Inr L4Other)"

definition parse_packet :: "bytes \<Rightarrow> bool \<Rightarrow> parse_error + packet" where
  "parse_packet data embedded =
     and_then (ip_header data) (\<lambda>(src, dst, p, offset, frag, data).
     and_then (if is_ipv6 src then walk data src dst 0 p offset frag else Inr (p, offset, frag))
       (\<lambda>(p, offset, frag).
     and_then (l4_header data src p offset frag embedded) (\<lambda>l4.
     Inr \<lparr>pk_source = src, pk_destination = dst, pk_proto = p, pk_l4 = l4, pk_fragment = frag,
          pk_len = length data\<rparr>)))"

definition parse :: "bytes \<Rightarrow> parse_error + packet" where
  "parse data = parse_packet data False"

definition set_bytes :: "bytes \<Rightarrow> nat \<Rightarrow> bytes \<Rightarrow> parse_error + bytes" where
  "set_bytes data i bs =
     (if i + length bs \<le> length data
      then Inr (take i data @ bs @ drop (i + length bs) data) else Inl Malformed)"

definition parse_embedded :: "bytes \<Rightarrow> parse_error + packet" where
  "parse_embedded data =
     and_then (fetch data 0) (\<lambda>b0.
     and_then (if drop_bit 4 b0 = 4
          then (if length data < 65536
                then and_then (set_bytes data 2 (u16_be (word_of_nat (length data)))) (\<lambda>data. set_bytes data 6 [0, 0])
                else Inl Malformed)
          else if drop_bit 4 b0 = 6
          then (if 40 \<le> length data \<and> length data - 40 < 65536
                then set_bytes data 4 (u16_be (word_of_nat (length data - 40)))
                else Inl Malformed)
          else Inl Malformed) (\<lambda>data.
     and_then (parse_packet data True) (\<lambda>pk. Inr (pk\<lparr>pk_fragment := Whole\<rparr>))))"

definition is_echo_request :: "u8 \<Rightarrow> u8 \<Rightarrow> bool" where
  "is_echo_request p kind \<longleftrightarrow> (p = ICMP \<and> kind = 8) \<or> (p = ICMPV6 \<and> kind = 128)"

definition is_echo :: "u8 \<Rightarrow> u8 \<Rightarrow> bool" where
  "is_echo p kind \<longleftrightarrow>
     is_echo_request p kind \<or> (p = ICMP \<and> kind = 0) \<or> (p = ICMPV6 \<and> kind = 129)"

definition is_error :: "u8 \<Rightarrow> u8 \<Rightarrow> bool" where
  "is_error p kind \<longleftrightarrow>
     (p = ICMP \<and> (kind = 3 \<or> kind = 11 \<or> kind = 12)) \<or> (p = ICMPV6 \<and> 1 \<le> kind \<and> kind \<le> 4)"

subsection \<open>No panics\<close>

lemma checked_reads [simp]:
  "fetch data i \<noteq> Inl Panic" "be16 data i \<noteq> Inl Panic" "get_slice data i j \<noteq> Inl Panic"
  "set_bytes data i bs \<noteq> Inl Panic"
  by (auto simp: fetch_def be16_def get_slice_def set_bytes_def)

lemma in_range_reads [simp]:
  "i < length data \<Longrightarrow> index_at data i = Inr (data ! i)"
  "i \<le> j \<Longrightarrow> j \<le> length data \<Longrightarrow> slice data i j = Inr (take (j - i) (drop i data))"
  by (simp_all add: index_at_def slice_def)

lemma be16_bound: "be16 data i = Inr w \<Longrightarrow> i + 1 < length data"
  by (auto simp: be16_def fetch_def and_then_Inr split: if_splits)

lemma v4_header_no_panic: "v4_header data \<noteq> Inl Panic"
  by (auto simp: v4_header_def and_then_Inl Let_def)

lemma v6_header_no_panic: "v6_header data \<noteq> Inl Panic"
  by (auto simp: v6_header_def and_then_Inl Let_def)

lemma ip_header_no_panic: "ip_header data \<noteq> Inl Panic"
  by (auto simp: ip_header_def and_then_Inl v4_header_no_panic v6_header_no_panic)

lemma ext_header_no_panic: "ext_header data src dst p offset frag \<noteq> Some (Inl Panic)"
  by (auto simp: ext_header_def and_then_Inl Let_def)

lemma walk_no_panic: "walk data src dst walked p offset frag \<noteq> Inl Panic"
proof (induction data src dst walked p offset frag rule: walk.induct)
  case (1 data src dst walked p offset frag)
  then show ?case
    using ext_header_no_panic [of data src dst p offset frag]
    by (subst walk.simps) (auto simp: and_then_Inl Let_def split: option.splits if_splits)
qed

lemma icmp_header_no_panic: "icmp_header data offset \<noteq> Inl Panic"
  by (auto simp: icmp_header_def and_then_Inl dest!: be16_bound)

lemma l4_header_no_panic: "l4_header data src p offset frag embedded \<noteq> Inl Panic"
  by (auto simp: l4_header_def and_then_Inl icmp_header_no_panic)

lemma parse_packet_no_panic: "parse_packet data embedded \<noteq> Inl Panic"
  by (auto simp: parse_packet_def and_then_Inl ip_header_no_panic walk_no_panic l4_header_no_panic split: if_splits)

text \<open>
  C28. No input makes the packet parser panic: every direct index and slice it takes is in range,
  for whole packets and for the packets quoted inside ICMP errors.
\<close>

theorem parse_never_panics: "parse data \<noteq> Inl Panic \<and> parse_embedded data \<noteq> Inl Panic"
  by (auto simp: parse_def parse_embedded_def and_then_Inl parse_packet_no_panic split: if_splits)

subsection \<open>Only the declared length counts\<close>

lemma fetch_prefix: "i < n \<Longrightarrow> n \<le> length data \<Longrightarrow> fetch (take n data @ t) i = fetch data i"
  by (simp add: fetch_def nth_append)

lemma be16_prefix: "i + 1 < n \<Longrightarrow> n \<le> length data \<Longrightarrow> be16 (take n data @ t) i = be16 data i"
  by (simp add: be16_def fetch_prefix)

lemma header_data:
  "ip_header data = Inr (src, dst, p, offset, frag, data') \<Longrightarrow>
    data' = take (length data') data \<and> 20 \<le> length data' \<and> offset \<le> length data' \<and> length data' \<le> length data
    \<and> (is_ipv6 src \<longrightarrow> frag = Whole)"
  by (auto simp: ip_header_def v4_header_def v6_header_def and_then_Inr Let_def split: if_splits)

lemma header_prefix:
  assumes "ip_header data = Inr (src, dst, p, offset, frag, data')"
  shows "ip_header (take (length data') data @ t) = Inr (src, dst, p, offset, frag, data')"
proof -
  let ?n = "length data'" and ?d = "take (length data') data @ t"
  have n: "20 \<le> ?n" "?n \<le> length data" using header_data [OF assms] by auto
  have f: "fetch ?d 0 = fetch data 0" "be16 ?d 2 = be16 data 2" "be16 ?d 4 = be16 data 4"
    using n by (auto intro!: fetch_prefix be16_prefix)
  have slice: "m \<le> ?n \<Longrightarrow> slice ?d 0 m = slice data 0 m" for m
    using n by (auto simp: slice_def)
  show ?thesis
  proof (cases "\<exists>b0. fetch data 0 = Inr b0 \<and> drop_bit 4 b0 = 4")
    case True
    then have v4: "v4_header data = Inr (src, dst, p, offset, frag, data')" and eq: "ip_header ?d = v4_header ?d"
      using assms f(1) by (auto simp: ip_header_def)
    then obtain len where "be16 data 2 = Inr len" "unat len = ?n"
      by (auto simp: v4_header_def and_then_Inr Let_def split: if_splits)
    then show ?thesis
      using v4 f slice [of "unat len"] n unfolding eq
      by (auto simp: v4_header_def Let_def and_then_Inr split: if_splits)
  next
    case False
    then have v6: "v6_header data = Inr (src, dst, p, offset, frag, data')" and eq: "ip_header ?d = v6_header ?d"
      using assms f(1) by (auto simp: ip_header_def and_then_Inr split: if_splits)
    then obtain len where "be16 data 4 = Inr len" "40 + unat len = ?n"
      by (auto simp: v6_header_def and_then_Inr Let_def split: if_splits)
    moreover have "data' ! 6 = data ! 6"
      using header_data [OF assms] n nth_take [of 6 ?n data] by simp
    ultimately show ?thesis
      using v6 f slice [of "40 + unat len"] n unfolding eq
      by (auto simp: v6_header_def Let_def and_then_Inr split: if_splits)
  qed
qed

text \<open>
  What follows the length an IP header declares has no influence: the parsed packet is no
  longer than the data, and replacing everything behind it by any bytes gives the same packet.
\<close>

theorem parse_ignores_trailer:
  assumes "parse data = Inr pk"
  shows "pk_len pk \<le> length data \<and> parse (take (pk_len pk) data @ trailer) = Inr pk"
proof -
  from assms obtain src dst p offset frag data' where
    h: "ip_header data = Inr (src, dst, p, offset, frag, data')"
    by (auto simp: parse_def parse_packet_def and_then_Inr)
  then have len: "pk_len pk = length data'"
    using assms by (auto simp: parse_def parse_packet_def and_then_Inr split: if_splits)
  show ?thesis
    using header_data [OF h] header_prefix [OF h, of trailer] assms h
    unfolding len by (auto simp: parse_def parse_packet_def)
qed

subsection \<open>A built packet parses back\<close>

text \<open>An IPv4 datagram without options or fragmentation, as a sender lays it out.\<close>

definition ipv4_packet :: "u8 \<Rightarrow> u16 \<Rightarrow> u8 \<Rightarrow> u16 \<Rightarrow> u8 \<Rightarrow> u32 \<Rightarrow> u32 \<Rightarrow> bytes \<Rightarrow> bytes" where
  "ipv4_packet tos ident ttl checksum p src dst payload =
     [0x45, tos] @ u16_be (word_of_nat (20 + length payload)) @ u16_be ident @ [0, 0, ttl, p]
     @ u16_be checksum @ v4_octets src @ v4_octets dst @ payload"

definition udp_datagram :: "u16 \<Rightarrow> u16 \<Rightarrow> u16 \<Rightarrow> bytes \<Rightarrow> bytes" where
  "udp_datagram sport dport checksum payload =
     u16_be sport @ u16_be dport @ u16_be (word_of_nat (8 + length payload)) @ u16_be checksum @ payload"

lemma length_2E:
  assumes "length xs = 2"
  obtains a b where "xs = [a, b]"
  using assms by (auto simp: length_Suc_conv eval_nat_numeral)

lemma ipv4_packet_header:
  assumes "20 + length payload < 65536"
  shows "ip_header (ipv4_packet tos ident ttl checksum p src dst payload) =
    Inr (V4 src, V4 dst, p, 20, Whole, ipv4_packet tos ident ttl checksum p src dst payload)"
proof -
  define len :: u16 where "len = word_of_nat (20 + length payload)"
  obtain l0 l1 where l: "u16_be len = [l0, l1]" using length_2E [OF octets_length(3)] by blast
  obtain i0 i1 where i: "u16_be ident = [i0, i1]" using length_2E [OF octets_length(3)] by blast
  obtain c0 c1 where c: "u16_be checksum = [c0, c1]" using length_2E [OF octets_length(3)] by blast
  obtain s0 s1 s2 s3 where s: "v4_octets src = [s0, s1, s2, s3]" using length_4E [OF octets_length(1)] by blast
  obtain d0 d1 d2 d3 where d: "v4_octets dst = [d0, d1, d2, d3]" using length_4E [OF octets_length(1)] by blast
  have len: "u16_of_be [l0, l1] = len" "unat len = 20 + length payload"
    using u16_of_be_inverse [of len] l assms
    by (simp, simp add: len_def unat_of_nat del: of_nat_add)
  have a: "v4_of_octets [s0, s1, s2, s3] = src" "v4_of_octets [d0, d1, d2, d3] = dst"
    using v4_of_octets_inverse [of src] v4_of_octets_inverse [of dst] s d by simp_all
  have z: "u16_of_be [0, 0] = 0" by (simp add: u16_of_be_def be_decode_def)
  have bits: "drop_bit 4 (0x45 :: u8) = 4" "unat (0x45 AND 0x0f :: u8) = 5" by simp_all
  show ?thesis
    unfolding ipv4_packet_def len_def [symmetric] l i c s d
    using len a z bits
    by (simp add: ip_header_def v4_header_def fetch_def be16_def index_at_def slice_def v4_fragment_def Let_def)
qed

text \<open>
  A UDP datagram in an IPv4 packet parses back to exactly its addresses, ports and length.
\<close>

theorem udp4_parses:
  assumes "28 + length payload < 65536"
  shows "parse (ipv4_packet tos ident ttl checksum UDP src dst (udp_datagram sport dport ucheck payload)) =
    Inr \<lparr>pk_source = V4 src, pk_destination = V4 dst, pk_proto = UDP, pk_l4 = L4Ports sport dport 0,
         pk_fragment = Whole, pk_len = 28 + length payload\<rparr>"
proof -
  let ?u = "udp_datagram sport dport ucheck payload"
  let ?d = "ipv4_packet tos ident ttl checksum UDP src dst ?u"
  have lu: "length ?u = 8 + length payload" by (simp add: udp_datagram_def)
  have ld: "length ?d = 28 + length payload" by (simp add: ipv4_packet_def lu)
  have nth: "?d ! (20 + k) = ?u ! k" for k
    by (simp add: ipv4_packet_def nth_append)
  obtain a0 a1 where a: "u16_be sport = [a0, a1]" using length_2E [OF octets_length(3)] by blast
  obtain b0 b1 where b: "u16_be dport = [b0, b1]" using length_2E [OF octets_length(3)] by blast
  have ports: "u16_of_be [a0, a1] = sport" "u16_of_be [b0, b1] = dport"
    using u16_of_be_inverse [of sport] u16_of_be_inverse [of dport] a b by simp_all
  have u: "?u ! 0 = a0" "?u ! 1 = a1" "?u ! 2 = b0" "?u ! 3 = b1"
    by (simp_all add: udp_datagram_def a b)
  have d: "?d ! 20 = a0" "?d ! 21 = a1" "?d ! 22 = b0" "?d ! 23 = b1"
    using nth [of 0] nth [of 1] nth [of 2] nth [of 3] u by simp_all
  have "l4_header ?d (V4 src) UDP 20 Whole False = Inr (L4Ports sport dport 0)"
    using d ports by (simp add: l4_header_def is_later_def be16_def fetch_def ld)
  then show ?thesis
    using ipv4_packet_header [of ?u tos ident ttl checksum UDP src dst] assms
    by (simp add: parse_def parse_packet_def lu ld)
qed

theorem udp4_parses_witness:
  "parse (ipv4_packet 0 7 64 0 UDP 0x0A000001 0x0A000002 (udp_datagram 53 5353 0 [1, 2, 3])) =
    Inr \<lparr>pk_source = V4 0x0A000001, pk_destination = V4 0x0A000002, pk_proto = UDP,
         pk_l4 = L4Ports 53 5353 0, pk_fragment = Whole, pk_len = 31\<rparr>"
  using udp4_parses [of "[1, 2, 3]" 0 7 64 0 "0x0A000001" "0x0A000002" 53 5353 0] by simp

theorem parse_ignores_trailer_witness:
  "\<exists>pk. parse (ipv4_packet 0 7 64 0 UDP 1 2 (udp_datagram 53 5353 0 []) @ [9]) = Inr pk \<and> pk_len pk = 28"
proof -
  let ?d = "ipv4_packet 0 7 64 0 UDP 1 2 (udp_datagram 53 5353 0 [])"
  obtain pk where pk: "parse ?d = Inr pk" "pk_len pk = 28"
    using ipv4_packet_header [of "udp_datagram 53 5353 0 []" 0 7 64 0 UDP 1 2]
    by (auto simp: parse_def parse_packet_def l4_header_def is_later_def be16_def fetch_def ipv4_packet_def
        udp_datagram_def)
  have "take 28 ?d = ?d" by (simp add: ipv4_packet_def udp_datagram_def)
  with parse_ignores_trailer [OF pk(1), of "[9]"] pk show ?thesis by auto
qed

end
