(* ===== verification/Flow_Events.thy ===== *)
theory Flow_Events
  imports Filter_Policy
begin

section \<open>Flow events (\<open>blaktail-ios-wg/src/flow_events.rs\<close>)\<close>

text \<open>
  The event a tracked flow reports, the bounded buffer between uploads and the batch builder. The
  per-flow sampling draw hashes with the \<open>sha2\<close> crate and compares in \<open>f64\<close>; the batch
  builder takes its outcome as a predicate on the flow id.
\<close>

definition MAX_BATCH :: nat where "MAX_BATCH = 1000"
definition MAX_BUFFERED :: nat where "MAX_BUFFERED = 4096"
definition MAX_WINDOW_SECS :: int where "MAX_WINDOW_SECS = 3600"

datatype event_kind = KStart | KEnd | KDrop

datatype direction = Inward | Outward

record flow_event =
  fe_flow_id :: string
  fe_kind :: event_kind
  fe_at :: int
  fe_direction :: direction
  fe_protocol :: string
  fe_protocol_number :: "u8 option"
  fe_icmp_type :: "u8 option"
  fe_icmp_code :: "u8 option"
  fe_src_ip :: string
  fe_src_port :: u16
  fe_dst_ip :: string
  fe_dst_port :: u16
  fe_peer_id :: "string option"
  fe_connection_type :: string
  fe_rx_bytes :: nat
  fe_tx_bytes :: nat
  fe_rx_packets :: nat
  fe_tx_packets :: nat
  fe_rule_hint :: "string option"
  fe_aggregated :: bool

definition protocol :: "u8 \<Rightarrow> string \<times> u8 option" where
  "protocol number =
     (if number = 6 then (''tcp'', None)
      else if number = 17 then (''udp'', None)
      else if number = 1 then (''icmp'', None)
      else if number = 58 then (''icmpv6'', None)
      else (''other'', Some number))"

definition event ::
  "string \<Rightarrow> event_kind \<Rightarrow> int \<Rightarrow> direction \<Rightarrow> u8 \<Rightarrow> ip_addr \<times> u16 \<Rightarrow> ip_addr \<times> u16 \<Rightarrow> (u8 \<times> u8) option
     \<Rightarrow> flow_event" where
  "event flow_id kind at_time dir p source destination icmp =
     (let (label, number) = protocol p;
          ports = (label = ''tcp'' \<or> label = ''udp'');
          icmp = (if label = ''icmp'' \<or> label = ''icmpv6''
                  then Some (case icmp of
                               Some tc \<Rightarrow> tc
                             | None \<Rightarrow> if label = ''icmp'' then (8, 0) else (128, 0))
                  else None)
      in \<lparr>fe_flow_id = flow_id, fe_kind = kind, fe_at = at_time, fe_direction = dir,
          fe_protocol = label, fe_protocol_number = number,
          fe_icmp_type = map_option fst icmp, fe_icmp_code = map_option snd icmp,
          fe_src_ip = show_ip (fst source), fe_src_port = (if ports then snd source else 0),
          fe_dst_ip = show_ip (fst destination), fe_dst_port = (if ports then snd destination else 0),
          fe_peer_id = None, fe_connection_type = ''p2p'',
          fe_rx_bytes = 0, fe_tx_bytes = 0, fe_rx_packets = 0, fe_tx_packets = 0,
          fe_rule_hint = None, fe_aggregated = False\<rparr>)"

definition uploadable :: "flow_event \<Rightarrow> bool" where
  "uploadable e \<longleftrightarrow>
     (if fe_protocol e = ''tcp'' \<or> fe_protocol e = ''udp''
      then fe_dst_port e \<noteq> 0 \<and> (fe_src_port e \<noteq> 0 \<or> fe_aggregated e)
      else True)"

subsection \<open>The buffer\<close>

record buffer =
  bu_events :: "flow_event list"
  bu_overflow :: u64

definition buffer_default :: buffer where
  "buffer_default = \<lparr>bu_events = [], bu_overflow = 0\<rparr>"

definition buffer_push :: "buffer \<Rightarrow> flow_event \<Rightarrow> buffer" where
  "buffer_push b e =
     (let b = (if length (bu_events b) \<ge> MAX_BUFFERED
               then b\<lparr>bu_events := tl (bu_events b), bu_overflow := bu_overflow b + 1\<rparr> else b)
      in b\<lparr>bu_events := bu_events b @ [e]\<rparr>)"

definition buffer_clear :: "buffer \<Rightarrow> buffer" where
  "buffer_clear b = b\<lparr>bu_events := [], bu_overflow := 0\<rparr>"

definition buffer_take :: "buffer \<Rightarrow> nat \<Rightarrow> flow_event list \<times> buffer" where
  "buffer_take b n =
     (let count = min (length (bu_events b)) n
      in (take count (bu_events b), b\<lparr>bu_events := drop count (bu_events b)\<rparr>))"

definition push_all :: "buffer \<Rightarrow> flow_event list \<Rightarrow> buffer" where
  "push_all b es = foldl buffer_push b es"

lemma buffer_push_length: "length (bu_events b) \<le> MAX_BUFFERED \<Longrightarrow> length (bu_events (buffer_push b e)) \<le> MAX_BUFFERED"
  by (auto simp: buffer_push_def Let_def MAX_BUFFERED_def)

lemma push_all_length: "length (bu_events b) \<le> MAX_BUFFERED \<Longrightarrow> length (bu_events (push_all b es)) \<le> MAX_BUFFERED"
  unfolding push_all_def by (induction es arbitrary: b) (auto simp: buffer_push_length)

subsection \<open>The queue keeps the newest events\<close>

text \<open>The abstract queue: everything pushed, cut to its newest entries.\<close>

definition newest :: "nat \<Rightarrow> 'a list \<Rightarrow> 'a list" where
  "newest n xs = drop (length xs - n) xs"

lemma newest_snoc: "0 < n \<Longrightarrow> newest n (xs @ [x]) = (if length xs \<ge> n then tl (newest n xs) else newest n xs) @ [x]"
  by (auto simp: newest_def tl_drop drop_Suc [symmetric] Suc_diff_le)

lemma newest_length: "length (newest n xs) = min n (length xs)"
  by (simp add: newest_def)

lemma push_all_newest:
  assumes "length (bu_events b) \<le> MAX_BUFFERED"
  shows "bu_events (push_all b es) = newest MAX_BUFFERED (bu_events b @ es)"
  using assms
proof (induction es rule: rev_induct)
  case Nil
  then show ?case by (simp add: push_all_def newest_def)
next
  case (snoc e es)
  have "bu_events (push_all b (es @ [e])) = bu_events (buffer_push (push_all b es) e)"
    by (simp add: push_all_def)
  also have "\<dots> = newest MAX_BUFFERED ((bu_events b @ es) @ [e])"
    using snoc newest_snoc [of MAX_BUFFERED "bu_events b @ es" e]
    by (auto simp: buffer_push_def Let_def newest_length MAX_BUFFERED_def)
  finally show ?case by simp
qed

text \<open>
  C37. The event buffer refines a bounded queue: after any sequence of pushes and takes it holds
  exactly the newest 4096 of the events pushed behind those still held, oldest first, and a take
  removes and returns the oldest ones in order. Nothing is lost or reordered before the bound is
  reached.
\<close>

theorem buffer_is_bounded_queue:
  assumes "length (bu_events b) \<le> 4096"
  shows "bu_events (push_all b es) = newest 4096 (bu_events b @ es)
    \<and> fst (buffer_take (push_all b es) n) @ bu_events (snd (buffer_take (push_all b es) n)) = newest 4096 (bu_events b @ es)
    \<and> length (fst (buffer_take (push_all b es) n)) = min n (length (newest 4096 (bu_events b @ es)))"
  using push_all_newest [of b es] assms by (simp add: buffer_take_def Let_def MAX_BUFFERED_def)

theorem buffer_is_bounded_queue_witness:
  "bu_events (push_all buffer_default [event ''f'' KStart 0 Inward 6 (V4 1, 1) (V4 2, 2) None]) =
     [event ''f'' KStart 0 Inward 6 (V4 1, 1) (V4 2, 2) None]"
  using buffer_is_bounded_queue [of buffer_default "[event ''f'' KStart 0 Inward 6 (V4 1, 1) (V4 2, 2) None]" 0]
  by (simp add: buffer_default_def newest_def)

subsection \<open>Uploads\<close>

record upload =
  up_org_id :: string
  up_window_start :: int
  up_window_end :: int
  up_events :: "flow_event list"

record window =
  wi_org_id :: string
  wi_device_id :: string
  wi_start :: int
  wi_end :: int
  wi_relayed_peers :: "string list"

text \<open>\<open>Ord::clamp\<close>; it panics when the bounds cross, which they never do in the builder below.\<close>

definition clamp :: "int \<Rightarrow> int \<Rightarrow> int \<Rightarrow> int" where
  "clamp x lo hi = (if x < lo then lo else if hi < x then hi else x)"

definition mark_event :: "window \<Rightarrow> int \<Rightarrow> int \<Rightarrow> flow_event \<Rightarrow> flow_event" where
  "mark_event w start stop e =
     (let e = e\<lparr>fe_at := clamp (fe_at e) start stop\<rparr>
      in if fe_connection_type e = ''p2p''
            \<and> (case fe_peer_id e of None \<Rightarrow> False | Some peer \<Rightarrow> peer \<in> set (wi_relayed_peers w))
         then e\<lparr>fe_connection_type := ''relay''\<rparr> else e)"

definition build_upload :: "(string \<Rightarrow> bool) \<Rightarrow> window \<Rightarrow> flow_event list \<Rightarrow> upload" where
  "build_upload drawn w es =
     (let stop = max (wi_end w) (wi_start w);
          start = max (max (wi_start w) (stop - MAX_WINDOW_SECS)) 0
      in \<lparr>up_org_id = wi_org_id w, up_window_start = start, up_window_end = stop,
          up_events = take MAX_BATCH
            (map (mark_event w start stop) (filter (\<lambda>e. drawn (fe_flow_id e)) (filter uploadable es)))\<rparr>)"

lemma clamp_bounds: "lo \<le> hi \<Longrightarrow> lo \<le> clamp x lo hi \<and> clamp x lo hi \<le> hi"
  by (auto simp: clamp_def)

lemma mark_event_simps:
  "uploadable (mark_event w a b e) = uploadable e" "fe_at (mark_event w a b e) = clamp (fe_at e) a b"
  by (simp_all add: mark_event_def Let_def uploadable_def)

text \<open>
  An upload is acceptable to the coordinator. For windows that do not lie before the epoch it
  spans at most an hour and does not end before it starts; it carries at most 1000 events, each
  with usable ports and a time inside the window.
\<close>

theorem upload_within_limits:
  assumes "0 \<le> wi_end w \<or> 0 \<le> wi_start w"
  shows "let u = build_upload drawn w es
    in 0 \<le> up_window_start u \<and> up_window_start u \<le> up_window_end u
       \<and> up_window_end u - up_window_start u \<le> 3600 \<and> length (up_events u) \<le> 1000
       \<and> (\<forall>e\<in>set (up_events u). uploadable e \<and> up_window_start u \<le> fe_at e \<and> fe_at e \<le> up_window_end u)"
proof -
  let ?stop = "max (wi_end w) (wi_start w)"
  let ?start = "max (max (wi_start w) (?stop - 3600)) 0"
  have u: "up_window_start (build_upload drawn w es) = ?start" "up_window_end (build_upload drawn w es) = ?stop"
    "up_events (build_upload drawn w es) = take 1000
       (map (mark_event w ?start ?stop) (filter (\<lambda>e. drawn (fe_flow_id e)) (filter uploadable es)))"
    by (simp_all add: build_upload_def Let_def MAX_BATCH_def MAX_WINDOW_SECS_def)
  have order: "?start \<le> ?stop" using assms by auto
  have "uploadable e \<and> ?start \<le> fe_at e \<and> fe_at e \<le> ?stop" if "e \<in> set (up_events (build_upload drawn w es))" for e
  proof -
    from that obtain e' where "e = mark_event w ?start ?stop e'" "uploadable e'"
      unfolding u(3) by (auto dest!: in_set_takeD)
    then show ?thesis using order clamp_bounds [OF order, of "fe_at e'"] by (simp only: mark_event_simps)
  qed
  moreover have "?stop - ?start \<le> 3600" "0 \<le> ?start" by linarith+
  moreover have "length (up_events (build_upload drawn w es)) \<le> 1000" by (simp add: u(3))
  ultimately show ?thesis
    using order unfolding Let_def u(1,2) by blast
qed

theorem upload_within_limits_witness:
  "up_window_start (build_upload (\<lambda>_. True)
     \<lparr>wi_org_id = [], wi_device_id = [], wi_start = 10, wi_end = 7300, wi_relayed_peers = []\<rparr> []) = 3700
   \<and> up_window_end (build_upload (\<lambda>_. True)
     \<lparr>wi_org_id = [], wi_device_id = [], wi_start = 10, wi_end = 7300, wi_relayed_peers = []\<rparr> []) \<le> 7300"
  using upload_within_limits [of "\<lparr>wi_org_id = [], wi_device_id = [], wi_start = 10, wi_end = 7300, wi_relayed_peers = []\<rparr>"
      "\<lambda>_. True" "[]"]
  by (simp add: build_upload_def Let_def MAX_WINDOW_SECS_def)

end
