(* ===== verification/Flow_Filter.thy ===== *)
theory Flow_Filter
  imports Packet_Parse Flow_Events "HOL-Library.Product_Lexorder" "HOL-Library.Option_ord"
    "HOL-Library.List_Lexorder" "HOL-Library.Char_ord"
begin

section \<open>Connection tracking (\<open>Filter\<close> in \<open>blaktail-ios-wg/src/filter.rs\<close>)\<close>

text \<open>
  The stateful packet filter: the flow table with its eviction queue, the fragment table, the
  traffic counters, the drop table and the event buffer, and every operation on them. Times are the
  \<open>now\<close> arguments of the code (seconds); \<open>epoch_unix\<close> and the wall-clock readings of
  \<open>set_traffic\<close> are inputs. Counters that the code increments with \<open>+= 1\<close> are
  \<open>u64\<close> words, those it saturates are naturals cut at \<open>u64::MAX\<close>.
\<close>

definition MAX_STATES :: nat where "MAX_STATES = 16384"
definition MAX_TRAFFIC_KEYS :: nat where "MAX_TRAFFIC_KEYS = 1024"
definition MAX_FRAGMENTS :: nat where "MAX_FRAGMENTS = 256"
definition MAX_PENDING_DROPS :: nat where "MAX_PENDING_DROPS = 512"
definition DYNAMIC_PORTS :: u16 where "DYNAMIC_PORTS = 49152"
definition TCP_NEW_SECS :: nat where "TCP_NEW_SECS = 120"
definition TCP_ESTABLISHED_SECS :: nat where "TCP_ESTABLISHED_SECS = 7200"
definition TCP_FIN_SECS :: nat where "TCP_FIN_SECS = 120"
definition TCP_RST_SECS :: nat where "TCP_RST_SECS = 10"
definition UDP_NEW_SECS :: nat where "UDP_NEW_SECS = 60"
definition UDP_REPLIED_SECS :: nat where "UDP_REPLIED_SECS = 180"
definition ICMP_SECS :: nat where "ICMP_SECS = 30"
definition OTHER_SECS :: nat where "OTHER_SECS = 600"
definition FRAGMENT_SECS :: nat where "FRAGMENT_SECS = 30"
definition PURGE_EVERY_SECS :: nat where "PURGE_EVERY_SECS = 10"

lemmas timeouts = TCP_NEW_SECS_def TCP_ESTABLISHED_SECS_def TCP_FIN_SECS_def TCP_RST_SECS_def
  UDP_NEW_SECS_def UDP_REPLIED_SECS_def ICMP_SECS_def OTHER_SECS_def

record flow_key =
  fl_proto :: u8
  fl_local :: ip_addr
  fl_remote :: ip_addr
  fl_local_port :: u16
  fl_remote_port :: u16

record flow_stats =
  fs_id :: u64
  fs_last_seen :: nat
  fs_rx_bytes :: nat
  fs_tx_bytes :: nat
  fs_rx_packets :: nat
  fs_tx_packets :: nat

record flow_state =
  st_initiator :: direction
  st_peer :: "string option"
  st_service_port :: u16
  st_replied :: bool
  st_expires :: nat
  st_generation :: u64
  st_flow :: "flow_stats option"

record drop_key =
  dk_source :: ip_addr
  dk_destination :: ip_addr
  dk_proto :: u8
  dk_source_port :: u16
  dk_destination_port :: u16

record traffic_key =
  tk_peer :: "string option"
  tk_direction :: direction
  tk_proto :: u8
  tk_port :: u16
  tk_allowed :: bool

record fragment_state =
  fr_allow :: bool
  fr_counter :: "traffic_key option"
  fr_expires :: nat

record counter =
  co_bytes :: nat
  co_packets :: nat

record traffic_sample =
  ts_peer_id :: "string option"
  ts_direction :: direction
  ts_proto :: string
  ts_port :: u16
  ts_decision :: string
  ts_bytes :: nat
  ts_packets :: nat

record traffic_report =
  tr_samples :: "traffic_sample list"
  tr_overflow :: u64

record flow_filter =
  fi_policy :: policy
  fi_states :: "(flow_key, flow_state) hmap"
  fi_order :: "(flow_key \<times> u64) list"
  fi_generation :: u64
  fi_fragments :: "(fragment_key, fragment_state) hmap"
  fi_traffic :: "(traffic_key, counter) hmap option"
  fi_overflow :: u64
  fi_last_purge :: nat
  fi_epoch_unix :: int
  fi_events :: "buffer option"
  fi_drops :: "(drop_key, flow_event) hmap"
  fi_drop_overflow :: u64
  fi_next_flow :: u64
  fi_instance :: u32
  fi_bucket_started :: int
  fi_events_since :: int

definition filter_new :: "int \<Rightarrow> u32 \<Rightarrow> flow_filter" where
  "filter_new epoch_unix inst =
     \<lparr>fi_policy = allow_all, fi_states = [], fi_order = [], fi_generation = 0, fi_fragments = [],
      fi_traffic = None, fi_overflow = 0, fi_last_purge = 0, fi_epoch_unix = epoch_unix,
      fi_events = None, fi_drops = [], fi_drop_overflow = 0, fi_next_flow = 0, fi_instance = inst,
      fi_bucket_started = 0, fi_events_since = 0\<rparr>"

definition proto_label :: "u8 \<Rightarrow> string" where
  "proto_label p =
     (if p = TCP then ''tcp'' else if p = UDP then ''udp''
      else if p = ICMP \<or> p = ICMPV6 then ''icmp'' else ''other'')"

definition port_class :: "u16 \<Rightarrow> u16" where
  "port_class port = min port DYNAMIC_PORTS"

subsection \<open>Counters and events\<close>

definition unix_at :: "flow_filter \<Rightarrow> nat \<Rightarrow> int" where
  "unix_at f now = fi_epoch_unix f + int now"

definition pad8 :: "string \<Rightarrow> string" where
  "pad8 s = replicate (8 - length s) (CHR ''0'') @ s"

definition flow_id :: "flow_filter \<Rightarrow> u64 \<Rightarrow> string" where
  "flow_id f n = ''u'' @ pad8 (show_nat 16 (unat (fi_instance f))) @ ''-'' @ show_nat 16 (unat n)"

definition flow_event_of ::
  "flow_filter \<Rightarrow> flow_key \<Rightarrow> flow_state \<Rightarrow> event_kind \<Rightarrow> int \<Rightarrow> flow_event option" where
  "flow_event_of f key st kind at_time =
     (case st_flow st of
        None \<Rightarrow> None
      | Some stats \<Rightarrow>
          (let local_end = (fl_local key, fl_local_port key);
               remote_end = (fl_remote key, fl_remote_port key);
               (source, destination) =
                 (case st_initiator st of
                    Inward \<Rightarrow> (remote_end, local_end)
                  | Outward \<Rightarrow> (local_end, remote_end));
               e = (event (flow_id f (fs_id stats)) kind at_time (st_initiator st) (fl_proto key)
                      source destination None)\<lparr>fe_peer_id := st_peer st\<rparr>
           in Some (if kind = KEnd
                    then e\<lparr>fe_rx_bytes := fs_rx_bytes stats, fe_tx_bytes := fs_tx_bytes stats,
                           fe_rx_packets := fs_rx_packets stats, fe_tx_packets := fs_tx_packets stats\<rparr>
                    else e)))"

definition emit :: "flow_filter \<Rightarrow> flow_event option \<Rightarrow> flow_filter" where
  "emit f e =
     (case (fi_events f, e) of
        (Some b, Some e) \<Rightarrow> f\<lparr>fi_events := Some (buffer_push b e)\<rparr>
      | _ \<Rightarrow> f)"

definition ended :: "flow_filter \<Rightarrow> flow_key \<times> flow_state \<Rightarrow> flow_filter" where
  "ended f ks =
     (case ks of
        (key, st) \<Rightarrow>
          if fi_events f = None then f
          else let at_time = unix_at f (case st_flow st of None \<Rightarrow> 0 | Some stats \<Rightarrow> fs_last_seen stats)
               in emit f (flow_event_of f key st KEnd at_time))"

definition drop_ports :: "l4 \<Rightarrow> u16 \<times> u16 \<times> u8 option" where
  "drop_ports l = (case l of L4Ports s d _ \<Rightarrow> (s, d, None) | L4Icmp kind _ _ \<Rightarrow> (0, 0, Some kind) | L4Other \<Rightarrow> (0, 0, None))"

definition dropped :: "flow_filter \<Rightarrow> packet \<Rightarrow> string option \<Rightarrow> string \<Rightarrow> nat \<Rightarrow> flow_filter" where
  "dropped f pk peer hint now =
     (if fi_events f = None then f
      else let (sport, dport, icmp) = drop_ports (pk_l4 pk);
               key = \<lparr>dk_source = pk_source pk, dk_destination = pk_destination pk, dk_proto = pk_proto pk,
                      dk_source_port = sport, dk_destination_port = dport\<rparr>
           in case hm_get (fi_drops f) key of
                Some e \<Rightarrow>
                  f\<lparr>fi_drops := hm_insert key
                      (e\<lparr>fe_rx_bytes := sat_add 64 (fe_rx_bytes e) (pk_len pk),
                         fe_rx_packets := sat_add 64 (fe_rx_packets e) 1\<rparr>) (fi_drops f)\<rparr>
              | None \<Rightarrow>
                  if length (fi_drops f) \<ge> MAX_PENDING_DROPS
                  then f\<lparr>fi_drop_overflow := fi_drop_overflow f + 1\<rparr>
                  else let f = f\<lparr>fi_next_flow := fi_next_flow f + 1\<rparr>;
                           e = (event (flow_id f (fi_next_flow f)) KDrop (unix_at f now) Inward (pk_proto pk)
                                  (pk_source pk, sport) (pk_destination pk, dport)
                                  (map_option (\<lambda>kind. (kind, 0)) icmp))
                               \<lparr>fe_peer_id := peer, fe_rule_hint := Some hint,
                                fe_rx_bytes := pk_len pk, fe_rx_packets := 1\<rparr>
                       in f\<lparr>fi_drops := hm_insert key e (fi_drops f)\<rparr>)"

definition count :: "flow_filter \<Rightarrow> traffic_key \<Rightarrow> nat \<Rightarrow> flow_filter" where
  "count f key len =
     (case fi_traffic f of
        None \<Rightarrow> f
      | Some traffic \<Rightarrow>
          if \<not> hm_contains traffic key \<and> length traffic \<ge> MAX_TRAFFIC_KEYS
          then f\<lparr>fi_overflow := fi_overflow f + 1\<rparr>
          else let c = (case hm_get traffic key of Some c \<Rightarrow> c | None \<Rightarrow> \<lparr>co_bytes = 0, co_packets = 0\<rparr>)
               in f\<lparr>fi_traffic := Some (hm_insert key
                      \<lparr>co_bytes = sat_add 64 (co_bytes c) len, co_packets = sat_add 64 (co_packets c) 1\<rparr> traffic)\<rparr>)"

definition count_unattributed :: "flow_filter \<Rightarrow> bytes \<Rightarrow> flow_filter" where
  "count_unattributed f data =
     count f \<lparr>tk_peer = None, tk_direction = Inward, tk_proto = 0, tk_port = 0, tk_allowed = False\<rparr>
       (length data)"

subsection \<open>Flow keys\<close>

definition inbound_key :: "packet \<Rightarrow> flow_key option" where
  "inbound_key pk =
     map_option (\<lambda>(lp, rp). \<lparr>fl_proto = pk_proto pk, fl_local = pk_destination pk, fl_remote = pk_source pk,
                             fl_local_port = lp, fl_remote_port = rp\<rparr>)
       (case pk_l4 pk of
          L4Ports source destination _ \<Rightarrow> Some (destination, source)
        | L4Icmp kind ident _ \<Rightarrow> if is_echo (pk_proto pk) kind then Some (ident, 0) else None
        | L4Other \<Rightarrow> Some (0, 0))"

definition outbound_key :: "packet \<Rightarrow> flow_key option" where
  "outbound_key pk =
     map_option (\<lambda>(lp, rp). \<lparr>fl_proto = pk_proto pk, fl_local = pk_source pk, fl_remote = pk_destination pk,
                             fl_local_port = lp, fl_remote_port = rp\<rparr>)
       (case pk_l4 pk of
          L4Ports source destination _ \<Rightarrow> Some (source, destination)
        | L4Icmp kind ident _ \<Rightarrow> if is_echo (pk_proto pk) kind then Some (ident, 0) else None
        | L4Other \<Rightarrow> Some (0, 0))"

definition service_port :: "packet \<Rightarrow> u16" where
  "service_port pk = (case pk_l4 pk of L4Ports _ destination _ \<Rightarrow> destination | _ \<Rightarrow> 0)"

definition initial_timeout :: "u8 \<Rightarrow> nat" where
  "initial_timeout p =
     (if p = TCP then TCP_NEW_SECS else if p = UDP then UDP_NEW_SECS
      else if p = ICMP \<or> p = ICMPV6 then ICMP_SECS else OTHER_SECS)"

definition touch_timeout :: "packet \<Rightarrow> bool \<Rightarrow> nat" where
  "touch_timeout pk replied =
     (if pk_proto pk = TCP
      then (case pk_l4 pk of
              L4Ports _ _ flags \<Rightarrow>
                if flags AND 0x04 \<noteq> 0 then TCP_RST_SECS
                else if flags AND 0x01 \<noteq> 0 then TCP_FIN_SECS
                else if replied then TCP_ESTABLISHED_SECS else TCP_NEW_SECS
            | _ \<Rightarrow> if replied then TCP_ESTABLISHED_SECS else TCP_NEW_SECS)
      else if pk_proto pk = UDP then (if replied then UDP_REPLIED_SECS else UDP_NEW_SECS)
      else if pk_proto pk = ICMP \<or> pk_proto pk = ICMPV6 then ICMP_SECS
      else OTHER_SECS)"

subsection \<open>The flow table\<close>

definition live_order :: "(flow_key, flow_state) hmap \<Rightarrow> (flow_key \<times> u64) list \<Rightarrow> (flow_key \<times> u64) list" where
  "live_order states ord =
     filter (\<lambda>(key, generation).
       case hm_get states key of Some st \<Rightarrow> st_generation st = generation | None \<Rightarrow> False) ord"

text \<open>The entries a retain removes that still report an end, in table order.\<close>

definition reported :: "(flow_key \<Rightarrow> flow_state \<Rightarrow> bool) \<Rightarrow> (flow_key, flow_state) hmap \<Rightarrow> (flow_key \<times> flow_state) list" where
  "reported keep states = filter (\<lambda>(key, st). \<not> keep key st \<and> st_flow st \<noteq> None) states"

definition purge :: "flow_filter \<Rightarrow> nat \<Rightarrow> flow_filter" where
  "purge f now =
     (let f = f\<lparr>fi_last_purge := now\<rparr>;
          keep = (\<lambda>_ st. st_expires st > now);
          gone = reported keep (fi_states f);
          f = f\<lparr>fi_states := hm_retain keep (fi_states f)\<rparr>;
          f = foldl ended f gone;
          f = f\<lparr>fi_fragments := hm_retain (\<lambda>_ e. fr_expires e > now) (fi_fragments f)\<rparr>
      in if length (fi_order f) > length (fi_states f) * 2 + 64
         then f\<lparr>fi_order := live_order (fi_states f) (fi_order f)\<rparr> else f)"

definition maybe_purge :: "flow_filter \<Rightarrow> nat \<Rightarrow> flow_filter" where
  "maybe_purge f now = (if now \<ge> fi_last_purge f + PURGE_EVERY_SECS then purge f now else f)"

fun evict :: "(flow_key \<times> u64) list \<Rightarrow> flow_filter \<Rightarrow> flow_filter" where
  "evict [] f = f\<lparr>fi_order := []\<rparr>"
| "evict ((oldest, generation) # rest) f =
     (if length (fi_states f) \<ge> MAX_STATES
      then evict rest
             (case hm_get (fi_states f) oldest of
                Some st \<Rightarrow>
                  if st_generation st = generation
                  then ended (f\<lparr>fi_states := hm_remove oldest (fi_states f)\<rparr>) (oldest, st) else f
              | None \<Rightarrow> f)
      else f\<lparr>fi_order := (oldest, generation) # rest\<rparr>)"

text \<open>The table an insertion starts from: purged when full, then evicted below the bound.\<close>

definition flow_room :: "flow_filter \<Rightarrow> nat \<Rightarrow> flow_filter" where
  "flow_room f now =
     (let f = (if length (fi_states f) \<ge> MAX_STATES \<and> now > fi_last_purge f then purge f now else f)
      in evict (fi_order f) f)"

definition insert_state :: "flow_filter \<Rightarrow> flow_key \<Rightarrow> flow_state \<Rightarrow> nat \<Rightarrow> flow_filter" where
  "insert_state f key st now =
     (let f = flow_room f now;
          f = f\<lparr>fi_generation := fi_generation f + 1\<rparr>;
          st = st\<lparr>st_generation := fi_generation f\<rparr>;
          (st, f) = (if fi_events f \<noteq> None
                     then let f = f\<lparr>fi_next_flow := fi_next_flow f + 1\<rparr>;
                              st = st\<lparr>st_flow := Some \<lparr>fs_id = fi_next_flow f, fs_last_seen = now, fs_rx_bytes = 0,
                                       fs_tx_bytes = 0, fs_rx_packets = 0, fs_tx_packets = 0\<rparr>\<rparr>
                          in (st, emit f (flow_event_of f key st KStart (unix_at f now)))
                     else (st, f));
          f = f\<lparr>fi_order := fi_order f @ [(key, fi_generation f)],
                fi_states := hm_insert key st (fi_states f)\<rparr>
      in if length (fi_order f) > MAX_STATES * 2
         then f\<lparr>fi_order := live_order (fi_states f) (fi_order f)\<rparr> else f)"

definition touch_stats :: "direction \<Rightarrow> nat \<Rightarrow> nat \<Rightarrow> flow_stats \<Rightarrow> flow_stats" where
  "touch_stats via len now stats =
     (let stats = stats\<lparr>fs_last_seen := now\<rparr>
      in if via = Inward
         then stats\<lparr>fs_rx_bytes := sat_add 64 (fs_rx_bytes stats) len,
                    fs_rx_packets := sat_add 64 (fs_rx_packets stats) 1\<rparr>
         else stats\<lparr>fs_tx_bytes := sat_add 64 (fs_tx_bytes stats) len,
                    fs_tx_packets := sat_add 64 (fs_tx_packets stats) 1\<rparr>)"

definition state_counter :: "flow_state \<Rightarrow> u8 \<Rightarrow> traffic_key" where
  "state_counter st p =
     \<lparr>tk_peer = st_peer st, tk_direction = st_initiator st, tk_proto = p,
      tk_port = port_class (st_service_port st), tk_allowed = True\<rparr>"

definition touched :: "flow_state \<Rightarrow> packet \<Rightarrow> direction \<Rightarrow> nat \<Rightarrow> flow_state" where
  "touched st pk via now =
     (let st = st\<lparr>st_flow := map_option (touch_stats via (pk_len pk) now) (st_flow st)\<rparr>;
          st = (if via \<noteq> st_initiator st then st\<lparr>st_replied := True\<rparr> else st)
      in st\<lparr>st_expires := now + touch_timeout pk (st_replied st)\<rparr>)"

definition touch :: "flow_filter \<Rightarrow> flow_key \<Rightarrow> packet \<Rightarrow> direction \<Rightarrow> nat \<Rightarrow> bool \<times> flow_filter" where
  "touch f key pk via now =
     (case hm_get (fi_states f) key of
        None \<Rightarrow> (False, f)
      | Some st \<Rightarrow>
          if st_expires st \<le> now
          then (False, ended (f\<lparr>fi_states := hm_remove key (fi_states f)\<rparr>) (key, st))
          else let st = touched st pk via now
               in (True, count (f\<lparr>fi_states := hm_insert key st (fi_states f)\<rparr>) (state_counter st (pk_proto pk))
                           (pk_len pk)))"

definition related :: "flow_filter \<Rightarrow> bytes \<Rightarrow> nat \<Rightarrow> nat \<Rightarrow> flow_state option" where
  "related f data body now =
     (if body \<le> length data
      then (case parse_embedded (drop body data) of
              Inl _ \<Rightarrow> None
            | Inr inner \<Rightarrow>
                (case outbound_key inner of
                   None \<Rightarrow> None
                 | Some key \<Rightarrow>
                     (case hm_get (fi_states f) key of
                        None \<Rightarrow> None
                      | Some st \<Rightarrow> if st_expires st > now then Some st else None)))
      else None)"

subsection \<open>Fragments\<close>

definition later_fragment :: "flow_filter \<Rightarrow> fragment_key \<Rightarrow> nat \<Rightarrow> nat \<Rightarrow> ip_addr \<Rightarrow> bool \<times> flow_filter" where
  "later_fragment f key len now src =
     (case (case hm_get (fi_fragments f) key of
              None \<Rightarrow> None | Some e \<Rightarrow> if fr_expires e > now then Some e else None) of
        Some e \<Rightarrow> (fr_allow e, case fr_counter e of None \<Rightarrow> f | Some c \<Rightarrow> count f c len)
      | None \<Rightarrow>
          (False, count f \<lparr>tk_peer = peer_for (fi_policy f) src, tk_direction = Inward, tk_proto = fk_proto key,
                           tk_port = 0, tk_allowed = False\<rparr> len))"

definition remember_fragment :: "flow_filter \<Rightarrow> packet \<Rightarrow> bool \<Rightarrow> traffic_key option \<Rightarrow> nat \<Rightarrow> flow_filter" where
  "remember_fragment f pk allow c now =
     (case pk_fragment pk of
        First key \<Rightarrow>
          (let f = (if length (fi_fragments f) \<ge> MAX_FRAGMENTS
                    then f\<lparr>fi_fragments := hm_retain (\<lambda>_ e. fr_expires e > now) (fi_fragments f)\<rparr> else f)
           in if length (fi_fragments f) \<ge> MAX_FRAGMENTS then f
              else f\<lparr>fi_fragments := hm_insert key
                       \<lparr>fr_allow = allow, fr_counter = c, fr_expires = now + FRAGMENT_SECS\<rparr> (fi_fragments f)\<rparr>)
      | _ \<Rightarrow> f)"

subsection \<open>Packets\<close>

definition fresh_state :: "direction \<Rightarrow> string option \<Rightarrow> u16 \<Rightarrow> u8 \<Rightarrow> nat \<Rightarrow> flow_state" where
  "fresh_state dir peer port p now =
     \<lparr>st_initiator = dir, st_peer = peer, st_service_port = port, st_replied = False,
      st_expires = now + initial_timeout p, st_generation = 0, st_flow = None\<rparr>"

definition decide_new :: "flow_filter \<Rightarrow> packet \<Rightarrow> flow_key option \<Rightarrow> nat \<Rightarrow> bool \<times> flow_filter" where
  "decide_new f pk key now =
     (let port = service_port pk;
          (allow, peer, hint) = decide_with_hint (fi_policy f) (pk_source pk) (pk_proto pk) port;
          f = (if \<not> allow then dropped f pk peer hint now else f);
          f = (case key of
                 Some key \<Rightarrow>
                   if allow
                   then snd (touch (insert_state f key (fresh_state Inward peer port (pk_proto pk) now) now)
                               key pk Inward now)
                   else f
               | None \<Rightarrow> f);
          c = \<lparr>tk_peer = peer, tk_direction = Inward, tk_proto = pk_proto pk, tk_port = port_class port,
               tk_allowed = allow\<rparr>;
          f = (if key = None \<or> \<not> allow then count f c (pk_len pk) else f)
      in (allow, remember_fragment f pk allow (Some c) now))"

definition icmp_related :: "flow_filter \<Rightarrow> packet \<Rightarrow> bytes \<Rightarrow> nat \<Rightarrow> flow_state option" where
  "icmp_related f pk data now =
     (case pk_l4 pk of
        L4Icmp kind _ body \<Rightarrow>
          if is_error (pk_proto pk) kind then related f (take (pk_len pk) data) body now else None
      | _ \<Rightarrow> None)"

definition no_flow :: "flow_filter \<Rightarrow> packet \<Rightarrow> bytes \<Rightarrow> flow_key option \<Rightarrow> nat \<Rightarrow> bool \<times> flow_filter" where
  "no_flow f pk data key now =
     (case icmp_related f pk data now of
        Some st \<Rightarrow>
          (let c = state_counter st (pk_proto pk);
               f = count f c (pk_len pk)
           in (True, remember_fragment f pk True (Some c) now))
      | None \<Rightarrow> decide_new f pk key now)"

definition filter_inbound :: "flow_filter \<Rightarrow> bytes \<Rightarrow> nat \<Rightarrow> bool \<times> flow_filter" where
  "filter_inbound f data now =
     (let f = maybe_purge f now
      in case parse data of
           Inl _ \<Rightarrow> (False, count_unattributed f data)
         | Inr pk \<Rightarrow>
             (case pk_fragment pk of
                Later key \<Rightarrow> later_fragment f key (pk_len pk) now (pk_source pk)
              | _ \<Rightarrow>
                  (let key = inbound_key pk;
                       (live, f) = (case key of None \<Rightarrow> (False, f) | Some key \<Rightarrow> touch f key pk Inward now)
                   in if live then (True, f) else no_flow f pk data key now)))"

definition filter_outbound :: "flow_filter \<Rightarrow> bytes \<Rightarrow> nat \<Rightarrow> flow_filter" where
  "filter_outbound f data now =
     (let f = maybe_purge f now
      in case parse data of
           Inl _ \<Rightarrow> f
         | Inr pk \<Rightarrow>
             (case pk_fragment pk of
                Later key \<Rightarrow>
                  (case (case hm_get (fi_fragments f) key of
                           None \<Rightarrow> None | Some e \<Rightarrow> if fr_expires e > now then fr_counter e else None) of
                     Some c \<Rightarrow> count f c (pk_len pk)
                   | None \<Rightarrow> f)
              | _ \<Rightarrow>
                  (case outbound_key pk of
                     None \<Rightarrow>
                       (let c = \<lparr>tk_peer = peer_for (fi_policy f) (pk_destination pk), tk_direction = Outward,
                                 tk_proto = pk_proto pk, tk_port = 0, tk_allowed = True\<rparr>
                        in remember_fragment (count f c (pk_len pk)) pk True (Some c) now)
                   | Some key \<Rightarrow>
                       (let (live, f) = touch f key pk Outward now;
                            f = (if live then f
                                 else snd (touch
                                        (insert_state f key
                                           (fresh_state Outward (peer_for (fi_policy f) (pk_destination pk))
                                              (service_port pk) (pk_proto pk) now) now)
                                        key pk Outward now))
                        in remember_fragment f pk True
                             (map_option (\<lambda>st. state_counter st (pk_proto pk)) (hm_get (fi_states f) key)) now))))"

subsection \<open>Control operations\<close>

definition set_policy :: "flow_filter \<Rightarrow> policy \<Rightarrow> flow_filter" where
  "set_policy f pol =
     (let keep = (\<lambda>key st. st_initiator st = Outward
                   \<or> fst (decide pol (fl_remote key) (fl_proto key) (st_service_port st)));
          gone = reported keep (fi_states f);
          f = f\<lparr>fi_policy := pol, fi_states := hm_retain keep (fi_states f)\<rparr>;
          f = foldl ended f gone
      in f\<lparr>fi_fragments := []\<rparr>)"

definition set_traffic :: "flow_filter \<Rightarrow> bool \<Rightarrow> int \<Rightarrow> flow_filter" where
  "set_traffic f enabled unix_seconds =
     (if \<not> enabled
      then f\<lparr>fi_traffic := None, fi_overflow := 0, fi_events := None, fi_drops := [], fi_drop_overflow := 0,
             fi_states := hm_map (\<lambda>st. st\<lparr>st_flow := None\<rparr>) (fi_states f)\<rparr>
      else if fi_traffic f = None
      then f\<lparr>fi_traffic := Some [], fi_events := Some buffer_default, fi_bucket_started := unix_seconds,
             fi_events_since := unix_seconds\<rparr>
      else f)"

definition take_events :: "flow_filter \<Rightarrow> flow_event list \<times> flow_filter" where
  "take_events f =
     (case fi_events f of
        None \<Rightarrow> ([], f)
      | Some b \<Rightarrow>
          (let b = push_all b (map snd (fi_drops f));
               (es, b) = buffer_take b MAX_BATCH
           in (es, f\<lparr>fi_drops := [], fi_events := Some b\<rparr>)))"

definition restore_events :: "flow_filter \<Rightarrow> flow_event list \<Rightarrow> flow_filter" where
  "restore_events f es =
     (case fi_events f of
        None \<Rightarrow> f
      | Some b \<Rightarrow> (let rest = bu_events b in f\<lparr>fi_events := Some (push_all (b\<lparr>bu_events := []\<rparr>) (es @ rest))\<rparr>))"

definition pending_events :: "flow_filter \<Rightarrow> nat" where
  "pending_events f = (case fi_events f of None \<Rightarrow> 0 | Some b \<Rightarrow> length (bu_events b)) + length (fi_drops f)"

definition sample_of :: "traffic_key \<times> counter \<Rightarrow> traffic_sample" where
  "sample_of kc =
     (case kc of (key, c) \<Rightarrow>
        \<lparr>ts_peer_id = tk_peer key, ts_direction = tk_direction key, ts_proto = proto_label (tk_proto key),
         ts_port = tk_port key, ts_decision = (if tk_allowed key then ''allowed'' else ''denied''),
         ts_bytes = co_bytes c, ts_packets = co_packets c\<rparr>)"

definition traffic_report_of :: "flow_filter \<Rightarrow> traffic_report" where
  "traffic_report_of f =
     \<lparr>tr_samples = sort_key (\<lambda>s. (ts_peer_id s, ts_proto s, ts_port s, ts_decision s))
        (map sample_of (case fi_traffic f of None \<Rightarrow> [] | Some t \<Rightarrow> t)),
      tr_overflow = fi_overflow f\<rparr>"

definition take_traffic :: "flow_filter \<Rightarrow> traffic_report \<times> flow_filter" where
  "take_traffic f =
     (traffic_report_of f, f\<lparr>fi_traffic := map_option (\<lambda>_. []) (fi_traffic f), fi_overflow := 0\<rparr>)"


subsection \<open>What each helper leaves alone\<close>

lemma emit_frame [simp]:
  "fi_states (emit f e) = fi_states f" "fi_order (emit f e) = fi_order f" "fi_policy (emit f e) = fi_policy f"
  "fi_fragments (emit f e) = fi_fragments f" "fi_drops (emit f e) = fi_drops f" "fi_traffic (emit f e) = fi_traffic f"
  "fi_generation (emit f e) = fi_generation f" "fi_last_purge (emit f e) = fi_last_purge f"
  by (auto simp: emit_def split: option.splits)

lemma ended_frame [simp]:
  "fi_states (ended f ks) = fi_states f" "fi_order (ended f ks) = fi_order f" "fi_policy (ended f ks) = fi_policy f"
  "fi_fragments (ended f ks) = fi_fragments f" "fi_drops (ended f ks) = fi_drops f"
  "fi_traffic (ended f ks) = fi_traffic f" "fi_generation (ended f ks) = fi_generation f"
  "fi_last_purge (ended f ks) = fi_last_purge f"
  by (simp_all add: ended_def Let_def split: prod.split)

lemma ended_all_frame [simp]:
  "fi_states (foldl ended f xs) = fi_states f" "fi_order (foldl ended f xs) = fi_order f"
  "fi_policy (foldl ended f xs) = fi_policy f" "fi_fragments (foldl ended f xs) = fi_fragments f"
  "fi_drops (foldl ended f xs) = fi_drops f" "fi_traffic (foldl ended f xs) = fi_traffic f"
  "fi_last_purge (foldl ended f xs) = fi_last_purge f"
  by (induction xs arbitrary: f) simp_all

lemma dropped_frame [simp]:
  "fi_states (dropped f pk peer hint now) = fi_states f" "fi_order (dropped f pk peer hint now) = fi_order f"
  "fi_policy (dropped f pk peer hint now) = fi_policy f" "fi_fragments (dropped f pk peer hint now) = fi_fragments f"
  "fi_traffic (dropped f pk peer hint now) = fi_traffic f" "fi_events (dropped f pk peer hint now) = fi_events f"
  by (simp_all add: dropped_def Let_def split: prod.split option.split)

lemma count_frame [simp]:
  "fi_states (count f k n) = fi_states f" "fi_order (count f k n) = fi_order f" "fi_policy (count f k n) = fi_policy f"
  "fi_fragments (count f k n) = fi_fragments f" "fi_drops (count f k n) = fi_drops f"
  "fi_events (count f k n) = fi_events f"
  by (simp_all add: count_def Let_def split: option.split)

lemma remember_fragment_frame [simp]:
  "fi_states (remember_fragment f pk a c now) = fi_states f" "fi_order (remember_fragment f pk a c now) = fi_order f"
  "fi_policy (remember_fragment f pk a c now) = fi_policy f" "fi_drops (remember_fragment f pk a c now) = fi_drops f"
  "fi_traffic (remember_fragment f pk a c now) = fi_traffic f"
  "fi_events (remember_fragment f pk a c now) = fi_events f"
  by (simp_all add: remember_fragment_def Let_def split: fragment.split)

lemma purge_frame [simp]:
  "fi_policy (purge f now) = fi_policy f" "fi_drops (purge f now) = fi_drops f"
  "fi_traffic (purge f now) = fi_traffic f"
  by (simp_all add: purge_def Let_def)

lemma maybe_purge_frame [simp]:
  "fi_policy (maybe_purge f now) = fi_policy f" "fi_drops (maybe_purge f now) = fi_drops f"
  "fi_traffic (maybe_purge f now) = fi_traffic f"
  by (simp_all add: maybe_purge_def)

lemma evict_frame [simp]:
  "fi_policy (evict ord f) = fi_policy f" "fi_fragments (evict ord f) = fi_fragments f"
  "fi_drops (evict ord f) = fi_drops f" "fi_traffic (evict ord f) = fi_traffic f"
  by (induction ord f rule: evict.induct) (auto split: option.splits)

lemma flow_room_frame [simp]:
  "fi_policy (flow_room f now) = fi_policy f" "fi_drops (flow_room f now) = fi_drops f"
  "fi_traffic (flow_room f now) = fi_traffic f"
  by (simp_all add: flow_room_def Let_def)

lemma insert_state_frame [simp]:
  "fi_policy (insert_state f k st now) = fi_policy f" "fi_drops (insert_state f k st now) = fi_drops f"
  "fi_traffic (insert_state f k st now) = fi_traffic f"
  by (simp_all add: insert_state_def Let_def)

lemma touch_frame [simp]:
  "fi_policy (snd (touch f k pk via now)) = fi_policy f" "fi_drops (snd (touch f k pk via now)) = fi_drops f"
  "fi_fragments (snd (touch f k pk via now)) = fi_fragments f" "fi_order (snd (touch f k pk via now)) = fi_order f"
  by (simp_all add: touch_def Let_def split: option.split)

subsection \<open>The tables stay bounded\<close>

text \<open>The report side: drop table, counters and event buffer.\<close>

definition reports_ok :: "flow_filter \<Rightarrow> bool" where
  "reports_ok f \<longleftrightarrow>
     hm_ok (fi_drops f) \<and> length (fi_drops f) \<le> MAX_PENDING_DROPS
     \<and> (case fi_traffic f of None \<Rightarrow> True | Some t \<Rightarrow> hm_ok t \<and> length t \<le> MAX_TRAFFIC_KEYS)
     \<and> (case fi_events f of None \<Rightarrow> True | Some b \<Rightarrow> length (bu_events b) \<le> MAX_BUFFERED)"

lemma emit_reports: "reports_ok f \<Longrightarrow> reports_ok (emit f e)"
  by (auto simp: reports_ok_def emit_def buffer_push_length split: option.splits)

lemma ended_reports: "reports_ok f \<Longrightarrow> reports_ok (ended f ks)"
  by (auto simp: ended_def Let_def emit_reports split: prod.split)

lemma ended_all_reports: "reports_ok f \<Longrightarrow> reports_ok (foldl ended f xs)"
  by (induction xs arbitrary: f) (auto simp: ended_reports)

lemma reports_ok_core [simp]:
  "reports_ok (f\<lparr>fi_states := a\<rparr>) = reports_ok f" "reports_ok (f\<lparr>fi_order := b\<rparr>) = reports_ok f"
  "reports_ok (f\<lparr>fi_fragments := c\<rparr>) = reports_ok f" "reports_ok (f\<lparr>fi_last_purge := d\<rparr>) = reports_ok f"
  "reports_ok (f\<lparr>fi_generation := e\<rparr>) = reports_ok f" "reports_ok (f\<lparr>fi_next_flow := g\<rparr>) = reports_ok f"
  "reports_ok (f\<lparr>fi_policy := h\<rparr>) = reports_ok f"
  by (simp_all add: reports_ok_def)

lemma dropped_reports: "reports_ok f \<Longrightarrow> reports_ok (dropped f pk peer hint now)"
  by (auto simp: dropped_def Let_def reports_ok_def alist.ok_ins alist.entries_ins split: prod.split option.splits)

lemma count_reports: "reports_ok f \<Longrightarrow> reports_ok (count f k n)"
  by (auto simp: count_def Let_def reports_ok_def alist.ok_ins alist.entries_ins hm_contains_def split: option.splits)

lemma purge_reports: "reports_ok f \<Longrightarrow> reports_ok (purge f now)"
  by (simp add: purge_def Let_def ended_all_reports)

lemma evict_reports: "reports_ok f \<Longrightarrow> reports_ok (evict ord f)"
  by (induction ord f rule: evict.induct) (auto simp: ended_reports split: option.splits)

lemma insert_state_reports: "reports_ok f \<Longrightarrow> reports_ok (insert_state f k st now)"
  by (simp add: insert_state_def flow_room_def Let_def emit_reports evict_reports purge_reports)

lemma touch_reports: "reports_ok f \<Longrightarrow> reports_ok (snd (touch f k pk via now))"
  by (auto simp: touch_def Let_def count_reports ended_reports split: option.split)

lemma remember_fragment_reports: "reports_ok f \<Longrightarrow> reports_ok (remember_fragment f pk a c now)"
  by (simp add: reports_ok_def)

text \<open>
  The flow side: every tracked flow has its entry in the eviction queue, so a full table always
  finds something to evict.
\<close>

definition queue_covers :: "(flow_key \<times> u64) list \<Rightarrow> flow_filter \<Rightarrow> bool" where
  "queue_covers ord f \<longleftrightarrow>
     hm_ok (fi_states f) \<and> (\<forall>k st. hm_get (fi_states f) k = Some st \<longrightarrow> (k, st_generation st) \<in> set ord)"

definition flows_indexed :: "flow_filter \<Rightarrow> bool" where
  "flows_indexed f \<longleftrightarrow> queue_covers (fi_order f) f"

definition table_ok :: "flow_filter \<Rightarrow> bool" where
  "table_ok f \<longleftrightarrow> flows_indexed f \<and> length (fi_states f) \<le> MAX_STATES"

lemma live_order_mem:
  "(k, g) \<in> set (live_order states ord) \<longleftrightarrow>
    (k, g) \<in> set ord \<and> (\<exists>st. hm_get states k = Some st \<and> st_generation st = g)"
  by (auto simp: live_order_def split: option.splits)

lemma flows_indexed_cong:
  "fi_states g = fi_states f \<Longrightarrow> fi_order g = fi_order f \<Longrightarrow> flows_indexed g = flows_indexed f"
  by (simp add: flows_indexed_def queue_covers_def)

lemma table_ok_cong:
  "fi_states g = fi_states f \<Longrightarrow> fi_order g = fi_order f \<Longrightarrow> table_ok g = table_ok f"
  by (simp add: table_ok_def flows_indexed_def queue_covers_def)

lemma purge_states: "fi_states (purge f now) = hm_retain (\<lambda>_ st. st_expires st > now) (fi_states f)"
  by (simp add: purge_def Let_def)

lemma purge_order:
  "fi_order (purge f now) = fi_order f \<or> fi_order (purge f now) = live_order (fi_states (purge f now)) (fi_order f)"
  by (simp add: purge_def Let_def)

lemma purge_indexed: "flows_indexed f \<Longrightarrow> flows_indexed (purge f now)"
  using purge_order [of f now]
  by (auto simp: flows_indexed_def queue_covers_def purge_states alist.ok_keep alist.get_keep_Some live_order_mem)

lemma purge_table:
  assumes "table_ok f"
  shows "table_ok (purge f now)"
proof -
  have "hm_ok (fi_states f)" using assms by (simp add: table_ok_def flows_indexed_def queue_covers_def)
  then show ?thesis
    using alist.entries_keep [of "fi_states f" "\<lambda>_ st. st_expires st > now"] assms
    by (simp add: table_ok_def purge_indexed purge_states)
qed

lemma maybe_purge_table: "table_ok f \<Longrightarrow> table_ok (maybe_purge f now)"
  by (simp add: maybe_purge_def purge_table)

text \<open>Eviction ends below the bound because an exhausted queue means an empty table.\<close>

lemma queue_covers_pop:
  assumes "queue_covers ((k, g) # rest) f"
  shows "queue_covers rest
    (case hm_get (fi_states f) k of
       Some st \<Rightarrow> if st_generation st = g then ended (f\<lparr>fi_states := hm_remove k (fi_states f)\<rparr>) (k, st) else f
     | None \<Rightarrow> f)"
proof (cases "hm_get (fi_states f) k")
  case None
  then have "(k', st_generation st) \<noteq> (k, g)" if "hm_get (fi_states f) k' = Some st" for k' st
    using that by auto
  with assms None show ?thesis by (fastforce simp: queue_covers_def)
next
  case (Some st)
  show ?thesis
  proof (cases "st_generation st = g")
    case True
    with assms Some show ?thesis by (auto simp: queue_covers_def alist.ok_del alist.get_del)
  next
    case False
    then have "(k', st_generation st') \<noteq> (k, g)" if "hm_get (fi_states f) k' = Some st'" for k' st'
      using that Some by auto
    with assms Some False show ?thesis by (fastforce simp: queue_covers_def)
  qed
qed

lemma evict_correct:
  "queue_covers ord f \<Longrightarrow> flows_indexed (evict ord f) \<and> length (fi_states (evict ord f)) < MAX_STATES"
proof (induction ord f rule: evict.induct)
  case (1 f)
  then have "hm_get (fi_states f) k = None" for k
    by (cases "hm_get (fi_states f) k") (auto simp: queue_covers_def)
  then have "hm_get (fi_states f) (fst (hd (fi_states f))) = None" by blast
  then have "fi_states f = []" by (cases "fi_states f") auto
  with 1 show ?case by (simp add: flows_indexed_def queue_covers_def MAX_STATES_def)
next
  case (2 k g rest f)
  show ?case
  proof (cases "length (fi_states f) \<ge> MAX_STATES")
    case True
    with "2.IH" [OF True queue_covers_pop [OF "2.prems"]] show ?thesis by simp
  next
    case False
    with "2.prems" show ?thesis by (simp add: flows_indexed_def queue_covers_def)
  qed
qed

lemma evict_states: "hm_get (fi_states (evict ord f)) k = Some st \<Longrightarrow> hm_get (fi_states f) k = Some st"
  by (induction ord f rule: evict.induct) (auto simp: alist.get_del split: option.splits if_splits)

lemma flow_room_ok:
  "flows_indexed f \<Longrightarrow> flows_indexed (flow_room f now) \<and> length (fi_states (flow_room f now)) < MAX_STATES"
  using purge_indexed [of f now] by (auto simp: flow_room_def Let_def flows_indexed_def [symmetric] intro!: evict_correct)

lemma flow_room_states:
  "hm_ok (fi_states f) \<Longrightarrow> hm_get (fi_states (flow_room f now)) k = Some st \<Longrightarrow> hm_get (fi_states f) k = Some st"
  by (auto simp: flow_room_def Let_def purge_states alist.get_keep_Some split: if_splits dest: evict_states)

lemma insert_state_states:
  "\<exists>flow. fi_states (insert_state f k st now) =
     hm_insert k (st\<lparr>st_generation := fi_generation (flow_room f now) + 1, st_flow := flow\<rparr>) (fi_states (flow_room f now))"
proof (cases "fi_events (flow_room f now)")
  case None
  have "st\<lparr>st_generation := g\<rparr> = st\<lparr>st_generation := g, st_flow := st_flow st\<rparr>" for g by simp
  with None show ?thesis
    by (intro exI [of _ "st_flow st"]) (simp add: insert_state_def Let_def)
next
  case (Some b)
  then show ?thesis
    by (intro exI [of _ "Some \<lparr>fs_id = fi_next_flow (flow_room f now) + 1, fs_last_seen = now, fs_rx_bytes = 0,
          fs_tx_bytes = 0, fs_rx_packets = 0, fs_tx_packets = 0\<rparr>"]) (simp add: insert_state_def Let_def)
qed

lemma insert_state_order:
  "let o' = fi_order (flow_room f now) @ [(k, fi_generation (flow_room f now) + 1)]
   in fi_order (insert_state f k st now) = o'
      \<or> fi_order (insert_state f k st now) = live_order (fi_states (insert_state f k st now)) o'"
  by (simp add: insert_state_def Let_def)

lemma insert_state_table: "flows_indexed f \<Longrightarrow> table_ok (insert_state f k st now)"
proof -
  assume "flows_indexed f"
  then have room: "flows_indexed (flow_room f now)" "length (fi_states (flow_room f now)) < MAX_STATES"
    using flow_room_ok by auto
  obtain flow where st: "fi_states (insert_state f k st now) =
     hm_insert k (st\<lparr>st_generation := fi_generation (flow_room f now) + 1, st_flow := flow\<rparr>) (fi_states (flow_room f now))"
    using insert_state_states by blast
  show ?thesis
    using room insert_state_order [of f now k st]
    by (auto simp: table_ok_def flows_indexed_def queue_covers_def st alist.ok_ins alist.get_ins alist.entries_ins live_order_mem
        Let_def split: if_splits)
qed

lemma touched_simps [simp]:
  "st_generation (touched st pk via now) = st_generation st" "st_initiator (touched st pk via now) = st_initiator st"
  "st_service_port (touched st pk via now) = st_service_port st" "st_peer (touched st pk via now) = st_peer st"
  by (simp_all add: touched_def Let_def)

lemma touch_table: "table_ok f \<Longrightarrow> table_ok (snd (touch f k pk via now))"
  by (auto simp: touch_def Let_def table_ok_def flows_indexed_def queue_covers_def alist.ok_ins alist.ok_del alist.get_ins
      alist.get_del alist.entries_ins alist.entries_del split: option.splits if_splits)

text \<open>The fragment table.\<close>

definition fragments_ok :: "flow_filter \<Rightarrow> bool" where
  "fragments_ok f \<longleftrightarrow> hm_ok (fi_fragments f) \<and> length (fi_fragments f) \<le> MAX_FRAGMENTS"

lemma purge_fragments: "fi_fragments (purge f now) = hm_retain (\<lambda>_ e. fr_expires e > now) (fi_fragments f)"
  by (simp add: purge_def Let_def)

lemma purge_fragments_ok: "fragments_ok f \<Longrightarrow> fragments_ok (purge f now)"
  using alist.entries_keep [of "fi_fragments f" "\<lambda>_ e. fr_expires e > now"]
  by (auto simp: fragments_ok_def purge_fragments alist.ok_keep)

lemma insert_state_fragments_ok: "fragments_ok f \<Longrightarrow> fragments_ok (insert_state f k st now)"
  using purge_fragments_ok [of f now] by (auto simp: insert_state_def flow_room_def Let_def fragments_ok_def)

lemma remember_fragment_ok: "fragments_ok f \<Longrightarrow> fragments_ok (remember_fragment f pk a c now)"
  using alist.entries_keep [of "fi_fragments f" "\<lambda>_ e. fr_expires e > now"]
  by (auto simp: remember_fragment_def Let_def fragments_ok_def alist.ok_ins alist.ok_keep alist.entries_ins
      split: fragment.split)

subsection \<open>Runs\<close>

datatype filter_op =
    InPacket bytes nat
  | OutPacket bytes nat
  | SetPolicy policy
  | SetTraffic bool int
  | TakeEvents
  | RestoreEvents "flow_event list"
  | TakeTraffic

fun filter_step :: "flow_filter \<Rightarrow> filter_op \<Rightarrow> flow_filter" where
  "filter_step f (InPacket data now) = snd (filter_inbound f data now)"
| "filter_step f (OutPacket data now) = filter_outbound f data now"
| "filter_step f (SetPolicy pol) = set_policy f pol"
| "filter_step f (SetTraffic enabled unix_seconds) = set_traffic f enabled unix_seconds"
| "filter_step f TakeEvents = snd (take_events f)"
| "filter_step f (RestoreEvents es) = restore_events f es"
| "filter_step f TakeTraffic = snd (take_traffic f)"

definition filter_ok :: "flow_filter \<Rightarrow> bool" where
  "filter_ok f \<longleftrightarrow> reports_ok f \<and> table_ok f \<and> fragments_ok f"

lemma table_ok_frames [simp]:
  "table_ok (count f ck n) = table_ok f" "table_ok (dropped f pk peer hint now) = table_ok f"
  "table_ok (remember_fragment f pk a c now) = table_ok f"
  by (rule table_ok_cong; simp)+

lemma fragments_ok_frames [simp]:
  "fragments_ok (count f ck n) = fragments_ok f" "fragments_ok (dropped f pk peer hint now) = fragments_ok f"
  "fragments_ok (snd (touch f k pk via now)) = fragments_ok f"
  by (simp_all add: fragments_ok_def)

lemma count_ok: "filter_ok f \<Longrightarrow> filter_ok (count f ck n)"
  by (simp add: filter_ok_def count_reports)

lemma dropped_ok: "filter_ok f \<Longrightarrow> filter_ok (dropped f pk peer hint now)"
  by (simp add: filter_ok_def dropped_reports)

lemma remember_ok: "filter_ok f \<Longrightarrow> filter_ok (remember_fragment f pk a c now)"
  by (simp add: filter_ok_def remember_fragment_reports remember_fragment_ok)

lemma maybe_purge_ok: "filter_ok f \<Longrightarrow> filter_ok (maybe_purge f now)"
  by (simp add: filter_ok_def maybe_purge_def purge_reports purge_table purge_fragments_ok)

lemma touch_ok: "filter_ok f \<Longrightarrow> filter_ok (snd (touch f k pk via now))"
  by (simp add: filter_ok_def touch_reports touch_table)

lemma insert_ok: "filter_ok f \<Longrightarrow> filter_ok (insert_state f k st now)"
  using insert_state_table [of f k st now]
  by (simp add: filter_ok_def insert_state_reports insert_state_fragments_ok table_ok_def)

lemma later_fragment_ok: "filter_ok f \<Longrightarrow> filter_ok (snd (later_fragment f k n now src))"
  by (auto simp: later_fragment_def count_ok split: option.splits if_splits)

lemmas packet_ok = count_ok dropped_ok remember_ok maybe_purge_ok touch_ok insert_ok later_fragment_ok

lemma decide_new_ok: "filter_ok f \<Longrightarrow> filter_ok (snd (decide_new f pk key now))"
  by (simp add: decide_new_def Let_def packet_ok split: prod.split option.split)

lemma no_flow_ok: "filter_ok f \<Longrightarrow> filter_ok (snd (no_flow f pk data key now))"
  by (simp add: no_flow_def Let_def packet_ok decide_new_ok split: option.split)

lemma inbound_ok: "filter_ok f \<Longrightarrow> filter_ok (snd (filter_inbound f data now))"
  using touch_ok [of "maybe_purge f now"]
  by (auto simp: filter_inbound_def Let_def packet_ok no_flow_ok count_unattributed_def maybe_purge_ok case_prod_beta
      split: sum.split fragment.split option.split)

lemma outbound_ok: "filter_ok f \<Longrightarrow> filter_ok (filter_outbound f data now)"
  by (auto simp: filter_outbound_def Let_def packet_ok case_prod_beta split: sum.split fragment.split option.split)

lemma set_policy_ok: "filter_ok f \<Longrightarrow> filter_ok (set_policy f pol)"
  using alist.entries_keep [of "fi_states f"]
  by (fastforce simp: filter_ok_def set_policy_def Let_def ended_all_reports table_ok_def flows_indexed_def
      queue_covers_def alist.ok_keep alist.get_keep_Some fragments_ok_def intro: order_trans)

lemma set_traffic_ok: "filter_ok f \<Longrightarrow> filter_ok (set_traffic f enabled unix_seconds)"
  by (auto simp: filter_ok_def set_traffic_def reports_ok_def table_ok_def flows_indexed_def queue_covers_def
      fragments_ok_def buffer_default_def MAX_TRAFFIC_KEYS_def MAX_BUFFERED_def MAX_PENDING_DROPS_def)

lemma event_queue_ok:
  "filter_ok f \<Longrightarrow> filter_ok (snd (take_events f))" "filter_ok f \<Longrightarrow> filter_ok (restore_events f es)"
  "filter_ok f \<Longrightarrow> filter_ok (snd (take_traffic f))"
  using push_all_length
  by (auto simp: filter_ok_def take_events_def restore_events_def take_traffic_def Let_def buffer_take_def
      reports_ok_def table_ok_def flows_indexed_def queue_covers_def fragments_ok_def
      split: option.splits intro: le_trans [OF diff_le_self])

interpretation flowfilter: guarded_machine filter_step filter_ok
proof
  fix f op
  assume "filter_ok f"
  then show "filter_ok (filter_step f op)"
    by (cases op) (simp_all add: inbound_ok outbound_ok set_policy_ok set_traffic_ok event_queue_ok)
qed

lemma filter_new_ok: "filter_ok (filter_new epoch inst)"
  by (simp add: filter_ok_def filter_new_def reports_ok_def table_ok_def flows_indexed_def queue_covers_def
      fragments_ok_def)

text \<open>
  C15. Whatever packets arrive and leave and whatever the host configures, every table of the filter
  stays within its bound: 16384 flows, 256 fragment entries, 1024 counters, 512 pending drops and
  4096 buffered events.
\<close>

theorem filter_tables_bounded:
  "let f = foldl filter_step (filter_new epoch inst) ops
   in length (fi_states f) \<le> 16384 \<and> length (fi_fragments f) \<le> 256
      \<and> (case fi_traffic f of None \<Rightarrow> True | Some t \<Rightarrow> length t \<le> 1024)
      \<and> length (fi_drops f) \<le> 512
      \<and> (case fi_events f of None \<Rightarrow> True | Some b \<Rightarrow> length (bu_events b) \<le> 4096)"
  using flowfilter.run_inv [OF filter_new_ok, of epoch inst ops]
  by (auto simp: filter_ok_def reports_ok_def table_ok_def fragments_ok_def Let_def MAX_STATES_def MAX_FRAGMENTS_def
      MAX_TRAFFIC_KEYS_def MAX_PENDING_DROPS_def MAX_BUFFERED_def split: option.splits)

subsection \<open>Why a flow is tracked\<close>

text \<open>A property of a flow's key, initiator and service port, for every flow of the table.\<close>

definition flows_all :: "(flow_key \<Rightarrow> direction \<Rightarrow> u16 \<Rightarrow> bool) \<Rightarrow> flow_filter \<Rightarrow> bool" where
  "flows_all Q f \<longleftrightarrow>
     (\<forall>k st. hm_get (fi_states f) k = Some st \<longrightarrow> Q k (st_initiator st) (st_service_port st))"

lemma flows_all_cong: "fi_states g = fi_states f \<Longrightarrow> flows_all Q g = flows_all Q f"
  by (simp add: flows_all_def)

lemma flows_all_frames [simp]:
  "flows_all Q (count f ck n) = flows_all Q f" "flows_all Q (dropped f pk peer hint now) = flows_all Q f"
  "flows_all Q (remember_fragment f pk a c now) = flows_all Q f"
  "flows_all Q (snd (later_fragment f fk n now src)) = flows_all Q f"
  by (auto intro!: flows_all_cong simp: later_fragment_def split: option.split)

lemma filter_ok_states: "filter_ok f \<Longrightarrow> hm_ok (fi_states f)"
  by (simp add: filter_ok_def table_ok_def flows_indexed_def queue_covers_def)

lemma maybe_purge_flows: "filter_ok f \<Longrightarrow> flows_all Q f \<Longrightarrow> flows_all Q (maybe_purge f now)"
  by (auto simp: flows_all_def maybe_purge_def purge_states alist.get_keep_Some dest: filter_ok_states)

lemma touch_flows: "flows_all Q f \<Longrightarrow> flows_all Q (snd (touch f k pk via now))"
  by (auto simp: flows_all_def touch_def Let_def alist.get_ins alist.get_del split: option.splits if_splits)

lemma insert_flows:
  assumes "filter_ok f" "flows_all Q f" "Q k (st_initiator st) (st_service_port st)"
  shows "flows_all Q (insert_state f k st now)"
proof -
  obtain flow where "fi_states (insert_state f k st now) =
     hm_insert k (st\<lparr>st_generation := fi_generation (flow_room f now) + 1, st_flow := flow\<rparr>) (fi_states (flow_room f now))"
    using insert_state_states by blast
  with assms flow_room_states [OF filter_ok_states, of f now] show ?thesis
    by (auto simp: flows_all_def alist.get_ins split: if_splits)
qed

lemma fresh_state_simps [simp]:
  "st_initiator (fresh_state dir peer port p now) = dir" "st_service_port (fresh_state dir peer port p now) = port"
  "st_expires (fresh_state dir peer port p now) = now + initial_timeout p"
  "st_replied (fresh_state dir peer port p now) = False"
  by (simp_all add: fresh_state_def)

lemma decide_hint: "fst (decide_with_hint pol src p port) = fst (decide pol src p port)"
  by (simp add: decide_def split: prod.split)

lemma decide_new_flows:
  assumes "filter_ok f" "flows_all Q f"
    and new: "\<And>k. key = Some k \<Longrightarrow> fst (decide (fi_policy f) (pk_source pk) (pk_proto pk) (service_port pk)) \<Longrightarrow>
      Q k Inward (service_port pk)"
  shows "flows_all Q (snd (decide_new f pk key now))"
proof -
  obtain allow peer hint where d:
    "decide_with_hint (fi_policy f) (pk_source pk) (pk_proto pk) (service_port pk) = (allow, peer, hint)"
    by (metis prod_cases3)
  then have "fst (decide (fi_policy f) (pk_source pk) (pk_proto pk) (service_port pk)) = allow"
    by (simp add: decide_def)
  with assms d show ?thesis
    by (auto simp: decide_new_def Let_def intro!: touch_flows insert_flows split: option.split)
qed

lemma inbound_flows:
  assumes "filter_ok f" "flows_all Q f"
    and new: "\<And>pk k. parse data = Inr pk \<Longrightarrow> \<not> is_later (pk_fragment pk) \<Longrightarrow> inbound_key pk = Some k \<Longrightarrow>
      fst (decide (fi_policy f) (pk_source pk) (pk_proto pk) (service_port pk)) \<Longrightarrow> Q k Inward (service_port pk)"
  shows "flows_all Q (snd (filter_inbound f data now))"
proof -
  let ?f = "maybe_purge f now"
  have f: "filter_ok ?f" "flows_all Q ?f" using assms by (simp_all add: maybe_purge_ok maybe_purge_flows)
  have dn: "flows_all Q (snd (no_flow g pk data key now))"
    if "inbound_key pk = key" "parse data = Inr pk" "\<not> is_later (pk_fragment pk)" "filter_ok g" "flows_all Q g" "fi_policy g = fi_policy f" for g pk key
    using that new decide_new_flows [of g Q key pk now] by (auto simp: no_flow_def Let_def split: option.split)
  show ?thesis
    using f by (auto simp: filter_inbound_def Let_def count_unattributed_def case_prod_beta is_later_def touch_flows touch_ok
        intro!: dn split: sum.split fragment.split option.split)
qed

lemma outbound_flows:
  assumes "filter_ok f" "flows_all Q f"
    and new: "\<And>pk k. parse data = Inr pk \<Longrightarrow> \<not> is_later (pk_fragment pk) \<Longrightarrow> outbound_key pk = Some k \<Longrightarrow>
      Q k Outward (service_port pk)"
  shows "flows_all Q (filter_outbound f data now)"
proof -
  let ?f = "maybe_purge f now"
  have f: "filter_ok ?f" "flows_all Q ?f" using assms by (simp_all add: maybe_purge_ok maybe_purge_flows)
  have ins: "flows_all Q (insert_state (snd (touch ?f k pk Outward now)) k
      (fresh_state Outward peer (service_port pk) (pk_proto pk) now) now)"
    if "parse data = Inr pk" "\<not> is_later (pk_fragment pk)" "outbound_key pk = Some k" for k pk peer
    using f new that by (intro insert_flows) (auto simp: touch_ok touch_flows)
  show ?thesis
    using f ins by (auto simp: filter_outbound_def Let_def case_prod_beta is_later_def touch_flows
        split: sum.split fragment.split option.split)
qed

lemma set_policy_states:
  "fi_states (set_policy f pol) =
    hm_retain (\<lambda>k st. st_initiator st = Outward \<or> fst (decide pol (fl_remote k) (fl_proto k) (st_service_port st))) (fi_states f)"
  by (simp add: set_policy_def Let_def)

text \<open>
  The service port of a flow a peer opened is the local port of its key when the protocol has
  ports, and zero otherwise.
\<close>

definition key_service :: "flow_key \<Rightarrow> u16" where
  "key_service k = (if fl_proto k = TCP \<or> fl_proto k = UDP then fl_local_port k else 0)"

definition has_ports :: "l4 \<Rightarrow> bool" where
  "has_ports l \<longleftrightarrow> (case l of L4Ports _ _ _ \<Rightarrow> True | _ \<Rightarrow> False)"

lemma icmp_header_ports: "icmp_header data offset = Inr l \<Longrightarrow> \<not> has_ports l"
  by (auto simp: icmp_header_def and_then_Inr has_ports_def)

lemma l4_header_ports:
  "l4_header data src p offset frag embedded = Inr l \<Longrightarrow> \<not> is_later frag \<Longrightarrow> has_ports l = (p = TCP \<or> p = UDP)"
  by (auto simp: l4_header_def and_then_Inr has_ports_def dest: icmp_header_ports split: if_splits)

lemma l4_by_proto:
  assumes "parse data = Inr pk" "\<not> is_later (pk_fragment pk)"
  shows "has_ports (pk_l4 pk) = (pk_proto pk = TCP \<or> pk_proto pk = UDP)"
proof -
  from assms(1) obtain d src p offset frag l where
    "l4_header d src p offset frag False = Inr l" "pk_l4 pk = l" "pk_proto pk = p" "pk_fragment pk = frag"
    unfolding parse_def parse_packet_def and_then_Inr by (auto simp: and_then_Inr simp del: not_None_eq)
  with assms(2) l4_header_ports show ?thesis by blast
qed

lemma inbound_key_service:
  assumes "parse data = Inr pk" "\<not> is_later (pk_fragment pk)" "inbound_key pk = Some k"
  shows "service_port pk = key_service k \<and> fl_remote k = pk_source pk \<and> fl_proto k = pk_proto pk"
  using assms(3) l4_by_proto [OF assms(1,2)]
  by (auto simp: inbound_key_def service_port_def key_service_def has_ports_def split: l4.splits if_splits)

definition sent_key :: "filter_op list \<Rightarrow> flow_key \<Rightarrow> bool" where
  "sent_key ops k \<longleftrightarrow>
     (\<exists>op\<in>set ops. case op of
        OutPacket data now \<Rightarrow>
          (case parse data of Inl _ \<Rightarrow> False | Inr pk \<Rightarrow> \<not> is_later (pk_fragment pk) \<and> outbound_key pk = Some k)
      | _ \<Rightarrow> False)"

definition justified :: "filter_op list \<Rightarrow> policy \<Rightarrow> flow_key \<Rightarrow> direction \<Rightarrow> u16 \<Rightarrow> bool" where
  "justified ops pol k dir port \<longleftrightarrow>
     (case dir of
        Outward \<Rightarrow> sent_key ops k
      | Inward \<Rightarrow> port = key_service k \<and> fst (decide pol (fl_remote k) (fl_proto k) port))"

lemma justified_snoc: "justified ops pol k dir port \<Longrightarrow> justified (ops @ [op]) pol k dir port"
  by (auto simp: justified_def sent_key_def split: direction.splits)

lemma flows_all_mono: "flows_all Q f \<Longrightarrow> (\<And>k d port. Q k d port \<Longrightarrow> Q' k d port) \<Longrightarrow> flows_all Q' f"
  by (simp add: flows_all_def)

lemma policy_frames [simp]:
  "fi_policy (snd (filter_inbound f data now)) = fi_policy f" "fi_policy (filter_outbound f data now) = fi_policy f"
  "fi_policy (set_policy f pol) = pol" "fi_policy (set_traffic f b u) = fi_policy f"
  "fi_policy (snd (take_events f)) = fi_policy f" "fi_policy (restore_events f es) = fi_policy f"
  "fi_policy (snd (take_traffic f)) = fi_policy f"
  by (simp_all add: filter_inbound_def filter_outbound_def set_policy_def set_traffic_def take_events_def restore_events_def
      take_traffic_def no_flow_def decide_new_def later_fragment_def count_unattributed_def Let_def case_prod_beta
      split: sum.split fragment.split option.split)

lemma step_justified:
  assumes "filter_ok f" "flows_all (justified ops (fi_policy f)) f"
  shows "flows_all (justified (ops @ [op]) (fi_policy (filter_step f op))) (filter_step f op)"
proof -
  have J: "flows_all (justified (ops @ [op]) (fi_policy f)) f"
    using assms(2) by (rule flows_all_mono) (rule justified_snoc)
  show ?thesis
  proof (cases op)
    case (InPacket data now)
    with J assms(1) inbound_key_service show ?thesis
      by (auto simp: justified_def intro!: inbound_flows)
  next
    case (OutPacket data now)
    with J assms(1) show ?thesis
      by (auto simp: justified_def sent_key_def intro!: outbound_flows)
  next
    case (SetPolicy pol)
    with J filter_ok_states [OF assms(1)] show ?thesis
      by (auto simp: flows_all_def set_policy_states alist.get_keep_Some justified_def split: direction.splits)
  next
    case (SetTraffic b u)
    with J show ?thesis by (auto simp: flows_all_def set_traffic_def)
  qed (use J in \<open>auto simp: flows_all_def take_events_def restore_events_def take_traffic_def Let_def case_prod_beta split: option.split\<close>)
qed

lemma run_justified:
  "flows_all (justified ops (fi_policy (foldl filter_step (filter_new epoch inst) ops)))
     (foldl filter_step (filter_new epoch inst) ops)"
proof (induction ops rule: rev_induct)
  case Nil
  then show ?case by (simp add: flows_all_def filter_new_def)
next
  case (snoc op ops)
  then show ?case using step_justified [OF flowfilter.run_inv [OF filter_new_ok]] by simp
qed

text \<open>
  C13. Every flow the filter tracks has a reason that still holds: either this device itself sent a
  packet of that flow, or a peer opened it and the policy in force now (not the one in force when
  it was opened) admits the peer to that service.
\<close>

theorem tracked_flows_justified:
  "let f = foldl filter_step (filter_new epoch inst) ops
   in \<forall>k st. hm_get (fi_states f) k = Some st \<longrightarrow>
        (case st_initiator st of
           Outward \<Rightarrow> sent_key ops k
         | Inward \<Rightarrow> fst (decide (fi_policy f) (fl_remote k) (fl_proto k) (key_service k)))"
  using run_justified [of ops epoch inst]
  by (auto simp: flows_all_def justified_def Let_def split: direction.splits)

subsection \<open>The verdict on a packet\<close>

definition live_state :: "flow_filter \<Rightarrow> nat \<Rightarrow> flow_key \<Rightarrow> flow_state option" where
  "live_state f now k =
     (case hm_get (fi_states f) k of None \<Rightarrow> None | Some st \<Rightarrow> if st_expires st > now then Some st else None)"

lemma related_live:
  "related f data body now =
     (if body \<le> length data
      then (case parse_embedded (drop body data) of
              Inl _ \<Rightarrow> None
            | Inr inner \<Rightarrow> Option.bind (outbound_key inner) (live_state f now))
      else None)"
  by (auto simp: related_def live_state_def split: sum.split option.split)

lemma related_cong: "live_state g now = live_state f now \<Longrightarrow> related g data body now = related f data body now"
  unfolding related_live by (rule arg_cong [where f = "\<lambda>live. if body \<le> length data
      then (case parse_embedded (drop body data) of
              Inl _ \<Rightarrow> None | Inr inner \<Rightarrow> Option.bind (outbound_key inner) live) else None"])

lemma icmp_related_cong: "live_state g now = live_state f now \<Longrightarrow> icmp_related g pk data now = icmp_related f pk data now"
  by (simp add: icmp_related_def related_cong [of g now f] split: l4.split)

lemma maybe_purge_live: "filter_ok f \<Longrightarrow> live_state (maybe_purge f now) now = live_state f now"
  by (auto simp: live_state_def maybe_purge_def purge_states fun_eq_iff alist.get_keep filter_ok_states
      split: option.splits)

lemma touch_verdict: "fst (touch f k pk via now) = (live_state f now k \<noteq> None)"
  by (auto simp: touch_def live_state_def Let_def split: option.split)

lemma touch_dead_live:
  "live_state f now k = None \<Longrightarrow> live_state (snd (touch f k pk via now)) now = live_state f now"
  by (auto simp: touch_def live_state_def alist.get_del fun_eq_iff split: option.splits if_splits)

lemma decide_new_verdict:
  "fst (decide_new f pk key now) = fst (decide (fi_policy f) (pk_source pk) (pk_proto pk) (service_port pk))"
  by (simp add: decide_new_def decide_def Let_def split: prod.split option.split)

lemma no_flow_verdict:
  "fst (no_flow f pk data key now) \<longleftrightarrow>
    fst (decide (fi_policy f) (pk_source pk) (pk_proto pk) (service_port pk)) \<or> icmp_related f pk data now \<noteq> None"
  by (simp add: no_flow_def decide_new_verdict Let_def split: option.split)

lemma inbound_packet_verdict:
  assumes "filter_ok f" "parse data = Inr pk" "\<not> is_later (pk_fragment pk)"
  shows "fst (filter_inbound f data now) \<longleftrightarrow>
    fst (decide (fi_policy f) (pk_source pk) (pk_proto pk) (service_port pk))
    \<or> Option.bind (inbound_key pk) (live_state f now) \<noteq> None
    \<or> icmp_related f pk data now \<noteq> None"
proof -
  let ?f = "maybe_purge f now"
  have live: "live_state ?f now = live_state f now" using assms(1) by (rule maybe_purge_live)
  have frag: "(case pk_fragment pk of Later key \<Rightarrow> a key | _ \<Rightarrow> b) = b" for a and b :: "bool \<times> flow_filter"
    using assms(3) by (auto simp: is_later_def split: fragment.splits)
  have tail: "fst (no_flow g pk data key now) \<longleftrightarrow>
      fst (decide (fi_policy f) (pk_source pk) (pk_proto pk) (service_port pk)) \<or> icmp_related f pk data now \<noteq> None"
    if "live_state g now = live_state f now" "fi_policy g = fi_policy f" for g key
    using that no_flow_verdict [of g pk data key now] icmp_related_cong [OF that(1)] by simp
  show ?thesis
  proof (cases "inbound_key pk")
    case None
    then show ?thesis
      using assms(2) tail [OF live] by (simp add: filter_inbound_def frag Let_def)
  next
    case (Some k)
    show ?thesis
    proof (cases "live_state f now k")
      case None
      then have "live_state (snd (touch ?f k pk Inward now)) now = live_state f now"
        using live touch_dead_live [of ?f now k pk Inward] by simp
      with None Some live assms(2) tail show ?thesis
        by (simp add: filter_inbound_def frag Let_def case_prod_beta touch_verdict)
    next
      case st: (Some st)
      with Some live assms(2) show ?thesis
        by (simp add: filter_inbound_def frag Let_def case_prod_beta touch_verdict)
    qed
  qed
qed

lemma later_fragment_verdict:
  "fst (later_fragment f fk len now src) \<longleftrightarrow>
    (\<exists>e. hm_get (fi_fragments f) fk = Some e \<and> now < fr_expires e \<and> fr_allow e)"
  by (auto simp: later_fragment_def split: option.split)

lemma filter_ok_fragments: "filter_ok f \<Longrightarrow> hm_ok (fi_fragments f)"
  by (simp add: filter_ok_def fragments_ok_def)

lemma maybe_purge_fragments:
  "filter_ok f \<Longrightarrow> hm_get (fi_fragments (maybe_purge f now)) fk = Some e \<and> now < fr_expires e \<longleftrightarrow>
    hm_get (fi_fragments f) fk = Some e \<and> now < fr_expires e"
  by (auto simp: maybe_purge_def purge_fragments alist.get_keep_Some filter_ok_fragments)

lemma inbound_later_verdict:
  assumes "filter_ok f" "parse data = Inr pk" "pk_fragment pk = Later fk"
  shows "fst (filter_inbound f data now) \<longleftrightarrow>
    (\<exists>e. hm_get (fi_fragments f) fk = Some e \<and> now < fr_expires e \<and> fr_allow e)"
  using assms maybe_purge_fragments [OF assms(1)]
  by (simp add: filter_inbound_def Let_def later_fragment_verdict) blast

text \<open>
  A live flow a peer opened makes no difference to the verdict: the policy in force admits its
  packets anyway. What remains is the flows this device opened.
\<close>

definition reply_to :: "flow_filter \<Rightarrow> nat \<Rightarrow> packet \<Rightarrow> bool" where
  "reply_to f now pk \<longleftrightarrow>
     (case Option.bind (inbound_key pk) (live_state f now) of
        None \<Rightarrow> False | Some st \<Rightarrow> st_initiator st = Outward)"

definition packet_verdict :: "flow_filter \<Rightarrow> bytes \<Rightarrow> nat \<Rightarrow> bool" where
  "packet_verdict f data now \<longleftrightarrow>
     (case parse data of
        Inl _ \<Rightarrow> False
      | Inr pk \<Rightarrow>
          (case pk_fragment pk of
             Later fk \<Rightarrow> (\<exists>e. hm_get (fi_fragments f) fk = Some e \<and> now < fr_expires e \<and> fr_allow e)
           | _ \<Rightarrow>
               fst (decide (fi_policy f) (pk_source pk) (pk_proto pk) (service_port pk))
               \<or> reply_to f now pk \<or> icmp_related f pk data now \<noteq> None))"

lemma live_inward_permitted:
  assumes "flows_all (justified ops (fi_policy f)) f" "parse data = Inr pk" "\<not> is_later (pk_fragment pk)"
    "inbound_key pk = Some k" "live_state f now k = Some st" "st_initiator st = Inward"
  shows "fst (decide (fi_policy f) (pk_source pk) (pk_proto pk) (service_port pk))"
proof -
  have "hm_get (fi_states f) k = Some st"
    using assms(5) by (auto simp: live_state_def split: option.splits if_splits)
  then have "justified ops (fi_policy f) k Inward (st_service_port st)"
    using assms(1,6) by (metis flows_all_def)
  then show ?thesis
    using inbound_key_service [OF assms(2-4)] by (auto simp: justified_def)
qed

text \<open>
  C12. The exact verdict of a filter in any reachable state. An unreadable packet is refused. A later
  fragment passes exactly when a live fragment entry allows it. Any other packet passes exactly
  when the policy in force admits it, when it answers a live flow this device opened, or when it is
  an ICMP error that quotes a live flow.
\<close>

theorem inbound_exact:
  "fst (filter_inbound (foldl filter_step (filter_new epoch inst) ops) data now) =
    packet_verdict (foldl filter_step (filter_new epoch inst) ops) data now"
proof -
  let ?f = "foldl filter_step (filter_new epoch inst) ops"
  have ok: "filter_ok ?f" by (rule flowfilter.run_inv [OF filter_new_ok])
  show ?thesis
  proof (cases "parse data")
    case (Inl e)
    then show ?thesis by (simp add: filter_inbound_def packet_verdict_def)
  next
    case (Inr pk)
    show ?thesis
    proof (cases "is_later (pk_fragment pk)")
      case True
      with Inr inbound_later_verdict [OF ok Inr] show ?thesis
        by (auto simp: packet_verdict_def is_later_def split: fragment.splits)
    next
      case False
      have "Option.bind (inbound_key pk) (live_state ?f now) \<noteq> None \<Longrightarrow>
          fst (decide (fi_policy ?f) (pk_source pk) (pk_proto pk) (service_port pk)) \<or> reply_to ?f now pk"
        using live_inward_permitted [OF run_justified Inr False]
        by (auto simp: reply_to_def split: Option.bind_splits) (metis direction.exhaust)
      moreover have "reply_to ?f now pk \<Longrightarrow> Option.bind (inbound_key pk) (live_state ?f now) \<noteq> None"
        by (auto simp: reply_to_def split: option.splits)
      ultimately show ?thesis
        using inbound_packet_verdict [OF ok Inr False, of now] False Inr
        by (auto simp: packet_verdict_def is_later_def split: fragment.splits)
    qed
  qed
qed

subsection \<open>Replies\<close>

lemma touch_timeout_min: "10 \<le> touch_timeout pk replied"
  by (simp add: touch_timeout_def timeouts split: l4.split)

lemma initial_timeout_pos: "0 < initial_timeout p"
  by (simp add: initial_timeout_def timeouts)

lemma touch_keeps_live:
  assumes "live_state f now k \<noteq> None" and "later < now + 10"
  shows "live_state (snd (touch f k pk via now)) later k \<noteq> None"
proof -
  obtain st where st: "hm_get (fi_states f) k = Some st" "now < st_expires st"
    using assms(1) by (auto simp: live_state_def split: option.splits if_splits)
  have "later < st_expires (touched st pk via now)"
    using assms(2) touch_timeout_min [of pk] by (simp add: touched_def Let_def less_le_trans)
  with st show ?thesis by (simp add: touch_def live_state_def Let_def alist.get_ins)
qed

lemma insert_live:
  "now < st_expires st \<Longrightarrow> live_state (insert_state f k st now) now k \<noteq> None"
  using insert_state_states [of f k st now] by (auto simp: live_state_def alist.get_ins)

lemma outbound_tracks:
  assumes "parse data = Inr pk" "\<not> is_later (pk_fragment pk)" "outbound_key pk = Some k" "later < now + 10"
  shows "live_state (filter_outbound f data now) later k \<noteq> None"
proof -
  have frag: "(case pk_fragment pk of Later key \<Rightarrow> a key | _ \<Rightarrow> b) = b" for a and b :: flow_filter
    using assms(2) by (auto simp: is_later_def split: fragment.splits)
  have rem: "live_state (remember_fragment g pk a c now) = live_state g" for g a c
    by (simp add: live_state_def fun_eq_iff)
  let ?f = "maybe_purge f now"
  let ?g = "snd (touch ?f k pk Outward now)"
  let ?st = "fresh_state Outward (peer_for (fi_policy ?g) (pk_destination pk)) (service_port pk) (pk_proto pk) now"
  have "live_state (snd (touch (insert_state ?g k ?st now) k pk Outward now)) later k \<noteq> None"
    using assms(4) initial_timeout_pos by (intro touch_keeps_live insert_live) simp_all
  moreover have "live_state ?f now k \<noteq> None \<Longrightarrow> live_state ?g later k \<noteq> None"
    using assms(4) touch_keeps_live by blast
  ultimately show ?thesis
    using assms(1,3) by (simp add: filter_outbound_def Let_def frag case_prod_beta rem touch_verdict)
qed

text \<open>
  C16. Replies come back: once this device has sent a packet of a flow, every packet of that flow
  from the peer that arrives within the next ten seconds passes, under any policy (the one that
  denies everything included) and in any state of the filter the flow found.
\<close>

theorem reply_admitted:
  assumes "parse out = Inr pk" "\<not> is_later (pk_fragment pk)" "outbound_key pk = Some k"
    and "parse reply = Inr rk" "\<not> is_later (pk_fragment rk)" "inbound_key rk = Some k"
    and "later < now + 10"
  shows "fst (filter_inbound (filter_outbound (foldl filter_step (filter_new epoch inst) ops) out now) reply later)"
proof -
  have ok: "filter_ok (filter_outbound (foldl filter_step (filter_new epoch inst) ops) out now)"
    by (intro outbound_ok flowfilter.run_inv filter_new_ok)
  show ?thesis
    using inbound_packet_verdict [OF ok assms(4,5)] outbound_tracks [OF assms(1-3,7)] assms(6) by simp
qed

text \<open>
  C27. The first fragment of a reply is not remembered: a fragmented packet that belongs to a live
  flow loses every fragment but its first, although the first one was seen and passed.
\<close>

theorem established_fragments_dropped:
  assumes "parse head = Inr p1" "pk_fragment p1 = First fk" "inbound_key p1 = Some k"
    and "live_state (foldl filter_step (filter_new epoch inst) ops) now k \<noteq> None"
    and "hm_get (fi_fragments (foldl filter_step (filter_new epoch inst) ops)) fk = None"
    and "parse rest = Inr p2" "pk_fragment p2 = Later fk"
  shows "fst (filter_inbound (foldl filter_step (filter_new epoch inst) ops) head now)
    \<and> \<not> fst (filter_inbound (snd (filter_inbound (foldl filter_step (filter_new epoch inst) ops) head now)) rest later)"
proof -
  let ?f = "foldl filter_step (filter_new epoch inst) ops"
  have ok: "filter_ok ?f" by (rule flowfilter.run_inv [OF filter_new_ok])
  have live: "fst (touch (maybe_purge ?f now) k p1 Inward now)"
    using assms(4) by (simp add: touch_verdict maybe_purge_live [OF ok])
  then have in1: "filter_inbound ?f head now = (True, snd (touch (maybe_purge ?f now) k p1 Inward now))"
    using assms(1-3) by (simp add: filter_inbound_def Let_def case_prod_beta)
  have "hm_get (fi_fragments (maybe_purge ?f now)) fk = None"
    using assms(5) filter_ok_fragments [OF ok] by (simp add: maybe_purge_def purge_fragments alist.get_keep)
  then show ?thesis
    using inbound_later_verdict [OF inbound_ok [OF ok] assms(6,7), of head now later] in1 by simp
qed

subsection \<open>A resolver query and its fragmented answer\<close>

definition query :: bytes where
  "query = [0x45, 0, 0, 28, 0, 7, 0, 0, 64, 17, 0, 0, 10, 0, 0, 1, 10, 0, 0, 2,
            20, 233, 0, 53, 0, 8, 0, 0]"

definition answer :: bytes where
  "answer = [0x45, 0, 0, 28, 0, 8, 0, 0, 64, 17, 0, 0, 10, 0, 0, 2, 10, 0, 0, 1,
             0, 53, 20, 233, 0, 8, 0, 0]"

definition answer_head :: bytes where
  "answer_head = [0x45, 0, 0, 28, 0, 9, 0x20, 0, 64, 17, 0, 0, 10, 0, 0, 2, 10, 0, 0, 1,
                  0, 53, 20, 233, 0, 16, 0, 0]"

definition answer_rest :: bytes where
  "answer_rest = [0x45, 0, 0, 28, 0, 9, 0, 1, 64, 17, 0, 0, 10, 0, 0, 2, 10, 0, 0, 1,
                  1, 2, 3, 4, 5, 6, 7, 8]"

definition query_key :: flow_key where
  "query_key = \<lparr>fl_proto = UDP, fl_local = V4 0x0A000001, fl_remote = V4 0x0A000002, fl_local_port = 5353,
                fl_remote_port = 53\<rparr>"

definition answer_fragment :: fragment_key where
  "answer_fragment = \<lparr>fk_source = V4 0x0A000002, fk_destination = V4 0x0A000001, fk_proto = UDP, fk_ident = 9\<rparr>"

lemmas parse_eval = parse_def parse_packet_def ip_header_def v4_header_def fetch_def be16_def index_at_def slice_def
  v4_fragment_def l4_header_def is_later_def u16_of_be_def v4_of_octets_def be_decode_def Let_def TCP_def UDP_def

lemma query_parses:
  "parse query = Inr \<lparr>pk_source = V4 0x0A000001, pk_destination = V4 0x0A000002, pk_proto = UDP,
     pk_l4 = L4Ports 5353 53 0, pk_fragment = Whole, pk_len = 28\<rparr>"
  by (simp add: query_def parse_eval)

lemma answer_parses:
  "parse answer = Inr \<lparr>pk_source = V4 0x0A000002, pk_destination = V4 0x0A000001, pk_proto = UDP,
     pk_l4 = L4Ports 53 5353 0, pk_fragment = Whole, pk_len = 28\<rparr>"
  by (simp add: answer_def parse_eval)

lemma answer_head_parses:
  "parse answer_head = Inr \<lparr>pk_source = V4 0x0A000002, pk_destination = V4 0x0A000001, pk_proto = UDP,
     pk_l4 = L4Ports 53 5353 0, pk_fragment = First answer_fragment, pk_len = 28\<rparr>"
  by (simp add: answer_head_def parse_eval answer_fragment_def)

lemma answer_rest_parses:
  "parse answer_rest = Inr \<lparr>pk_source = V4 0x0A000002, pk_destination = V4 0x0A000001, pk_proto = UDP,
     pk_l4 = L4Other, pk_fragment = Later answer_fragment, pk_len = 28\<rparr>"
  by (simp add: answer_rest_def parse_eval answer_fragment_def)

lemmas dns_parses = query_parses answer_parses answer_head_parses answer_rest_parses

lemma dns_keys:
  "parse query = Inr pk \<Longrightarrow> outbound_key pk = Some query_key \<and> \<not> is_later (pk_fragment pk)"
  "parse answer = Inr pk \<Longrightarrow> inbound_key pk = Some query_key \<and> \<not> is_later (pk_fragment pk)"
  "parse answer_head = Inr pk \<Longrightarrow> inbound_key pk = Some query_key"
  by (auto simp: dns_parses outbound_key_def inbound_key_def query_key_def is_later_def)

theorem reply_admitted_witness:
  "fst (filter_inbound (filter_outbound (set_policy (filter_new 0 0) deny_all) query 5) answer 14)
   \<and> \<not> fst (decide deny_all (V4 0x0A000002) UDP 5353)"
proof
  show "fst (filter_inbound (filter_outbound (set_policy (filter_new 0 0) deny_all) query 5) answer 14)"
    using reply_admitted [OF query_parses _ _ answer_parses, of query_key 14 5 0 0 "[SetPolicy deny_all]"]
      dns_keys(1) [OF query_parses] dns_keys(2) [OF answer_parses] by simp
  show "\<not> fst (decide deny_all (V4 0x0A000002) UDP 5353)"
    by (simp add: decide_match deny_all_def entries_at_def)
qed

lemma query_live: "live_state (filter_outbound (filter_new 0 0) query 5) 6 query_key \<noteq> None"
  using outbound_tracks [OF query_parses] dns_keys(1) [OF query_parses] by simp

theorem tracked_flows_justified_witness:
  "\<exists>st. hm_get (fi_states (filter_outbound (filter_new 0 0) query 5)) query_key = Some st
     \<and> st_initiator st = Outward \<and> sent_key [OutPacket query 5] query_key"
proof -
  obtain st where st: "hm_get (fi_states (filter_outbound (filter_new 0 0) query 5)) query_key = Some st"
    using query_live by (auto simp: live_state_def split: option.splits if_splits)
  have "flows_all (\<lambda>_ d _. d = Outward) (filter_outbound (filter_new 0 0) query 5)"
    by (rule outbound_flows [OF filter_new_ok]) (simp_all add: flows_all_def filter_new_def)
  with st have "st_initiator st = Outward" by (simp add: flows_all_def)
  with st show ?thesis
    using tracked_flows_justified [of 0 0 "[OutPacket query 5]"] by (force simp: Let_def)
qed

lemma empty_fragments:
  "fi_fragments f = [] \<Longrightarrow> fi_fragments (maybe_purge f now) = []"
  "fi_fragments f = [] \<Longrightarrow> fi_fragments (insert_state f k st now) = []"
  "pk_fragment pk = Whole \<Longrightarrow> fi_fragments (remember_fragment f pk a c now) = fi_fragments f"
  by (simp_all add: maybe_purge_def purge_fragments insert_state_def flow_room_def hm_retain_def remember_fragment_def Let_def)

lemma query_fragments: "fi_fragments (filter_outbound (filter_new 0 0) query 5) = []"
proof -
  have "fi_fragments (maybe_purge (filter_new 0 0) 5) = []" by (rule empty_fragments) (simp add: filter_new_def)
  then show ?thesis
    using dns_keys(1) [OF query_parses]
    by (simp add: filter_outbound_def query_parses Let_def case_prod_beta empty_fragments)
qed

theorem established_fragments_dropped_witness:
  "fst (filter_inbound (filter_outbound (filter_new 0 0) query 5) answer_head 6)
   \<and> \<not> fst (filter_inbound (snd (filter_inbound (filter_outbound (filter_new 0 0) query 5) answer_head 6)) answer_rest 6)"
  using established_fragments_dropped [OF answer_head_parses _ _ _ _ answer_rest_parses, of answer_fragment query_key
      0 0 "[OutPacket query 5]" 6 6] query_live query_fragments dns_keys(3) [OF answer_head_parses] by simp

end
