(* ===== verification/Ipam.thy ===== *)
theory Ipam
  imports Filter_Policy
begin

section \<open>Address pools (\<open>blaktail-coord/src/ipam.rs\<close>)\<close>

text \<open>
  The pool arithmetic of the coordinator: CIDR parsing, overlap, reservations and the allocator.
  Addresses keep their machine width. Allocation probes a bounded number of hosts per pool; the
  bound is the fuel of the two probe loops. The only partial operations of the source, a shift by
  the width of the type and a checked addition, are written out.
\<close>

unbundle bit_operations_syntax

definition MAX_ALLOC_PROBES :: nat where "MAX_ALLOC_PROBES = 65536"

datatype ipam_error =
    InvalidCidr string
  | InvalidAddress string
  | NetworkAddress string string
  | BroadcastAddress string string
  | OutsidePool string string
  | Excluded string string

record ipam_pool =
  ip_name :: string
  ip_cidr :: string
  ip_exclusions :: "string list"

datatype reservation_state = Active | Reserved | Released

record reservation =
  re_address :: string
  re_node_id :: "string option"
  re_enrol_key :: "string option"
  re_state :: reservation_state
  re_reason :: string
  re_expires :: "int option"

subsection \<open>CIDR blocks\<close>

definition mask32 :: "u8 \<Rightarrow> u32" where
  "mask32 prefix = (if prefix = 0 then 0 else push_bit (32 - unat prefix) (- 1))"

definition mask128 :: "u8 \<Rightarrow> u128" where
  "mask128 prefix = (if prefix = 0 then 0 else push_bit (128 - unat prefix) (- 1))"

definition mask_addr :: "ip_addr \<Rightarrow> u8 \<Rightarrow> ip_addr" where
  "mask_addr addr prefix =
     (case addr of V4 v \<Rightarrow> V4 (v AND mask32 prefix) | V6 v \<Rightarrow> V6 (v AND mask128 prefix))"

definition parse_cidr :: "string \<Rightarrow> ipam_error + (ip_addr \<times> u8)" where
  "parse_cidr cidr =
     (case split_once (CHR ''/'') cidr of
        None \<Rightarrow> Inl (InvalidCidr cidr)
      | Some (addr_s, prefix_s) \<Rightarrow>
          (case parse_ip (str_trim addr_s) of
             None \<Rightarrow> Inl (InvalidCidr cidr)
           | Some addr \<Rightarrow>
               (case parse_u8 (str_trim prefix_s) of
                  None \<Rightarrow> Inl (InvalidCidr cidr)
                | Some prefix \<Rightarrow>
                    if prefix > (if is_ipv4 addr then 32 else 128) then Inl (InvalidCidr cidr)
                    else Inr (mask_addr addr prefix, prefix))))"

definition cidr_contains :: "ip_addr \<Rightarrow> u8 \<Rightarrow> ip_addr \<Rightarrow> bool" where
  "cidr_contains network prefix ip =
     (case (network, ip) of
        (V4 n, V4 i) \<Rightarrow> n AND mask32 prefix = i AND mask32 prefix
      | (V6 n, V6 i) \<Rightarrow> n AND mask128 prefix = i AND mask128 prefix
      | _ \<Rightarrow> False)"

definition same_family :: "ip_addr \<Rightarrow> ip_addr \<Rightarrow> bool" where
  "same_family a b \<longleftrightarrow> is_ipv4 a = is_ipv4 b"

definition pools_overlap :: "string \<Rightarrow> string \<Rightarrow> ipam_error + bool" where
  "pools_overlap a_cidr b_cidr =
     and_then (parse_cidr a_cidr) (\<lambda>(a_net, a_pre).
     and_then (parse_cidr b_cidr) (\<lambda>(b_net, b_pre).
     if \<not> same_family a_net b_net then Inr False
     else Inr (cidr_contains a_net a_pre b_net \<or> cidr_contains b_net b_pre a_net)))"

text \<open>The error strings of this function only name the offending pool.\<close>

datatype supernet_error = BadSupernet ipam_error | BadPool string ipam_error | NotWithin string string string

definition pool_within :: "string \<Rightarrow> ip_addr \<Rightarrow> u8 \<Rightarrow> ipam_pool \<Rightarrow> supernet_error + unit" where
  "pool_within supernet s_net s_pre pool =
     (case parse_cidr (ip_cidr pool) of
        Inl e \<Rightarrow> Inl (BadPool (ip_name pool) e)
      | Inr (net, pre) \<Rightarrow>
          ensure (same_family net s_net \<and> pre \<ge> s_pre \<and> cidr_contains s_net s_pre net)
            (NotWithin (ip_name pool) (ip_cidr pool) supernet))"

definition pools_within_supernet :: "ipam_pool list \<Rightarrow> string \<Rightarrow> supernet_error + unit" where
  "pools_within_supernet pools supernet =
     (case parse_cidr supernet of
        Inl e \<Rightarrow> Inl (BadSupernet e)
      | Inr (s_net, s_pre) \<Rightarrow> each (pool_within supernet s_net s_pre) pools)"

subsection \<open>Exclusions and reservations\<close>

definition exclusion_matches :: "ip_addr \<Rightarrow> string \<Rightarrow> ipam_error + bool" where
  "exclusion_matches addr exclusion =
     (let body = str_trim exclusion
      in if CHR ''/'' \<in> set body
         then and_then (parse_cidr body) (\<lambda>(net, pre). Inr (cidr_contains net pre addr))
         else case parse_ip body of
                None \<Rightarrow> Inl (InvalidCidr exclusion)
              | Some ip \<Rightarrow> Inr (ip = addr))"

definition excluded :: "ip_addr \<Rightarrow> string list \<Rightarrow> bool" where
  "excluded addr exclusions \<longleftrightarrow> list_ex (\<lambda>e. exclusion_matches addr e = Inr True) exclusions"

fun not_excluded :: "ip_addr \<Rightarrow> string list \<Rightarrow> ipam_error + bool" where
  "not_excluded addr [] = Inr True"
| "not_excluded addr (e # es) =
     and_then (exclusion_matches addr e) (\<lambda>hit. if hit then Inr False else not_excluded addr es)"

definition address_in_pool :: "string \<Rightarrow> ipam_pool \<Rightarrow> ipam_error + bool" where
  "address_in_pool address pool =
     (case parse_ip (str_trim address) of
        None \<Rightarrow> Inl (InvalidAddress address)
      | Some addr \<Rightarrow>
          and_then (parse_cidr (ip_cidr pool)) (\<lambda>(net, pre).
          if \<not> cidr_contains net pre addr then Inr False
          else not_excluded addr (ip_exclusions pool)))"

definition usable_v4_range :: "u32 \<Rightarrow> u8 \<Rightarrow> u32 \<times> u32" where
  "usable_v4_range base prefix =
     (if prefix = 32 then (base, base)
      else if prefix = 31 then (base, base + 1)
      else let broadcast = base OR drop_bit (unat prefix) (- 1) in (base + 1, broadcast - 1))"

definition check_slot :: "string \<Rightarrow> string \<Rightarrow> ip_addr \<Rightarrow> u8 \<Rightarrow> ip_addr \<Rightarrow> ipam_error + unit" where
  "check_slot label name net pre addr =
     (case (net, addr) of
        (V4 n, V4 host) \<Rightarrow>
          (let (first, last_host) = usable_v4_range n pre
           in if host < first then Inl (NetworkAddress label name)
              else if host > last_host then Inl (BroadcastAddress label name)
              else Inr ())
      | (V6 n, V6 i) \<Rightarrow> if i = n then Inl (NetworkAddress label name) else Inr ()
      | _ \<Rightarrow> Inr ())"

fun reserve_in :: "ipam_pool list \<Rightarrow> string \<Rightarrow> ip_addr \<Rightarrow> string \<Rightarrow> ipam_error + unit" where
  "reserve_in [] label addr scope = Inl (OutsidePool label scope)"
| "reserve_in (pool # pools) label addr scope =
     and_then (parse_cidr (ip_cidr pool)) (\<lambda>(net, pre).
     if \<not> cidr_contains net pre addr then reserve_in pools label addr scope
     else and_then (not_excluded addr (ip_exclusions pool)) (\<lambda>ok.
          if \<not> ok then Inl (Excluded label (ip_name pool))
          else check_slot label (ip_name pool) net pre addr))"

definition validate_reservation :: "ipam_pool list \<Rightarrow> string \<Rightarrow> ipam_error + unit" where
  "validate_reservation pools address =
     (case parse_ip (str_trim address) of
        None \<Rightarrow> Inl (InvalidAddress address)
      | Some addr \<Rightarrow>
          reserve_in pools (str_trim address) addr (if length pools = 1 then ip_name (pools ! 0) else ''any pool''))"

subsection \<open>Allocation\<close>

fun probe_v4 :: "nat \<Rightarrow> (ip_addr \<Rightarrow> bool) \<Rightarrow> u32 \<Rightarrow> u32 \<Rightarrow> ip_addr option" where
  "probe_v4 0 free cur last_host = None"
| "probe_v4 (Suc fuel) free cur last_host =
     (if free (V4 cur) then Some (V4 cur)
      else if cur = last_host then None
      else probe_v4 fuel free (cur + 1) last_host)"

text \<open>The outer option is the early return of the whole allocation when the addition overflows.\<close>

fun probe_v6 :: "nat \<Rightarrow> (ip_addr \<Rightarrow> bool) \<Rightarrow> u128 \<Rightarrow> u8 \<Rightarrow> nat \<Rightarrow> ip_addr option option" where
  "probe_v6 0 free base prefix offset = Some None"
| "probe_v6 (Suc fuel) free base prefix offset =
     (if unat base + offset \<ge> 2 ^ 128 then None
      else let cand = base + word_of_nat offset
           in if \<not> cidr_contains (V6 base) prefix (V6 cand) then Some None
              else if free (V6 cand) then Some (Some (V6 cand))
              else probe_v6 fuel free base prefix (offset + 1))"

fun allocate_in :: "(ip_addr \<Rightarrow> bool) \<Rightarrow> ipam_pool list \<Rightarrow> ip_addr option" where
  "allocate_in taken [] = None"
| "allocate_in taken (pool # pools) =
     (let free = (\<lambda>ip. \<not> taken ip \<and> \<not> excluded ip (ip_exclusions pool))
      in case parse_cidr (ip_cidr pool) of
           Inl _ \<Rightarrow> None
         | Inr (V4 n, prefix) \<Rightarrow>
             (let (cur, last_host) = usable_v4_range n prefix
              in case probe_v4 MAX_ALLOC_PROBES free cur last_host of
                   Some ip \<Rightarrow> Some ip
                 | None \<Rightarrow> allocate_in taken pools)
         | Inr (V6 n, prefix) \<Rightarrow>
             (case probe_v6 MAX_ALLOC_PROBES free n prefix 1 of
                None \<Rightarrow> None
              | Some (Some ip) \<Rightarrow> Some ip
              | Some None \<Rightarrow> allocate_in taken pools))"

definition address_taken :: "string list \<Rightarrow> reservation list \<Rightarrow> ip_addr \<Rightarrow> bool" where
  "address_taken used reservations ip \<longleftrightarrow>
     ip \<in> set (List.map_filter (\<lambda>s. parse_ip (str_trim s)) used)
     \<or> ip \<in> set (List.map_filter (\<lambda>r. parse_ip (str_trim (re_address r)))
                (filter (\<lambda>r. re_state r \<noteq> Released) reservations))"

definition allocate_from_pools :: "string list \<Rightarrow> ipam_pool list \<Rightarrow> reservation list \<Rightarrow> string option" where
  "allocate_from_pools used pools reservations =
     map_option show_ip (allocate_in (address_taken used reservations) pools)"

subsection \<open>Blocks as ranges of leading bits\<close>

definition host_bits :: "ip_addr \<Rightarrow> u8 \<Rightarrow> nat" where
  "host_bits net prefix = (if is_ipv4 net then 32 else 128) - unat prefix"

definition ip_value :: "ip_addr \<Rightarrow> nat" where
  "ip_value ip = (case ip of V4 a \<Rightarrow> unat a | V6 a \<Rightarrow> unat a)"

definition prefix_ok :: "ip_addr \<Rightarrow> u8 \<Rightarrow> bool" where
  "prefix_ok net prefix \<longleftrightarrow> unat prefix \<le> (if is_ipv4 net then 32 else 128)"

lemma mask32_agree: "unat prefix \<le> 32 \<Longrightarrow>
    x AND mask32 prefix = y AND mask32 prefix \<longleftrightarrow> unat x div 2 ^ (32 - unat prefix) = unat y div 2 ^ (32 - unat prefix)"
proof -
  have "unat x div 2 ^ 32 = 0" for x :: u32
    using unsigned_less [of x, where ?'a = nat] by simp
  then show ?thesis
    using mask_agree [of x "32 - unat prefix" y] by (simp add: mask32_def del: push_bit_minus_one_eq_not_mask)
qed

lemma mask128_agree: "unat prefix \<le> 128 \<Longrightarrow>
    x AND mask128 prefix = y AND mask128 prefix \<longleftrightarrow> unat x div 2 ^ (128 - unat prefix) = unat y div 2 ^ (128 - unat prefix)"
proof -
  have "unat x div 2 ^ 128 = 0" for x :: u128
    using unsigned_less [of x, where ?'a = nat] by simp
  then show ?thesis
    using mask_agree [of x "128 - unat prefix" y] by (simp add: mask128_def del: push_bit_minus_one_eq_not_mask)
qed

lemma contains_iff:
  assumes "prefix_ok net prefix"
  shows "cidr_contains net prefix ip \<longleftrightarrow>
    same_family net ip \<and> ip_value net div 2 ^ host_bits net prefix = ip_value ip div 2 ^ host_bits net prefix"
  using assms
  by (cases net; cases ip)
     (auto simp: cidr_contains_def same_family_def ip_value_def host_bits_def prefix_ok_def mask32_agree mask128_agree)

definition aligned :: "ip_addr \<Rightarrow> u8 \<Rightarrow> bool" where
  "aligned net prefix \<longleftrightarrow> ip_value net mod 2 ^ host_bits net prefix = 0"

lemma masked_aligned:
  fixes x :: "'a::len word"
  shows "unat (x AND push_bit k (- 1)) mod 2 ^ k = 0"
proof -
  have "take_bit k (x AND push_bit k (- 1)) = 0"
    by (rule bit_word_eqI) (auto simp: bit_simps)
  then have "take_bit k (unat (x AND push_bit k (- 1))) = 0"
    by (metis unsigned_0 unsigned_take_bit_eq)
  then show ?thesis by (simp only: take_bit_eq_mod)
qed

lemma mask_addr_aligned: "prefix_ok addr prefix \<Longrightarrow> aligned (mask_addr addr prefix) prefix"
proof (cases addr)
  case (V4 x)
  then show ?thesis
    using masked_aligned [of x "32 - unat prefix"]
    by (simp add: mask_addr_def aligned_def ip_value_def host_bits_def mask32_def del: push_bit_minus_one_eq_not_mask)
next
  case (V6 x)
  then show ?thesis
    using masked_aligned [of x "128 - unat prefix"]
    by (simp add: mask_addr_def aligned_def ip_value_def host_bits_def mask128_def del: push_bit_minus_one_eq_not_mask)
qed

lemma mask_addr_family [simp]: "is_ipv4 (mask_addr addr prefix) = is_ipv4 addr"
  by (cases addr) (simp_all add: mask_addr_def)

lemma parse_cidr_ok:
  assumes "parse_cidr text = Inr (net, prefix)"
  shows "prefix_ok net prefix \<and> aligned net prefix"
proof -
  from assms obtain addr where "net = mask_addr addr prefix" "\<not> prefix > (if is_ipv4 addr then 32 else 128)"
    by (auto simp: parse_cidr_def split: option.splits if_splits)
  moreover from this have "prefix_ok addr prefix"
    by (auto simp: prefix_ok_def word_less_nat_alt split: if_splits)
  ultimately show ?thesis by (simp add: mask_addr_aligned) (simp add: prefix_ok_def)
qed

subsection \<open>Overlap\<close>

text \<open>Two aligned blocks are nested or disjoint.\<close>

lemma aligned_nested:
  assumes "same_family a b" "prefix_ok a p" "aligned a p" "prefix_ok b q" "unat p \<le> unat q"
    and "cidr_contains a p ip" "cidr_contains b q ip"
  shows "cidr_contains a p b"
proof -
  let ?k = "host_bits a p" and ?j = "host_bits b q"
  have fam: "is_ipv4 b = is_ipv4 a" using assms(1) by (simp add: same_family_def)
  have k: "?k = ?j + (unat q - unat p)"
    using assms(2,4,5) fam by (auto simp: host_bits_def prefix_ok_def)
  have "ip_value b div 2 ^ ?j = ip_value ip div 2 ^ ?j" "ip_value a div 2 ^ ?k = ip_value ip div 2 ^ ?k"
    using assms(2,4,6,7) by (simp_all add: contains_iff)
  then have "ip_value b div 2 ^ ?k = ip_value a div 2 ^ ?k"
    unfolding k power_add by (metis div_mult2_eq)
  with assms(1,2) show ?thesis by (simp add: contains_iff)
qed

lemma contains_self: "cidr_contains a p a"
  by (cases a) (simp_all add: cidr_contains_def)

text \<open>
  The overlap test is exact: for any two readable blocks it answers yes exactly when some
  address lies in both, and it fails exactly when one of the texts is not a block.
\<close>

theorem pools_overlap_exact:
  "(\<exists>a p b q. parse_cidr x = Inr (a, p) \<and> parse_cidr y = Inr (b, q)
      \<and> pools_overlap x y = Inr (\<exists>ip. cidr_contains a p ip \<and> cidr_contains b q ip))
   \<or> (\<exists>e. pools_overlap x y = Inl e \<and> (parse_cidr x = Inl e \<or> parse_cidr y = Inl e))"
proof (cases "parse_cidr x")
  case (Inl e)
  then show ?thesis by (simp add: pools_overlap_def)
next
  case (Inr ap)
  obtain a p where x: "parse_cidr x = Inr (a, p)" using Inr by (cases ap) simp
  show ?thesis
  proof (cases "parse_cidr y")
    case (Inl e)
    with x show ?thesis by (simp add: pools_overlap_def)
  next
    case (Inr bq)
    obtain b q where y: "parse_cidr y = Inr (b, q)" using Inr by (cases bq) simp
    note ok = parse_cidr_ok [OF x] parse_cidr_ok [OF y]
    have sym: "same_family a b = same_family b a" by (auto simp: same_family_def)
    have "(\<exists>ip. cidr_contains a p ip \<and> cidr_contains b q ip) \<longleftrightarrow>
        same_family a b \<and> (cidr_contains a p b \<or> cidr_contains b q a)"
    proof
      assume "\<exists>ip. cidr_contains a p ip \<and> cidr_contains b q ip"
      then obtain ip where ip: "cidr_contains a p ip" "cidr_contains b q ip" by blast
      then have fam: "same_family a b" using ok by (auto simp: contains_iff same_family_def)
      show "same_family a b \<and> (cidr_contains a p b \<or> cidr_contains b q a)"
        using aligned_nested [OF fam _ _ _ _ ip] aligned_nested [of b a q p ip] fam ok ip sym
        by (cases "unat p \<le> unat q") auto
    next
      assume "same_family a b \<and> (cidr_contains a p b \<or> cidr_contains b q a)"
      then show "\<exists>ip. cidr_contains a p ip \<and> cidr_contains b q ip" using contains_self by blast
    qed
    with x y show ?thesis by (auto simp: pools_overlap_def)
  qed
qed

text \<open>A pool accepted within a supernet lies in it with every address.\<close>

lemma within_supernet:
  assumes "pools_within_supernet pools supernet = Inr ()" "pool \<in> set pools"
  obtains s_net s_pre net pre where "parse_cidr supernet = Inr (s_net, s_pre)" "parse_cidr (ip_cidr pool) = Inr (net, pre)"
    "\<And>ip. cidr_contains net pre ip \<Longrightarrow> cidr_contains s_net s_pre ip"
proof -
  obtain s_net s_pre where s: "parse_cidr supernet = Inr (s_net, s_pre)"
    using assms(1) by (auto simp: pools_within_supernet_def split: sum.splits)
  then have "pool_within supernet s_net s_pre pool = Inr ()"
    using assms by (simp add: pools_within_supernet_def)
  then obtain net pre where n: "parse_cidr (ip_cidr pool) = Inr (net, pre)"
    and within: "same_family net s_net" "s_pre \<le> pre" "cidr_contains s_net s_pre net"
    by (auto simp: pool_within_def split: sum.splits)
  have "cidr_contains s_net s_pre ip" if "cidr_contains net pre ip" for ip
  proof -
    let ?k = "host_bits s_net s_pre" and ?j = "host_bits net pre"
    have ok: "prefix_ok s_net s_pre" "prefix_ok net pre" using parse_cidr_ok [OF s] parse_cidr_ok [OF n] by auto
    have k: "?k = ?j + (unat pre - unat s_pre)"
      using ok within(1,2) by (auto simp: host_bits_def prefix_ok_def same_family_def word_le_nat_alt)
    have "ip_value net div 2 ^ ?j = ip_value ip div 2 ^ ?j" "ip_value s_net div 2 ^ ?k = ip_value net div 2 ^ ?k"
      using ok that within(3) by (simp_all add: contains_iff)
    then have "ip_value s_net div 2 ^ ?k = ip_value ip div 2 ^ ?k"
      unfolding k power_add by (metis div_mult2_eq)
    with ok that within(1) show ?thesis by (auto simp: contains_iff same_family_def)
  qed
  with s n that show ?thesis by blast
qed

subsection \<open>Usable hosts\<close>

lemma unat_mask: "k \<le> 32 \<Longrightarrow> unat (mask k :: u32) = 2 ^ k - 1"
proof -
  assume "k \<le> 32"
  then have "(2 :: nat) ^ k \<le> 2 ^ 32" by (rule power_increasing) simp
  then have "2 ^ k - 1 < (2 :: nat) ^ 32" by (simp add: less_le_trans)
  moreover have "unat (mask k :: u32) = unat (word_of_nat (2 ^ k - 1) :: u32)"
    by (metis mask_nat_def of_nat_mask_eq)
  ultimately show ?thesis by (simp only: unat_of_nat) (simp add: take_bit_eq_mod)
qed

lemma unat_or_mask:
  assumes "k \<le> 32" "unat (x :: u32) mod 2 ^ k = 0"
  shows "unat (x OR mask k) = unat x + (2 ^ k - 1)"
proof -
  have "unat x AND unat (mask k :: u32) = 0"
    using assms by (metis mask_nat_def take_bit_eq_mask take_bit_eq_mod unat_mask)
  then have "unat x + unat (mask k :: u32) = unat x OR unat (mask k :: u32)" by (rule disjunctive_add_eq_or)
  then show ?thesis using assms(1) by (simp add: unsigned_or_eq unat_mask)
qed

lemma aligned_room:
  assumes "m mod 2 ^ k = 0" "m < 2 ^ n" "k \<le> n"
  shows "m + 2 ^ k \<le> (2 :: nat) ^ n"
proof -
  have "m = (m div 2 ^ k) * 2 ^ k" using assms(1) by auto
  moreover have p: "(2 :: nat) ^ n = 2 ^ (n - k) * 2 ^ k" using assms(3) by (simp add: power_add [symmetric])
  ultimately have "m div 2 ^ k < 2 ^ (n - k)"
    using assms(2) by (simp add: less_mult_imp_div_less)
  then have "Suc (m div 2 ^ k) * 2 ^ k \<le> 2 ^ (n - k) * 2 ^ k" by (intro mult_right_mono) auto
  with p \<open>m = (m div 2 ^ k) * 2 ^ k\<close> show ?thesis by simp
qed

definition slack :: "u8 \<Rightarrow> nat" where
  "slack prefix = (if unat prefix \<ge> 31 then 0 else 1)"

text \<open>The usable hosts are the whole block without its ends, or the whole block when it has at most two.\<close>

lemma usable_range_value:
  assumes "unat prefix \<le> 32" "unat base mod 2 ^ (32 - unat prefix) = 0"
  shows "unat (fst (usable_v4_range base prefix)) = unat base + slack prefix
    \<and> unat (snd (usable_v4_range base prefix)) = unat base + 2 ^ (32 - unat prefix) - 1 - slack prefix"
proof -
  let ?k = "32 - unat prefix"
  have room: "unat base + 2 ^ ?k \<le> 2 ^ 32"
    using aligned_room [OF assms(2), of 32] unsigned_less [of base, where ?'a = nat] by simp
  have eqs: "prefix = 32 \<longleftrightarrow> unat prefix = 32" "prefix = 31 \<longleftrightarrow> unat prefix = 31"
    by (auto simp: word_unat_eq_iff)
  have succ: "unat (base + 1) = unat base + 1" if "unat base + 1 < 2 ^ 32"
    using that by (simp add: unat_word_ariths)
  consider "unat prefix = 32" | "unat prefix = 31" | "unat prefix \<le> 30" using assms(1) by linarith
  then show ?thesis
  proof cases
    case 1
    then show ?thesis by (simp add: usable_v4_range_def eqs slack_def)
  next
    case 2
    then show ?thesis using room succ by (simp add: usable_v4_range_def eqs slack_def)
  next
    case 3
    then have k: "2 \<le> ?k" by simp
    then have four: "(4 :: nat) \<le> 2 ^ ?k" using power_increasing [of 2 ?k "2 :: nat"] by simp
    have b: "unat (base OR mask ?k) = unat base + (2 ^ ?k - 1)" using assms by (simp add: unat_or_mask)
    have "unat ((base OR mask ?k) - 1) = unat base + (2 ^ ?k - 1) - 1"
      using b four by (subst unat_minus_one) (auto simp: word_unat_eq_iff)
    with 3 room succ four show ?thesis
      by (simp add: usable_v4_range_def eqs slack_def drop_bit_of_minus_1_eq Let_def)
  qed
qed

lemma usable_range_order:
  assumes "unat prefix \<le> 32" "unat base mod 2 ^ (32 - unat prefix) = 0"
  shows "fst (usable_v4_range base prefix) \<le> snd (usable_v4_range base prefix)"
proof -
  define n where "n = (2 :: nat) ^ (32 - unat prefix)"
  have "unat prefix < 31 \<Longrightarrow> 4 \<le> n"
    using power_increasing [of 2 "32 - unat prefix" "2 :: nat"] by (simp add: n_def)
  moreover have "1 \<le> n" by (simp add: n_def)
  ultimately have "2 * slack prefix + 1 \<le> n" by (cases "unat prefix < 31") (auto simp: slack_def)
  then show ?thesis
    using usable_range_value [OF assms] unfolding word_le_nat_alt n_def [symmetric] by linarith
qed

lemma block_div: "m mod n = 0 \<Longrightarrow> m \<le> a \<Longrightarrow> a < m + n \<Longrightarrow> a div n = m div (n :: nat)"
proof -
  assume "m mod n = 0" and a: "m \<le> a" "a < m + n"
  then have "n * (m div n) = m" by auto
  with a show ?thesis by (intro div_nat_eqI) (auto simp: algebra_simps)
qed

lemma usable_in_block:
  assumes "unat prefix \<le> 32" "unat base mod 2 ^ (32 - unat prefix) = 0"
    and "fst (usable_v4_range base prefix) \<le> a" "a \<le> snd (usable_v4_range base prefix)"
  shows "cidr_contains (V4 base) prefix (V4 a)"
proof -
  let ?n = "(2 :: nat) ^ (32 - unat prefix)"
  have "1 \<le> ?n" by simp
  then have "unat base \<le> unat a" "unat a < unat base + ?n"
    using usable_range_value [OF assms(1,2)] assms(3,4) unfolding word_le_nat_alt by linarith+
  then have "unat a div ?n = unat base div ?n" using block_div [OF assms(2)] by blast
  with assms(1) show ?thesis
    by (simp add: contains_iff prefix_ok_def same_family_def ip_value_def host_bits_def)
qed

subsection \<open>The allocator\<close>

lemma word_step: "(cur :: u32) \<le> last_host \<Longrightarrow> cur \<noteq> last_host \<Longrightarrow> unat (cur + 1) = unat cur + 1 \<and> cur + 1 \<le> last_host"
proof -
  assume "cur \<le> last_host" "cur \<noteq> last_host"
  then have l: "unat cur < unat last_host" by (simp add: word_less_nat_alt [symmetric])
  then have "unat (cur + 1) = unat cur + 1"
    using unsigned_less [of last_host, where ?'a = nat] by (simp add: unat_word_ariths)
  with l show ?thesis by (simp add: word_le_nat_alt)
qed

lemma probe_v4_found:
  "probe_v4 fuel free cur last_host = Some ip \<Longrightarrow> cur \<le> last_host \<Longrightarrow>
    \<exists>a. ip = V4 a \<and> free ip \<and> cur \<le> a \<and> a \<le> last_host"
proof (induction fuel free cur last_host rule: probe_v4.induct)
  case (1 free cur last_host)
  then show ?case by simp
next
  case (2 fuel free cur last_host)
  show ?case
  proof (cases "free (V4 cur) \<or> cur = last_host")
    case True
    with "2.prems" show ?thesis by (auto split: if_splits)
  next
    case False
    with "2.prems" have step: "unat (cur + 1) = unat cur + 1" "cur + 1 \<le> last_host" using word_step by auto
    then have "cur \<le> cur + 1" by (simp add: word_le_nat_alt)
    with False "2.prems" "2.IH" step show ?thesis by (auto intro: order_trans)
  qed
qed

lemma probe_v4_none:
  "probe_v4 fuel free cur last_host = None \<Longrightarrow> cur \<le> a \<Longrightarrow> a \<le> last_host \<Longrightarrow>
    unat last_host - unat cur < fuel \<Longrightarrow> \<not> free (V4 a)"
proof (induction fuel free cur last_host rule: probe_v4.induct)
  case (1 free cur last_host)
  then show ?case by simp
next
  case (2 fuel free cur last_host)
  from "2.prems" have nf: "\<not> free (V4 cur)" by (auto split: if_splits)
  show ?case
  proof (cases "a = cur")
    case True
    with nf show ?thesis by simp
  next
    case False
    with "2.prems" have "cur \<noteq> last_host" by auto
    with "2.prems" have step: "unat (cur + 1) = unat cur + 1" "cur + 1 \<le> last_host"
      using word_step [of cur last_host] by auto
    moreover have "cur + 1 \<le> a"
      using False "2.prems"(2) step(1) by (auto simp: word_le_nat_alt word_unat_eq_iff)
    moreover have "unat last_host - unat (cur + 1) < fuel"
      using "2.prems"(4) step by (auto simp: word_le_nat_alt)
    ultimately show ?thesis
      using "2.IH" [OF nf \<open>cur \<noteq> last_host\<close>] "2.prems" nf \<open>cur \<noteq> last_host\<close> by simp
  qed
qed

lemma probe_v6_found:
  "probe_v6 fuel free base prefix offset = Some (Some ip) \<Longrightarrow> 0 < offset \<Longrightarrow>
    \<exists>a. ip = V6 a \<and> free ip \<and> cidr_contains (V6 base) prefix ip \<and> a \<noteq> base"
proof (induction fuel free base prefix offset rule: probe_v6.induct)
  case (1 free base prefix offset)
  then show ?case by simp
next
  case (2 fuel free base prefix offset)
  have "base + word_of_nat offset \<noteq> base" if "unat base + offset < 2 ^ 128"
  proof
    assume "base + word_of_nat offset = base"
    then have "unat (word_of_nat offset :: u128) = 0" by simp
    with that "2.prems"(2) show False by (simp add: unat_of_nat)
  qed
  with 2 show ?case by (auto simp: Let_def not_le split: if_splits)
qed

lemma pool_blocks:
  assumes "parse_cidr text = Inr (V4 n, prefix)"
  shows "unat prefix \<le> 32" "unat n mod 2 ^ (32 - unat prefix) = 0"
  using parse_cidr_ok [OF assms] by (auto simp: prefix_ok_def aligned_def ip_value_def host_bits_def)

lemma allocate_in_sound:
  "allocate_in taken pools = Some ip \<Longrightarrow>
    \<exists>pool\<in>set pools. \<exists>net pre. parse_cidr (ip_cidr pool) = Inr (net, pre) \<and> cidr_contains net pre ip
      \<and> check_slot label name net pre ip = Inr () \<and> \<not> taken ip \<and> \<not> excluded ip (ip_exclusions pool)"
proof (induction pools)
  case Nil
  then show ?case by simp
next
  case (Cons pool pools)
  let ?free = "\<lambda>ip. \<not> taken ip \<and> \<not> excluded ip (ip_exclusions pool)"
  from Cons.prems obtain net pre where c: "parse_cidr (ip_cidr pool) = Inr (net, pre)"
    by (auto simp: Let_def split: sum.splits)
  show ?case
  proof (cases net)
    case (V4 n)
    note b = pool_blocks [OF c [unfolded V4]]
    obtain lo hi where r: "usable_v4_range n pre = (lo, hi)" by (cases "usable_v4_range n pre")
    show ?thesis
    proof (cases "probe_v4 MAX_ALLOC_PROBES ?free lo hi")
      case None
      with Cons.prems Cons.IH c V4 r show ?thesis by (auto simp: Let_def)
    next
      case (Some ip')
      with Cons.prems c V4 r have ip: "ip' = ip" by (simp add: Let_def)
      obtain a where "ip = V4 a" "?free ip" "lo \<le> a" "a \<le> hi"
        using probe_v4_found [OF Some] usable_range_order [OF b] r ip by auto
      then show ?thesis
        using c V4 r usable_in_block [OF b, of a] by (auto simp: check_slot_def not_less intro!: bexI [of _ pool])
    qed
  next
    case (V6 n)
    show ?thesis
    proof (cases "probe_v6 MAX_ALLOC_PROBES ?free n pre 1")
      case None
      with Cons.prems c V6 show ?thesis by (simp add: Let_def)
    next
      case (Some found)
      show ?thesis
      proof (cases found)
        case None
        with Some Cons.prems Cons.IH c V6 show ?thesis by (auto simp: Let_def)
      next
        case (Some ip')
        with \<open>probe_v6 _ _ _ _ _ = Some found\<close> Cons.prems c V6 have "probe_v6 MAX_ALLOC_PROBES ?free n pre 1 = Some (Some ip)"
          by (simp add: Let_def)
        from probe_v6_found [OF this] c V6 show ?thesis by (auto simp: check_slot_def intro!: bexI [of _ pool])
      qed
    qed
  qed
qed

text \<open>
  C17. An allocated address is usable and free: it is the printed form of an address inside one of
  the pools, neither that pool's network nor its broadcast address, not excluded there, and held by
  no device and no reservation that has not been released.
\<close>

theorem allocation_sound:
  assumes "allocate_from_pools used pools reservations = Some out"
  shows "\<exists>ip. out = show_ip ip \<and> parse_ip out = Some ip
    \<and> \<not> (\<exists>u\<in>set used. parse_ip (str_trim u) = Some ip)
    \<and> \<not> (\<exists>r\<in>set reservations. re_state r \<noteq> Released \<and> parse_ip (str_trim (re_address r)) = Some ip)
    \<and> (\<exists>pool\<in>set pools. \<exists>net pre. parse_cidr (ip_cidr pool) = Inr (net, pre) \<and> cidr_contains net pre ip
        \<and> check_slot out (ip_name pool) net pre ip = Inr () \<and> \<not> excluded ip (ip_exclusions pool))"
proof -
  from assms obtain ip where ip: "allocate_in (address_taken used reservations) pools = Some ip" "out = show_ip ip"
    by (auto simp: allocate_from_pools_def)
  have slot: "check_slot out name net pre ip = Inr () \<longleftrightarrow> check_slot [] [] net pre ip = Inr ()" for name net pre
    by (cases net; cases ip) (simp_all add: check_slot_def split: prod.split)
  from allocate_in_sound [OF ip(1), of "[]" "[]"] have
    "\<not> address_taken used reservations ip"
    "\<exists>pool\<in>set pools. \<exists>net pre. parse_cidr (ip_cidr pool) = Inr (net, pre) \<and> cidr_contains net pre ip
        \<and> check_slot [] [] net pre ip = Inr () \<and> \<not> excluded ip (ip_exclusions pool)"
    by blast+
  moreover have "address_taken used reservations ip \<longleftrightarrow> (\<exists>u\<in>set used. parse_ip (str_trim u) = Some ip)
      \<or> (\<exists>r\<in>set reservations. re_state r \<noteq> Released \<and> parse_ip (str_trim (re_address r)) = Some ip)"
    by (force simp: address_taken_def map_filter_def)
  ultimately show ?thesis using ip(2) slot parse_show_ip [of ip] by blast
qed

lemma allocate_in_complete:
  "allocate_in taken pools = None \<Longrightarrow>
    \<forall>pool\<in>set pools. \<exists>n pre. parse_cidr (ip_cidr pool) = Inr (V4 n, pre) \<and> 16 \<le> unat pre \<Longrightarrow>
    pool \<in> set pools \<Longrightarrow> parse_cidr (ip_cidr pool) = Inr (V4 n, pre) \<Longrightarrow>
    fst (usable_v4_range n pre) \<le> a \<Longrightarrow> a \<le> snd (usable_v4_range n pre) \<Longrightarrow>
    taken (V4 a) \<or> excluded (V4 a) (ip_exclusions pool)"
proof (induction pools)
  case Nil
  then show ?case by simp
next
  case (Cons p ps)
  let ?free = "\<lambda>ip. \<not> taken ip \<and> \<not> excluded ip (ip_exclusions p)"
  from Cons.prems(2) obtain m q where c: "parse_cidr (ip_cidr p) = Inr (V4 m, q)" and q: "16 \<le> unat q" by auto
  obtain lo hi where r: "usable_v4_range m q = (lo, hi)" by (cases "usable_v4_range m q")
  note b = pool_blocks [OF c]
  from Cons.prems(1) c r have none: "probe_v4 MAX_ALLOC_PROBES ?free lo hi = None" and rest: "allocate_in taken ps = None"
    by (auto simp: Let_def split: option.splits)
  have "(2 :: nat) ^ (32 - unat q) \<le> 2 ^ 16" using q by (intro power_increasing) auto
  then have "unat hi - unat lo < MAX_ALLOC_PROBES"
    using usable_range_value [OF b] r by (auto simp: MAX_ALLOC_PROBES_def)
  then have here: "lo \<le> a \<Longrightarrow> a \<le> hi \<Longrightarrow> \<not> ?free (V4 a)"
    using probe_v4_none [OF none] by blast
  show ?case
  proof (cases "pool = p")
    case True
    with here c r Cons.prems show ?thesis by auto
  next
    case False
    with Cons.prems Cons.IH [OF rest] show ?thesis by (auto simp: c r none)
  qed
qed

text \<open>
  C18. The allocator gives up only when there is nothing left. For IPv4 pools of at most 65536
  addresses, which the probe bound covers, no answer means that every usable host of every pool is
  in use, reserved or excluded.
\<close>

theorem allocation_complete:
  assumes "allocate_from_pools used pools reservations = None"
    and "\<forall>pool\<in>set pools. \<exists>n pre. parse_cidr (ip_cidr pool) = Inr (V4 n, pre) \<and> 16 \<le> unat pre"
  shows "\<forall>pool\<in>set pools. \<forall>n pre a. parse_cidr (ip_cidr pool) = Inr (V4 n, pre)
      \<and> fst (usable_v4_range n pre) \<le> a \<and> a \<le> snd (usable_v4_range n pre) \<longrightarrow>
    address_taken used reservations (V4 a) \<or> excluded (V4 a) (ip_exclusions pool)"
  using assms allocate_in_complete by (auto simp: allocate_from_pools_def)

subsection \<open>A small pool\<close>

lemma parse_cidr_show:
  assumes "n \<le> (if is_ipv4 ip then 32 else 128)"
  shows "parse_cidr (show_ip ip @ ''/'' @ show_nat 10 n) = Inr (mask_addr ip (word_of_nat n), word_of_nat n)"
proof -
  have "CHR ''/'' \<notin> set (show_ip ip)" using show_ip_chars by blast
  then have "split_once (CHR ''/'') (show_ip ip @ ''/'' @ show_nat 10 n) = Some (show_ip ip, show_nat 10 n)"
    using split_once_append by simp
  moreover have "n \<le> 255" using assms by (auto split: if_splits)
  moreover from this have "unat (word_of_nat n :: u8) = n" by (simp add: unat_of_nat)
  ultimately show ?thesis
    using assms
    by (simp add: parse_cidr_def str_trim_show_ip str_trim_show_nat parse_show_ip parse_u8_def from_str_radix_show
        word_less_nat_alt split: if_splits)
qed

definition demo_pool :: "nat \<Rightarrow> ipam_pool" where
  "demo_pool n = \<lparr>ip_name = ''lab'', ip_cidr = show_ip (V4 0x0A000000) @ ''/'' @ show_nat 10 n, ip_exclusions = []\<rparr>"

lemma demo_pool_exclusions [simp]: "ip_exclusions (demo_pool n) = []"
  by (simp add: demo_pool_def)

lemma probe_v4_step:
  "probe_v4 MAX_ALLOC_PROBES free cur last_host =
     (if free (V4 cur) then Some (V4 cur)
      else if cur = last_host then None
      else probe_v4 (MAX_ALLOC_PROBES - 1) free (cur + 1) last_host)"
proof -
  have "MAX_ALLOC_PROBES = Suc (MAX_ALLOC_PROBES - 1)" by (simp add: MAX_ALLOC_PROBES_def)
  then show ?thesis by (metis probe_v4.simps(2))
qed

lemma demo_pool_cidr:
  "parse_cidr (ip_cidr (demo_pool 30)) = Inr (V4 0x0A000000, 30)" "parse_cidr (ip_cidr (demo_pool 32)) = Inr (V4 0x0A000000, 32)"
  using parse_cidr_show [of 30 "V4 0x0A000000"] parse_cidr_show [of 32 "V4 0x0A000000"]
  by (simp_all add: demo_pool_def mask_addr_def mask32_def push_bit_eq_mult)

theorem allocation_sound_witness:
  "\<exists>ip. allocate_from_pools [] [demo_pool 30] [] = Some (show_ip ip) \<and> cidr_contains (V4 0x0A000000) 30 ip"
proof -
  have "allocate_from_pools [] [demo_pool 30] [] = Some (show_ip (V4 0x0A000001))"
    by (simp add: allocate_from_pools_def demo_pool_cidr usable_v4_range_def probe_v4_step address_taken_def excluded_def map_filter_def)
  with allocation_sound [OF this] show ?thesis by (auto simp: demo_pool_cidr)
qed

theorem allocation_complete_witness:
  "allocate_from_pools [show_ip (V4 0x0A000000)] [demo_pool 32] [] = None
   \<and> address_taken [show_ip (V4 0x0A000000)] [] (V4 0x0A000000)"
proof -
  have none: "allocate_from_pools [show_ip (V4 0x0A000000)] [demo_pool 32] [] = None"
    by (simp add: allocate_from_pools_def demo_pool_cidr usable_v4_range_def probe_v4_step address_taken_def
        str_trim_show_ip parse_show_ip map_filter_def)
  have "excluded (V4 0x0A000000) (ip_exclusions (demo_pool 32)) = False" by (simp add: demo_pool_def excluded_def)
  with allocation_complete [OF none] none show ?thesis
    by (auto simp: demo_pool_cidr usable_v4_range_def)
qed

end
