(* ===== verification/Agent_Filter.thy ===== *)
theory Agent_Filter
  imports Filter_Policy
begin

section \<open>The Linux overlay chain (\<open>blaktaild/src/acl_filter.rs\<close>)\<close>

text \<open>
  On Linux the agent does not look at packets itself: it turns the coordinator's peer map into
  \<open>iptables\<close> argument vectors (\<open>plan_overlay_filter\<close>) and into an \<open>sshd\<close> drop-in
  (\<open>sshd_policy_config\<close>). The vectors are modelled word for word. How \<open>iptables\<close> reads one
  is not part of the repository, so the reader is a parameter, and \<open>documented_reads\<close> states
  the behaviour its manual gives for the options the agent uses. The lemmas carry the chain's verdict
  back to the same reading of the peer map (\<open>grants\<close>) that the mobile filter implements.
\<close>

definition ACL_CHAIN :: string where "ACL_CHAIN = ''BLAKTAIL-ACL''"

text \<open>The exchange port of \<open>blaktaild/src/pq.rs\<close>.\<close>

definition PQ_PORT :: u16 where "PQ_PORT = 51822"

datatype pq_setting = PqOff | PqPrefer | PqRequire

record peer_pq =
  pp_mode :: pq_setting
  pp_capable :: bool
  pp_block :: bool

record agent_peer =
  ag_id :: string
  ag_name :: string
  ag_wg_public_key :: string
  ag_endpoint :: "string option"
  ag_allowed_ips :: "string list"
  ag_dns_name :: string
  ag_tags :: "string list"
  ag_relay_endpoint :: "string option"
  ag_ingress :: "ingress option"
  ag_pq :: "peer_pq option"

type_synonym ipt_rule = "string list"

record filter_plan =
  fp_enforce :: bool
  fp_ipv4 :: "ipt_rule list"
  fp_ipv6 :: "ipt_rule list"

definition filter_plan_default :: filter_plan where
  "filter_plan_default = \<lparr>fp_enforce = False, fp_ipv4 = [], fp_ipv6 = []\<rparr>"

definition overlay_host :: "string \<Rightarrow> ip_addr option" where
  "overlay_host route =
     (case split_once (CHR ''/'') route of
        None \<Rightarrow> None
      | Some (address, prefix) \<Rightarrow>
          (case parse_ip address of
             None \<Rightarrow> None
           | Some parsed \<Rightarrow>
               (case parse_u8 prefix of
                  None \<Rightarrow> None
                | Some prefix \<Rightarrow> if prefix = (if is_ipv4 parsed then 32 else 128) then Some parsed else None)))"

definition overlay_host_addrs :: "string list \<Rightarrow> string list" where
  "overlay_host_addrs allowed_ips = map show_ip (List.map_filter overlay_host allowed_ips)"

definition iptables_port :: "string \<Rightarrow> string option" where
  "iptables_port spec =
     (let spec = str_trim spec
      in if spec = ''*'' then Some ''1:65535''
         else case split_once (CHR ''-'') spec of
           Some (start, stop) \<Rightarrow>
             (case parse_u16 start of
                None \<Rightarrow> None
              | Some start \<Rightarrow>
                  (case parse_u16 stop of
                     None \<Rightarrow> None
                   | Some stop \<Rightarrow>
                       if start = 0 \<or> stop = 0 \<or> start > stop then None
                       else Some (if start = stop then show_nat 10 (unat start)
                                  else show_nat 10 (unat start) @ '':'' @ show_nat 10 (unat stop))))
         | None \<Rightarrow>
             (case parse_u16 spec of
                None \<Rightarrow> None
              | Some port \<Rightarrow> if port \<noteq> 0 then Some (show_nat 10 (unat port)) else None))"

subsection \<open>Rule builders\<close>

definition established :: ipt_rule where
  "established = [''-A'', ACL_CHAIN, ''-m'', ''conntrack'', ''--ctstate'', ''RELATED,ESTABLISHED'', ''-j'', ''ACCEPT'']"

definition ipv6_text :: "string \<Rightarrow> bool" where
  "ipv6_text source \<longleftrightarrow> CHR '':'' \<in> set source"

definition accept_source :: "string \<Rightarrow> ipt_rule" where
  "accept_source source = [''-A'', ACL_CHAIN, ''-s'', source, ''-j'', ''ACCEPT'']"

definition accept_port :: "string \<Rightarrow> string \<Rightarrow> string \<Rightarrow> ipt_rule" where
  "accept_port source protocol port =
     [''-A'', ACL_CHAIN, ''-s'', source, ''-p'', protocol, ''--dport'', port, ''-j'', ''ACCEPT'']"

definition accept_icmp :: "string \<Rightarrow> ipt_rule" where
  "accept_icmp source =
     [''-A'', ACL_CHAIN, ''-s'', source, ''-p'', (if ipv6_text source then ''icmpv6'' else ''icmp''), ''-j'', ''ACCEPT'']"

definition reject_port :: "string \<Rightarrow> string \<Rightarrow> string \<Rightarrow> bool \<Rightarrow> ipt_rule" where
  "reject_port source protocol port tcp =
     [''-A'', ACL_CHAIN, ''-s'', source, ''-p'', protocol, ''--dport'', port, ''-j'', ''REJECT'', ''--reject-with'']
     @ [if tcp then ''tcp-reset''
        else if ipv6_text source then ''icmp6-port-unreachable'' else ''icmp-port-unreachable'']"

definition reject_icmp :: "string \<Rightarrow> ipt_rule" where
  "reject_icmp source =
     (let (protocol, reject) = (if ipv6_text source then (''icmpv6'', ''icmp6-port-unreachable'')
                                else (''icmp'', ''icmp-port-unreachable''))
      in [''-A'', ACL_CHAIN, ''-s'', source, ''-p'', protocol, ''-j'', ''REJECT'', ''--reject-with'', reject])"

definition final_reject :: "bool \<Rightarrow> ipt_rule list" where
  "final_reject ipv6 =
     [[''-A'', ACL_CHAIN, ''-p'', ''tcp'', ''-j'', ''REJECT'', ''--reject-with'', ''tcp-reset''],
      [''-A'', ACL_CHAIN, ''-j'', ''REJECT'', ''--reject-with'',
       (if ipv6 then ''icmp6-port-unreachable'' else ''icmp-port-unreachable'')]]"

definition source_reject :: "string \<Rightarrow> ipt_rule list" where
  "source_reject source =
     map (\<lambda>r. take 2 r @ [''-s'', source] @ drop 2 r) (final_reject (ipv6_text source))"

definition peer_rules :: "string \<Rightarrow> ingress \<Rightarrow> ipt_rule list" where
  "peer_rules source i =
     (let rules =
        map (\<lambda>port. reject_port source ''tcp'' port True) (List.map_filter iptables_port (in_deny_tcp i))
        @ map (\<lambda>port. reject_port source ''udp'' port False) (List.map_filter iptables_port (in_deny_udp i))
        @ (if in_deny_icmp i then [reject_icmp source] else [])
      in if in_all i then rules @ [accept_source source]
         else rules
              @ map (accept_port source ''tcp'') (List.map_filter iptables_port (in_tcp i))
              @ map (accept_port source ''udp'') (List.map_filter iptables_port (in_udp i))
              @ (if in_icmp i then [accept_icmp source] else [])
              @ source_reject source)"

subsection \<open>The plan\<close>

definition agent_ingress :: "agent_peer \<Rightarrow> ingress" where
  "agent_ingress peer =
     (case ag_ingress peer of Some i \<Rightarrow> i | None \<Rightarrow> ingress_default\<lparr>in_all := True\<rparr>)"

definition pq_exchange :: "agent_peer \<Rightarrow> bool" where
  "pq_exchange peer = (case ag_pq peer of None \<Rightarrow> False | Some pq \<Rightarrow> pp_mode pq \<noteq> PqOff \<and> pp_capable pq)"

definition address_rules :: "agent_peer \<Rightarrow> string \<Rightarrow> ipt_rule list" where
  "address_rules peer address =
     (if pq_exchange peer then [accept_port address ''tcp'' (show_nat 10 (unat PQ_PORT))] else [])
     @ peer_rules address (agent_ingress peer)"

definition append_address :: "agent_peer \<Rightarrow> ipt_rule list \<times> ipt_rule list \<Rightarrow> string \<Rightarrow> ipt_rule list \<times> ipt_rule list" where
  "append_address peer = (\<lambda>(ipv4, ipv6) address.
     if ipv6_text address then (ipv4, ipv6 @ address_rules peer address)
     else (ipv4 @ address_rules peer address, ipv6))"

definition append_peer :: "ipt_rule list \<times> ipt_rule list \<Rightarrow> agent_peer \<Rightarrow> ipt_rule list \<times> ipt_rule list" where
  "append_peer rules peer = foldl (append_address peer) rules (overlay_host_addrs (ag_allowed_ips peer))"

definition plan_overlay_filter :: "agent_peer list \<Rightarrow> filter_plan" where
  "plan_overlay_filter peers =
     (if \<not> (\<exists>peer\<in>set peers. ag_ingress peer \<noteq> None) then filter_plan_default
      else let (ipv4, ipv6) = foldl append_peer ([established], [established]) peers
           in \<lparr>fp_enforce = True, fp_ipv4 = ipv4 @ final_reject False, fp_ipv6 = ipv6 @ final_reject True\<rparr>)"

definition close_ssh :: "ingress \<Rightarrow> ingress" where
  "close_ssh i =
     (if ssh_restricted i \<and> \<not> (\<exists>spec\<in>set (in_deny_tcp i). spec = ''22'')
      then i\<lparr>in_deny_tcp := in_deny_tcp i @ [''22'']\<rparr> else i)"

definition fail_closed_ssh :: "agent_peer list \<Rightarrow> bool \<Rightarrow> agent_peer list" where
  "fail_closed_ssh peers users_enforced =
     (if users_enforced then peers
      else map (\<lambda>peer. peer\<lparr>ag_ingress := map_option close_ssh (ag_ingress peer)\<rparr>) peers)"

subsection \<open>The \<open>sshd\<close> drop-in\<close>

definition valid_login :: "string \<Rightarrow> bool" where
  "valid_login user =
     (case user of
        [] \<Rightarrow> False
      | first # rest \<Rightarrow>
          (is_ascii_alphabetic first \<or> first = CHR ''_'')
          \<and> length user \<le> 32
          \<and> list_all (\<lambda>ch. is_ascii_alphanumeric ch \<or> ch = CHR ''.'' \<or> ch = CHR ''_'' \<or> ch = CHR ''-'') rest)"

abbreviation NL :: char where "NL \<equiv> CHR 0x0A"

definition allow_users :: "ingress \<Rightarrow> string list" where
  "allow_users i = filter (\<lambda>u. u \<noteq> ''*'') (in_ssh_users i)"

definition names_ok :: "ingress \<Rightarrow> bool" where
  "names_ok i \<longleftrightarrow> list_all valid_login (allow_users i @ in_ssh_deny_users i)"

definition sshd_users :: "ingress \<Rightarrow> string" where
  "sshd_users i =
     (if \<not> names_ok i then ''    DenyUsers *'' @ [NL]
      else (if allow_users i \<noteq> [] then ''    AllowUsers '' @ join '' '' (allow_users i) @ [NL] else [])
           @ (if in_ssh_deny_users i \<noteq> [] then ''    DenyUsers '' @ join '' '' (in_ssh_deny_users i) @ [NL] else []))"

definition sshd_step :: "string \<times> bool \<Rightarrow> agent_peer \<Rightarrow> string \<times> bool" where
  "sshd_step = (\<lambda>(out, wrote) peer.
     case ag_ingress peer of
       None \<Rightarrow> (out, wrote)
     | Some i \<Rightarrow>
         if \<not> ssh_restricted i then (out, wrote)
         else let addresses = overlay_host_addrs (ag_allowed_ips peer)
              in if addresses = [] then (out, wrote)
                 else (out @ ''Match Address '' @ join '','' addresses @ [NL] @ sshd_users i, True))"

definition sshd_policy_config :: "agent_peer list \<Rightarrow> string" where
  "sshd_policy_config peers =
     (case foldl sshd_step (''# managed by blaktaild'' @ [NL], False) peers of
        (out, wrote) \<Rightarrow> if wrote then out @ ''Match all'' @ [NL] else out)"

subsection \<open>How \<open>iptables\<close> reads a rule\<close>

record ct_packet =
  ct_src :: ip_addr
  ct_dst :: ip_addr
  ct_proto :: u8
  ct_dport :: u16
  ct_established :: bool

definition port_arg :: "u16 \<times> u16 \<Rightarrow> string" where
  "port_arg = (\<lambda>(a, b). if a = b then show_nat 10 (unat a)
     else show_nat 10 (unat a) @ '':'' @ show_nat 10 (unat b))"

text \<open>
  What the manual says of the options in use: each narrows the packets a rule applies to, and
  \<open>-j\<close> ends the match part.
\<close>

definition documented_reads :: "(ipt_rule \<Rightarrow> ct_packet \<Rightarrow> bool) \<Rightarrow> bool" where
  "documented_reads reads \<longleftrightarrow>
     (\<forall>r p. reads (''-j'' # r) p)
     \<and> (\<forall>chain r p. reads (''-A'' # chain # r) p = reads r p)
     \<and> (\<forall>ip r p. reads (''-s'' # show_ip ip # r) p = (ct_src p = ip \<and> reads r p))
     \<and> (\<forall>ip n r p. n \<le> (if is_ipv4 ip then 32 else 128) \<longrightarrow>
          reads (''-d'' # (show_ip ip @ ''/'' @ show_nat 10 n) # r) p =
            (prefix_contains \<lparr>px_network = ip, px_bits = word_of_nat n\<rparr> (ct_dst p) \<and> reads r p))
     \<and> (\<forall>r p. reads (''-p'' # ''tcp'' # r) p = (ct_proto p = TCP \<and> reads r p))
     \<and> (\<forall>r p. reads (''-p'' # ''udp'' # r) p = (ct_proto p = UDP \<and> reads r p))
     \<and> (\<forall>r p. reads (''-p'' # ''icmp'' # r) p = (ct_proto p = ICMP \<and> reads r p))
     \<and> (\<forall>r p. reads (''-p'' # ''icmpv6'' # r) p = (ct_proto p = ICMPV6 \<and> reads r p))
     \<and> (\<forall>a b r p. a \<le> b \<longrightarrow>
          reads (''--dport'' # port_arg (a, b) # r) p = (in_range (a, b) (ct_dport p) \<and> reads r p))
     \<and> (\<forall>r p. reads (''-m'' # ''conntrack'' # ''--ctstate'' # ''RELATED,ESTABLISHED'' # r) p =
          (ct_established p \<and> reads r p))"

lemma documented_readsD:
  assumes "documented_reads reads"
  shows "reads (''-j'' # r) p"
    and "reads (''-A'' # chain # r) p = reads r p"
    and "reads (''-s'' # show_ip ip # r) p = (ct_src p = ip \<and> reads r p)"
    and "n \<le> (if is_ipv4 ip then 32 else 128) \<Longrightarrow>
      reads (''-d'' # (show_ip ip @ ''/'' @ show_nat 10 n) # r) p =
        (prefix_contains \<lparr>px_network = ip, px_bits = word_of_nat n\<rparr> (ct_dst p) \<and> reads r p)"
    and "reads (''-p'' # ''tcp'' # r) p = (ct_proto p = TCP \<and> reads r p)"
    and "reads (''-p'' # ''udp'' # r) p = (ct_proto p = UDP \<and> reads r p)"
    and "reads (''-p'' # ''icmp'' # r) p = (ct_proto p = ICMP \<and> reads r p)"
    and "reads (''-p'' # ''icmpv6'' # r) p = (ct_proto p = ICMPV6 \<and> reads r p)"
    and "a \<le> b \<Longrightarrow> reads (''--dport'' # port_arg (a, b) # r) p = (in_range (a, b) (ct_dport p) \<and> reads r p)"
    and "reads (''-m'' # ''conntrack'' # ''--ctstate'' # ''RELATED,ESTABLISHED'' # r) p =
      (ct_established p \<and> reads r p)"
  using assms unfolding documented_reads_def by (elim conjE, simp)+

fun jump_target :: "ipt_rule \<Rightarrow> string option" where
  "jump_target (w # target # r) = (if w = ''-j'' then Some target else jump_target (target # r))"
| "jump_target _ = None"

text \<open>A chain is traversed in order; the first rule that applies decides.\<close>

definition chain_verdict :: "(ipt_rule \<Rightarrow> ct_packet \<Rightarrow> bool) \<Rightarrow> ipt_rule list \<Rightarrow> ct_packet \<Rightarrow> string option" where
  "chain_verdict reads rules p =
     (case find (\<lambda>r. reads r p) rules of None \<Rightarrow> None | Some r \<Rightarrow> jump_target r)"

lemma chain_verdict_simps [simp]:
  "chain_verdict reads [] p = None"
  "chain_verdict reads (r # rs) p = (if reads r p then jump_target r else chain_verdict reads rs p)"
  by (simp_all add: chain_verdict_def)

subsection \<open>Ports and addresses in the vectors\<close>

lemma port_range_bounds: "port_range spec = Some (lo, hi) \<Longrightarrow> 0 < lo \<and> lo \<le> hi"
  by (auto simp: port_range_def Let_def word_neq_0_conv split: if_splits option.splits)

lemma show_all_ports: "port_arg (1, 65535) = ''1:65535''"
proof -
  have "digit_char 1 = CHR ''1''" "digit_char 3 = CHR ''3''" "digit_char 5 = CHR ''5''" "digit_char 6 = CHR ''6''"
    by code_simp+
  then show ?thesis by (simp add: port_arg_def show_nat.simps)
qed

lemma iptables_port_range: "iptables_port spec = map_option port_arg (port_range spec)"
proof -
  have single: "port_arg (p, p) = show_nat 10 (unat p)" for p by (simp add: port_arg_def)
  have pair: "(if a = b then show_nat 10 (unat a) else show_nat 10 (unat a) @ '':'' @ show_nat 10 (unat b)) =
      port_arg (a, b)" for a b
    by (simp add: port_arg_def)
  show ?thesis
    unfolding iptables_port_def port_range_def Let_def pair
    by (auto simp: single show_all_ports word_neq_0_conv split: option.splits)
qed

lemma iptables_ports: "List.map_filter iptables_port specs = map port_arg (List.map_filter port_range specs)"
  by (induction specs) (auto simp: map_filter_simps iptables_port_range split: option.splits)

lemma v4_text: "CHR '':'' \<notin> set (show_ipv4 a)"
proof
  assume "CHR '':'' \<in> set (show_ipv4 a)"
  then have "CHR '':'' \<in> set ''.'' \<or> (\<exists>x\<in>set (map (\<lambda>b. show_nat 10 (unat b)) (v4_octets a)). CHR '':'' \<in> set x)"
    unfolding show_ipv4_def by (rule join_chars)
  then show False using show_nat_digits [of 10 "CHR '':''"] by (auto simp: char_to_digit_def ascii_code_def)
qed

lemma join_sep_mem: "2 \<le> length xs \<Longrightarrow> c \<in> set (join [c] xs)"
  by (cases xs; cases "tl xs") (auto simp: join_def)

lemma v6_text: "CHR '':'' \<in> set (show_ipv6 a)"
proof (cases "to_ipv4_mapped a")
  case None
  have "CHR '':'' \<in> set (join '':'' (map (show_nat 16) (v6_groups a)))"
    by (rule join_sep_mem) (simp add: v6_groups_def)
  with None show ?thesis by (simp add: show_ipv6_def Let_def)
qed (simp add: show_ipv6_def)

lemma ipv6_text_show: "ipv6_text (show_ip ip) = is_ipv6 ip"
  using v4_text v6_text by (cases ip) (simp_all add: ipv6_text_def show_ip_def)

subsection \<open>One peer's block of rules\<close>

text \<open>ICMP travels in packets of its own family.\<close>

definition family_ok :: "ct_packet \<Rightarrow> bool" where
  "family_ok p \<longleftrightarrow> (is_icmp (ct_proto p) \<longrightarrow> (ct_proto p = ICMPV6) = is_ipv6 (ct_src p))"

definition plain_denied :: "ingress \<Rightarrow> u8 \<Rightarrow> u16 \<Rightarrow> bool" where
  "plain_denied i p port \<longleftrightarrow>
     p = TCP \<and> listed (in_deny_tcp i) port \<or> p = UDP \<and> listed (in_deny_udp i) port \<or> is_icmp p \<and> in_deny_icmp i"

definition target_word :: "bool \<Rightarrow> string" where
  "target_word accept = (if accept then ''ACCEPT'' else ''REJECT'')"

lemma parse_ip_head:
  assumes "char_to_digit 16 c = None" "c \<noteq> CHR '':''"
  shows "parse_ip (c # s) = None"
proof -
  have ten: "char_to_digit 10 c = None"
    using assms(1) by (auto simp: char_to_digit_def Let_def split: if_splits)
  then have v4: "read_ipv4_addr (c # s) = None"
    unfolding read_ipv4_addr_def read_v4_groups_4 by (simp add: read_separator_def read_number_def)
  have "read_v6_groups (Suc 7) 0 (c # s) = ([], False, c # s)"
    unfolding read_v6_groups.simps using v4 assms(1) by (simp add: read_separator_def read_number_def)
  then have "read_ipv6_addr (c # s) = None"
    using assms(2) by (simp add: read_ipv6_addr_def split: list.splits)
  with v4 show ?thesis by (simp add: parse_ip_def)
qed

lemma show_not_jump: "show_ip ip \<noteq> ''-j''" "port_arg rg \<noteq> ''-j''"
proof -
  have minus: "CHR ''-'' \<notin> set (show_nat 10 n)" for n using show_decimal_chars [of "CHR ''-''" n] by blast
  obtain a b where "rg = (a, b)" by (cases rg)
  with minus have "CHR ''-'' \<notin> set (port_arg rg)" by (simp add: port_arg_def)
  then show "port_arg rg \<noteq> ''-j''" by (metis list.set_intros(1))
  have "parse_ip ''-j'' = None"
    by (rule parse_ip_head) (simp_all add: char_to_digit_def ascii_code_def)
  then show "show_ip ip \<noteq> ''-j''" using parse_show_ip [of ip] by (metis option.distinct(1))
qed

lemma builder_targets:
  "jump_target (accept_source (show_ip ip)) = Some ''ACCEPT''"
  "q \<noteq> ''-j'' \<Longrightarrow> jump_target (accept_port (show_ip ip) q (port_arg rg)) = Some ''ACCEPT''"
  "jump_target (accept_icmp (show_ip ip)) = Some ''ACCEPT''"
  "q \<noteq> ''-j'' \<Longrightarrow> jump_target (reject_port (show_ip ip) q (port_arg rg) t) = Some ''REJECT''"
  "jump_target (reject_icmp (show_ip ip)) = Some ''REJECT''"
  "jump_target established = Some ''ACCEPT''"
  using show_not_jump
  by (simp_all add: accept_source_def accept_port_def accept_icmp_def reject_port_def reject_icmp_def established_def
      ACL_CHAIN_def Let_def)

lemma builder_reads:
  assumes "documented_reads reads"
  shows "reads (accept_source (show_ip ip)) p \<longleftrightarrow> ct_src p = ip"
    and "a \<le> b \<Longrightarrow> reads (accept_port (show_ip ip) ''tcp'' (port_arg (a, b))) p \<longleftrightarrow>
      ct_src p = ip \<and> ct_proto p = TCP \<and> in_range (a, b) (ct_dport p)"
    and "a \<le> b \<Longrightarrow> reads (accept_port (show_ip ip) ''udp'' (port_arg (a, b))) p \<longleftrightarrow>
      ct_src p = ip \<and> ct_proto p = UDP \<and> in_range (a, b) (ct_dport p)"
    and "a \<le> b \<Longrightarrow> reads (reject_port (show_ip ip) ''tcp'' (port_arg (a, b)) t) p \<longleftrightarrow>
      ct_src p = ip \<and> ct_proto p = TCP \<and> in_range (a, b) (ct_dport p)"
    and "a \<le> b \<Longrightarrow> reads (reject_port (show_ip ip) ''udp'' (port_arg (a, b)) t) p \<longleftrightarrow>
      ct_src p = ip \<and> ct_proto p = UDP \<and> in_range (a, b) (ct_dport p)"
    and "reads (accept_icmp (show_ip ip)) p \<longleftrightarrow> ct_src p = ip \<and> ct_proto p = (if is_ipv6 ip then ICMPV6 else ICMP)"
    and "reads (reject_icmp (show_ip ip)) p \<longleftrightarrow> ct_src p = ip \<and> ct_proto p = (if is_ipv6 ip then ICMPV6 else ICMP)"
    and "reads established p \<longleftrightarrow> ct_established p"
  using documented_readsD [OF assms]
  by (simp_all add: accept_source_def accept_port_def reject_port_def accept_icmp_def reject_icmp_def
      established_def ipv6_text_show)

lemma final_reject_verdict:
  assumes "documented_reads reads"
  shows "chain_verdict reads (final_reject v6 @ rest) p = Some ''REJECT''"
    and "chain_verdict reads (source_reject (show_ip ip) @ rest) p =
      (if ct_src p = ip then Some ''REJECT'' else chain_verdict reads rest p)"
  using documented_readsD [OF assms] show_not_jump
  by (simp_all add: final_reject_def source_reject_def ACL_CHAIN_def)

lemma chain_verdict_map:
  assumes "\<And>x. x \<in> set xs \<Longrightarrow> reads (f x) p = M x" "\<And>x. jump_target (f x) = Some t"
  shows "chain_verdict reads (map f xs @ rest) p =
    (if \<exists>x\<in>set xs. M x then Some t else chain_verdict reads rest p)"
  using assms by (induction xs) auto

lemma chain_verdict_append:
  "chain_verdict reads (xs @ ys) p = (if \<exists>r\<in>set xs. reads r p then chain_verdict reads xs p else chain_verdict reads ys p)"
  by (induction xs) auto

lemma listed_ranges:
  assumes "\<And>a b. a \<le> b \<Longrightarrow> M (a, b) \<longleftrightarrow> C \<and> in_range (a, b) port"
  shows "(\<exists>rg\<in>set (List.map_filter port_range specs). M rg) \<longleftrightarrow> C \<and> listed specs port"
proof -
  have "M rg \<longleftrightarrow> C \<and> in_range rg port" if "rg \<in> set (List.map_filter port_range specs)" for rg
  proof -
    obtain a b where "rg = (a, b)" by (cases rg)
    moreover have "a \<le> b" using that port_range_bounds calculation by (auto simp: map_filter_mem)
    ultimately show ?thesis using assms by simp
  qed
  then show ?thesis by (auto simp: listed_def)
qed

lemma ports_verdict:
  assumes d: "documented_reads reads" and "q = ''tcp'' \<and> n = TCP \<or> q = ''udp'' \<and> n = UDP"
  shows "chain_verdict reads (map (\<lambda>port. reject_port (show_ip ip) q port t) (List.map_filter iptables_port specs) @ rest) p =
      (if ct_src p = ip \<and> ct_proto p = n \<and> listed specs (ct_dport p) then Some ''REJECT'' else chain_verdict reads rest p)"
    and "chain_verdict reads (map (accept_port (show_ip ip) q) (List.map_filter iptables_port specs) @ rest) p =
      (if ct_src p = ip \<and> ct_proto p = n \<and> listed specs (ct_dport p) then Some ''ACCEPT'' else chain_verdict reads rest p)"
proof -
  have r: "reads (reject_port (show_ip ip) q (port_arg (a, b)) t) p \<longleftrightarrow>
        (ct_src p = ip \<and> ct_proto p = n) \<and> in_range (a, b) (ct_dport p)"
    and g: "reads (accept_port (show_ip ip) q (port_arg (a, b))) p \<longleftrightarrow>
        (ct_src p = ip \<and> ct_proto p = n) \<and> in_range (a, b) (ct_dport p)" if "a \<le> b" for a b
    using assms(2) builder_reads(2-5) [OF d that] by auto
  have tr: "jump_target (reject_port (show_ip ip) q (port_arg rg) t) = Some ''REJECT''"
    and tg: "jump_target (accept_port (show_ip ip) q (port_arg rg)) = Some ''ACCEPT''" for rg
    using assms(2) by (auto simp: builder_targets)
  have listed: "(\<exists>rg\<in>set (List.map_filter port_range specs). M rg) \<longleftrightarrow>
      (ct_src p = ip \<and> ct_proto p = n) \<and> listed specs (ct_dport p)"
    if "\<And>a b. a \<le> b \<Longrightarrow> M (a, b) \<longleftrightarrow> (ct_src p = ip \<and> ct_proto p = n) \<and> in_range (a, b) (ct_dport p)" for M
    using that by (rule listed_ranges)
  show "chain_verdict reads (map (\<lambda>port. reject_port (show_ip ip) q port t) (List.map_filter iptables_port specs) @ rest) p =
      (if ct_src p = ip \<and> ct_proto p = n \<and> listed specs (ct_dport p) then Some ''REJECT'' else chain_verdict reads rest p)"
    unfolding iptables_ports map_map comp_def
    using chain_verdict_map [where f = "\<lambda>rg. reject_port (show_ip ip) q (port_arg rg) t", OF refl tr]
      listed [OF r] by simp
  show "chain_verdict reads (map (accept_port (show_ip ip) q) (List.map_filter iptables_port specs) @ rest) p =
      (if ct_src p = ip \<and> ct_proto p = n \<and> listed specs (ct_dport p) then Some ''ACCEPT'' else chain_verdict reads rest p)"
    unfolding iptables_ports map_map comp_def
    using chain_verdict_map [where f = "\<lambda>rg. accept_port (show_ip ip) q (port_arg rg)", OF refl tg]
      listed [OF g] by simp
qed

lemma icmp_verdict:
  assumes d: "documented_reads reads" and "family_ok p"
  shows "chain_verdict reads ((if b then [reject_icmp (show_ip ip)] else []) @ rest) p =
      (if ct_src p = ip \<and> is_icmp (ct_proto p) \<and> b then Some ''REJECT'' else chain_verdict reads rest p)"
    and "chain_verdict reads ((if b then [accept_icmp (show_ip ip)] else []) @ rest) p =
      (if ct_src p = ip \<and> is_icmp (ct_proto p) \<and> b then Some ''ACCEPT'' else chain_verdict reads rest p)"
  using assms(2) builder_reads(6,7) [OF d] builder_targets(3,5)
  by (auto simp: family_ok_def is_icmp_def)

lemma peer_rules_verdict:
  assumes d: "documented_reads reads" and "family_ok p"
  shows "chain_verdict reads (peer_rules (show_ip ip) i @ rest) p =
    (if ct_src p \<noteq> ip then chain_verdict reads rest p
     else Some (target_word (\<not> plain_denied i (ct_proto p) (ct_dport p) \<and> granted i (ct_proto p) (ct_dport p))))"
proof -
  note v = ports_verdict(1) [OF d, where q = "''tcp''" and n = TCP] ports_verdict(1) [OF d, where q = "''udp''" and n = UDP]
    ports_verdict(2) [OF d, where q = "''tcp''" and n = TCP] ports_verdict(2) [OF d, where q = "''udp''" and n = UDP]
    icmp_verdict [OF assms]
  have kinds: "\<not> is_icmp TCP" "\<not> is_icmp UDP" by (simp_all add: is_icmp_def)
  have block: "chain_verdict reads (peer_rules (show_ip ip) i @ rest) p =
    (if ct_src p = ip \<and> plain_denied i (ct_proto p) (ct_dport p) then Some ''REJECT''
     else if ct_src p = ip \<and> granted i (ct_proto p) (ct_dport p) then Some ''ACCEPT''
     else if ct_src p = ip then Some ''REJECT'' else chain_verdict reads rest p)"
  proof (cases "in_all i")
    case True
    have "chain_verdict reads (peer_rules (show_ip ip) i @ rest) p = chain_verdict reads
       (map (\<lambda>port. reject_port (show_ip ip) ''tcp'' port True) (List.map_filter iptables_port (in_deny_tcp i))
        @ map (\<lambda>port. reject_port (show_ip ip) ''udp'' port False) (List.map_filter iptables_port (in_deny_udp i))
        @ (if in_deny_icmp i then [reject_icmp (show_ip ip)] else [])
        @ accept_source (show_ip ip) # rest) p"
      using True by (simp add: peer_rules_def)
    with True show ?thesis
      unfolding v(1) [OF disjI1, OF conjI, OF refl refl] v(2) [OF disjI2, OF conjI, OF refl refl] v(5)
      by (auto simp: builder_reads(1) [OF d] builder_targets(1) plain_denied_def granted_def)
  next
    case False
    have "chain_verdict reads (peer_rules (show_ip ip) i @ rest) p = chain_verdict reads
       (map (\<lambda>port. reject_port (show_ip ip) ''tcp'' port True) (List.map_filter iptables_port (in_deny_tcp i))
        @ map (\<lambda>port. reject_port (show_ip ip) ''udp'' port False) (List.map_filter iptables_port (in_deny_udp i))
        @ (if in_deny_icmp i then [reject_icmp (show_ip ip)] else [])
        @ map (accept_port (show_ip ip) ''tcp'') (List.map_filter iptables_port (in_tcp i))
        @ map (accept_port (show_ip ip) ''udp'') (List.map_filter iptables_port (in_udp i))
        @ (if in_icmp i then [accept_icmp (show_ip ip)] else []) @ source_reject (show_ip ip) @ rest) p"
      using False by (simp add: peer_rules_def)
    with False kinds show ?thesis
      unfolding v(1,3) [OF disjI1, OF conjI, OF refl refl] v(2,4) [OF disjI2, OF conjI, OF refl refl] v(5,6)
        final_reject_verdict [OF d]
      by (auto simp: plain_denied_def granted_def)
  qed
  then show ?thesis by (auto simp: target_word_def)
qed

subsection \<open>The whole chain\<close>

definition agent_hosts :: "agent_peer \<Rightarrow> ip_addr list" where
  "agent_hosts peer = List.map_filter overlay_host (ag_allowed_ips peer)"

definition chain_for :: "filter_plan \<Rightarrow> ct_packet \<Rightarrow> ipt_rule list" where
  "chain_for plan p = (if is_ipv6 (ct_src p) then fp_ipv6 plan else fp_ipv4 plan)"

text \<open>The first peer that owns an address, in the order of the peer map.\<close>

definition first_owner :: "agent_peer list \<Rightarrow> ip_addr \<Rightarrow> agent_peer option" where
  "first_owner peers src = find (\<lambda>peer. src \<in> set (agent_hosts peer)) peers"

definition agent_admits :: "bool \<Rightarrow> agent_peer \<Rightarrow> u8 \<Rightarrow> u16 \<Rightarrow> bool" where
  "agent_admits users_enforced peer p port \<longleftrightarrow>
     (let i = agent_ingress peer
      in p = TCP \<and> port = PQ_PORT \<and> pq_exchange peer
         \<or> \<not> (if users_enforced then plain_denied i p port else denied i p port) \<and> granted i p port)"

lemma address_rules_verdict:
  assumes d: "documented_reads reads" and "family_ok p"
  shows "chain_verdict reads (address_rules peer (show_ip ip) @ rest) p =
    (if ct_src p \<noteq> ip then chain_verdict reads rest p
     else Some (target_word (agent_admits True peer (ct_proto p) (ct_dport p))))"
proof -
  have port: "show_nat 10 (unat PQ_PORT) = port_arg (PQ_PORT, PQ_PORT)" by (simp add: port_arg_def)
  have "reads (accept_port (show_ip ip) ''tcp'' (show_nat 10 (unat PQ_PORT))) p \<longleftrightarrow>
      ct_src p = ip \<and> ct_proto p = TCP \<and> ct_dport p = PQ_PORT"
    unfolding port using builder_reads(2) [OF d, of PQ_PORT PQ_PORT ip p] by (auto simp: in_range_def)
  moreover have "jump_target (accept_port (show_ip ip) ''tcp'' (show_nat 10 (unat PQ_PORT))) = Some ''ACCEPT''"
    unfolding port by (simp add: builder_targets)
  ultimately show ?thesis
    by (auto simp: address_rules_def peer_rules_verdict [OF assms] agent_admits_def target_word_def Let_def)
qed

lemma address_rules_verdicts:
  assumes "documented_reads reads" "family_ok p"
  shows "chain_verdict reads (concat (map (\<lambda>ip. address_rules peer (show_ip ip)) ips) @ rest) p =
    (if ct_src p \<in> set ips then Some (target_word (agent_admits True peer (ct_proto p) (ct_dport p)))
     else chain_verdict reads rest p)"
  by (induction ips) (auto simp: address_rules_verdict [OF assms])

lemma append_addresses:
  "foldl (append_address peer) (r4, r6) (map show_ip ips) =
     (r4 @ concat (map (\<lambda>ip. address_rules peer (show_ip ip)) (filter is_ipv4 ips)),
      r6 @ concat (map (\<lambda>ip. address_rules peer (show_ip ip)) (filter is_ipv6 ips)))"
proof (induction ips arbitrary: r4 r6)
  case (Cons ip ips)
  then show ?case by (cases ip) (simp_all add: append_address_def ipv6_text_show)
qed simp

definition family_rules :: "(ip_addr \<Rightarrow> bool) \<Rightarrow> agent_peer list \<Rightarrow> ipt_rule list" where
  "family_rules fam peers =
     concat (map (\<lambda>peer. concat (map (\<lambda>ip. address_rules peer (show_ip ip)) (filter fam (agent_hosts peer)))) peers)"

lemma append_peers:
  "foldl append_peer (r4, r6) peers = (r4 @ family_rules is_ipv4 peers, r6 @ family_rules is_ipv6 peers)"
proof (induction peers arbitrary: r4 r6)
  case (Cons peer peers)
  then show ?case
    by (simp add: append_peer_def overlay_host_addrs_def append_addresses family_rules_def flip: agent_hosts_def)
qed (simp add: family_rules_def)

lemma family_rules_verdict:
  assumes "documented_reads reads" "family_ok p" "fam (ct_src p)"
  shows "chain_verdict reads (family_rules fam peers @ rest) p =
    (case first_owner peers (ct_src p) of
       None \<Rightarrow> chain_verdict reads rest p
     | Some peer \<Rightarrow> Some (target_word (agent_admits True peer (ct_proto p) (ct_dport p))))"
  using assms(3)
  by (induction peers) (simp_all add: family_rules_def first_owner_def address_rules_verdicts [OF assms(1,2)])

lemma plan_verdict:
  assumes d: "documented_reads reads" and fam: "family_ok p" and "\<exists>peer\<in>set peers. ag_ingress peer \<noteq> None"
  shows "chain_verdict reads (chain_for (plan_overlay_filter peers) p) p =
    Some (target_word (ct_established p
      \<or> (case first_owner peers (ct_src p) of
           None \<Rightarrow> False | Some peer \<Rightarrow> agent_admits True peer (ct_proto p) (ct_dport p))))"
proof -
  have "chain_verdict reads (final_reject v6) p = Some ''REJECT''" for v6
    using final_reject_verdict(1) [OF d, of v6 "[]"] by simp
  with assms(3) show ?thesis
    by (cases "ct_src p")
       (auto simp: plan_overlay_filter_def append_peers chain_for_def builder_reads(8) [OF d] builder_targets(6)
         family_rules_verdict [OF d fam] target_word_def
         split: option.splits)
qed

lemma close_ssh_denied: "plain_denied (close_ssh i) p port = denied i p port"
proof -
  have "in_deny_tcp (close_ssh i) = effective_deny_tcp i" "in_deny_udp (close_ssh i) = in_deny_udp i"
    "in_deny_icmp (close_ssh i) = in_deny_icmp i"
    by (simp_all add: close_ssh_def effective_deny_tcp_def)
  then show ?thesis by (simp add: plain_denied_def denied_def listed_effective)
qed

lemma fail_closed_owner:
  "first_owner (fail_closed_ssh peers enforced) src =
     map_option (\<lambda>peer. if enforced then peer else peer\<lparr>ag_ingress := map_option close_ssh (ag_ingress peer)\<rparr>)
       (first_owner peers src)"
proof (cases enforced)
  case True
  then show ?thesis by (cases "first_owner peers src") (simp_all add: fail_closed_ssh_def)
next
  case False
  then show ?thesis
    by (induction peers) (simp_all add: first_owner_def fail_closed_ssh_def agent_hosts_def)
qed

lemma fail_closed_admits:
  "agent_admits True (peer\<lparr>ag_ingress := map_option close_ssh (ag_ingress peer)\<rparr>) p port = agent_admits False peer p port"
proof -
  have "granted (close_ssh i) p port = granted i p port" for i by (simp add: granted_def close_ssh_def)
  moreover have "denied (ingress_default\<lparr>in_all := True\<rparr>) p port = plain_denied (ingress_default\<lparr>in_all := True\<rparr>) p port"
    by (simp add: denied_def plain_denied_def ssh_restricted_def ingress_default_def)
  ultimately show ?thesis
    by (simp add: agent_admits_def agent_ingress_def pq_exchange_def close_ssh_denied split: option.splits)
qed

lemma agent_admits_grants:
  "agent_admits False peer p port \<longleftrightarrow>
     grants (agent_ingress peer) (if pq_exchange peer then Some PQ_PORT else None) p port = Some True"
  by (auto simp: agent_admits_def grants_def Let_def)

text \<open>
  C7. The Linux chain enforces the peer map. Whatever program reads the rules as the manual
  describes them, a packet that starts a new flow is accepted exactly when the first peer that owns
  its source address grants its protocol and port: the post-quantum exchange port, or a grant that
  no denial covers. On a host that has not proved per-user SSH limits, TCP 22 counts as denied for
  every peer whose SSH grant is limited to users. Everything else is rejected, and packets of
  established connections always pass.
\<close>

theorem overlay_chain_exact:
  assumes "documented_reads reads" "family_ok p" "\<exists>peer\<in>set peers. ag_ingress peer \<noteq> None"
  shows "chain_verdict reads (chain_for (plan_overlay_filter (fail_closed_ssh peers users_enforced)) p) p =
    Some (if ct_established p
             \<or> (\<exists>peer. first_owner peers (ct_src p) = Some peer
                  \<and> agent_admits users_enforced peer (ct_proto p) (ct_dport p))
          then ''ACCEPT'' else ''REJECT'')"
proof -
  have "\<exists>peer\<in>set (fail_closed_ssh peers users_enforced). ag_ingress peer \<noteq> None"
    using assms(3) by (auto simp: fail_closed_ssh_def)
  from plan_verdict [OF assms(1,2) this] show ?thesis
    by (auto simp: fail_closed_owner fail_closed_admits target_word_def split: option.splits)
qed

subsection \<open>A reader that behaves as documented\<close>

definition reads_port :: "string \<Rightarrow> u16 \<Rightarrow> bool" where
  "reads_port spec port =
     (case split_once (CHR '':'') spec of
        None \<Rightarrow> parse_u16 spec = Some port
      | Some (a, b) \<Rightarrow>
          (case (parse_u16 a, parse_u16 b) of (Some a, Some b) \<Rightarrow> a \<le> port \<and> port \<le> b | _ \<Rightarrow> False))"

definition reads_protocol :: "string \<Rightarrow> u8 \<Rightarrow> bool" where
  "reads_protocol name p =
     (p = (if name = ''tcp'' then TCP else if name = ''udp'' then UDP else if name = ''icmp'' then ICMP else ICMPV6))"

fun read_options :: "ipt_rule \<Rightarrow> ct_packet \<Rightarrow> bool" where
  "read_options (w # v # r) p =
     (if w = ''-j'' then True
      else if w = ''-A'' \<or> w = ''-m'' then read_options r p
      else if w = ''-s'' then parse_ip v = Some (ct_src p) \<and> read_options r p
      else if w = ''-d'' then (case prefix_parse v of None \<Rightarrow> False | Some px \<Rightarrow> prefix_contains px (ct_dst p)) \<and> read_options r p
      else if w = ''-p'' then reads_protocol v (ct_proto p) \<and> read_options r p
      else if w = ''--dport'' then reads_port v (ct_dport p) \<and> read_options r p
      else w = ''--ctstate'' \<and> ct_established p \<and> read_options r p)"
| "read_options r p = (r = [''-j''])"

lemma reads_port_arg: "a \<le> b \<Longrightarrow> reads_port (port_arg (a, b)) port = in_range (a, b) port"
proof -
  assume "a \<le> b"
  have colon: "CHR '':'' \<notin> set (show_nat 10 n)" for n
    using show_nat_digits [of 10 "CHR '':''" n] by (auto simp: char_to_digit_def ascii_code_def)
  then have "split_once (CHR '':'') (show_nat 10 (unat a)) = None"
    "split_once (CHR '':'') (show_nat 10 (unat a) @ '':'' @ show_nat 10 (unat b)) =
       Some (show_nat 10 (unat a), show_nat 10 (unat b))"
    using split_once_append [of "CHR '':''" "show_nat 10 (unat a)"] by (simp_all add: split_once_None)
  then show ?thesis
    by (auto simp: reads_port_def port_arg_def in_range_def parse_u16_show)
qed

lemma read_options_documented: "documented_reads read_options"
proof -
  have prefix: "(case prefix_parse (show_ip ip @ CHR ''/'' # show_nat 10 n) of None \<Rightarrow> False
      | Some px \<Rightarrow> prefix_contains px d) = prefix_contains \<lparr>px_network = ip, px_bits = word_of_nat n\<rparr> d"
    if "n \<le> (if is_ipv4 ip then 32 else 128)" for ip n d
    using prefix_parse_show [of n ip] that by simp
  have jump: "read_options (''-j'' # r) p" for r p by (cases r) simp_all
  show ?thesis
    unfolding documented_reads_def
    by (intro conjI allI impI jump)
       (simp_all add: parse_show_ip reads_protocol_def reads_port_arg prefix eq_commute [of "ct_src p" for p] del: if_split)
qed

definition lan_peer :: agent_peer where
  "lan_peer =
     \<lparr>ag_id = ''a'', ag_name = ''a'', ag_wg_public_key = [], ag_endpoint = None,
      ag_allowed_ips = [show_ip (V4 0x64400002) @ ''/'' @ show_nat 10 32], ag_dns_name = [], ag_tags = [],
      ag_relay_endpoint = None, ag_ingress = Some (ingress_default\<lparr>in_tcp := [''22'']\<rparr>), ag_pq = None\<rparr>"

lemma unat_numeral_32: "unat (32 :: u8) = 32"
  by simp

lemma unat_numeral_128: "unat (128 :: u8) = 128"
  by simp

lemma overlay_host_show:
  "overlay_host (show_ip ip @ ''/'' @ show_nat 10 n) = (if n = (if is_ipv4 ip then 32 else 128) then Some ip else None)"
  if "n \<le> 128"
proof -
  have "CHR ''/'' \<notin> set (show_ip ip)" using show_ip_chars by blast
  then have "split_once (CHR ''/'') (show_ip ip @ ''/'' @ show_nat 10 n) = Some (show_ip ip, show_nat 10 n)"
    using split_once_append by simp
  moreover have "parse_u8 (show_nat 10 n) = Some (word_of_nat n)"
    using that by (simp add: parse_u8_def from_str_radix_show)
  moreover have u: "unat (word_of_nat n :: u8) = n" using that by (simp add: unat_of_nat)
  moreover have "(word_of_nat n = (32 :: u8)) = (n = 32)" using u by (metis of_nat_numeral unat_numeral_32)
  moreover have "(word_of_nat n = (128 :: u8)) = (n = 128)" using u by (metis of_nat_numeral unat_numeral_128)
  ultimately show ?thesis by (simp add: overlay_host_def parse_show_ip)
qed

lemma lan_peer_admits:
  "first_owner [lan_peer] (V4 0x64400002) = Some lan_peer" "agent_admits False lan_peer TCP 22"
proof -
  have "overlay_host (show_ip (V4 0x64400002) @ ''/'' @ show_nat 10 32) = Some (V4 0x64400002)"
    by (subst overlay_host_show) simp_all
  then show "first_owner [lan_peer] (V4 0x64400002) = Some lan_peer"
    by (simp add: first_owner_def agent_hosts_def lan_peer_def map_filter_simps)
  have "listed [''22''] 22" by (simp add: listed_def map_filter_simps port_range_22 in_range_def)
  then show "agent_admits False lan_peer TCP 22"
    by (simp add: agent_admits_def agent_ingress_def lan_peer_def granted_def denied_def ssh_restricted_def
        ingress_default_def listed_def map_filter_simps is_icmp_def)
qed

theorem overlay_chain_exact_witness:
  "chain_verdict read_options
     (chain_for (plan_overlay_filter (fail_closed_ssh [lan_peer] False))
        \<lparr>ct_src = V4 0x64400002, ct_dst = V4 0x64400001, ct_proto = TCP, ct_dport = 22, ct_established = False\<rparr>)
     \<lparr>ct_src = V4 0x64400002, ct_dst = V4 0x64400001, ct_proto = TCP, ct_dport = 22, ct_established = False\<rparr>
   = Some ''ACCEPT''"
  using overlay_chain_exact [OF read_options_documented, of
      "\<lparr>ct_src = V4 0x64400002, ct_dst = V4 0x64400001, ct_proto = TCP, ct_dport = 22, ct_established = False\<rparr>"
      "[lan_peer]" False] lan_peer_admits
  by (simp add: family_ok_def is_icmp_def lan_peer_def)

subsection \<open>The \<open>sshd\<close> file has the lines it means\<close>

definition sshd_lines :: "agent_peer \<Rightarrow> string list" where
  "sshd_lines peer =
     (case ag_ingress peer of
        None \<Rightarrow> []
      | Some i \<Rightarrow>
          if ssh_restricted i \<and> agent_hosts peer \<noteq> []
          then (''Match Address '' @ join '','' (map show_ip (agent_hosts peer)))
               # (if names_ok i
                  then (if allow_users i = [] then [] else [''    AllowUsers '' @ join '' '' (allow_users i)])
                       @ (if in_ssh_deny_users i = [] then [] else [''    DenyUsers '' @ join '' '' (in_ssh_deny_users i)])
                  else [''    DenyUsers *''])
          else [])"

definition unlines :: "string list \<Rightarrow> string" where
  "unlines ls = concat (map (\<lambda>l. l @ [NL]) ls)"

lemma unlines_append: "unlines (xs @ ys) = unlines xs @ unlines ys"
  by (simp add: unlines_def)

lemma str_split_unlines: "\<forall>l\<in>set ls. NL \<notin> set l \<Longrightarrow> str_split NL (unlines ls) = ls @ [[]]"
  by (induction ls) (simp_all add: unlines_def str_split_append)

lemma sshd_steps:
  "foldl sshd_step (unlines ls, w) peers = (unlines (ls @ concat (map sshd_lines peers)), w \<or> (\<exists>peer\<in>set peers. sshd_lines peer \<noteq> []))"
proof (induction peers arbitrary: ls w)
  case (Cons peer peers)
  have "sshd_step (unlines ls, w) peer = (unlines (ls @ sshd_lines peer), w \<or> sshd_lines peer \<noteq> [])"
    by (auto simp: sshd_step_def sshd_lines_def sshd_users_def overlay_host_addrs_def unlines_def Let_def
        simp flip: agent_hosts_def split: option.splits)
  with Cons show ?case by simp
qed simp

lemma login_no_newline: "valid_login u \<Longrightarrow> NL \<notin> set u \<and> CHR '' '' \<notin> set u"
  by (auto simp: valid_login_def list_all_iff is_ascii_alphanumeric_def is_ascii_alphabetic_def is_ascii_lowercase_def
      is_ascii_digit_def ascii_code_def split: list.splits)

lemma sshd_lines_clean: "l \<in> set (sshd_lines peer) \<Longrightarrow> NL \<notin> set l"
proof -
  assume l: "l \<in> set (sshd_lines peer)"
  have ip: "NL \<notin> set (show_ip ip)" for ip
    using show_ip_chars [of NL ip] by (auto simp: printing_def ascii_code_def)
  have users: "NL \<notin> set (join '' '' us)" if "list_all valid_login us" for us
    using that join_chars [of NL "'' ''" us] login_no_newline by (auto simp: list_all_iff)
  have hosts: "NL \<notin> set (join '','' (map show_ip ips))" for ips
    using ip join_chars [of NL "'',''" "map show_ip ips"] by auto
  obtain i where i: "ag_ingress peer = Some i" "ssh_restricted i" "agent_hosts peer \<noteq> []"
    using l by (cases "ag_ingress peer") (simp_all add: sshd_lines_def split: if_splits)
  show ?thesis
  proof (cases "names_ok i")
    case True
    then have "NL \<notin> set (join '' '' (allow_users i))" "NL \<notin> set (join '' '' (in_ssh_deny_users i))"
      using users by (simp_all add: names_ok_def)
    with l i True hosts show ?thesis by (auto simp: sshd_lines_def split: if_splits)
  next
    case False
    with l i hosts show ?thesis by (auto simp: sshd_lines_def)
  qed
qed

text \<open>
  C25. No user name can smuggle a directive into the \<open>sshd\<close> configuration: split at its
  newlines, the generated file is exactly the marker, for each peer with a user-limited grant one
  \<open>Match\<close> block (the allowed and the denied users when every name is a plain login, otherwise
  a denial of everybody), and a closing \<open>Match all\<close> when there is any block.
\<close>

theorem sshd_file_exact:
  "str_split NL (sshd_policy_config peers) =
     ''# managed by blaktaild'' # concat (map sshd_lines peers)
     @ (if \<exists>peer\<in>set peers. sshd_lines peer \<noteq> [] then [''Match all''] else []) @ [[]]"
proof -
  have "sshd_policy_config peers = unlines (''# managed by blaktaild'' # concat (map sshd_lines peers)
      @ (if \<exists>peer\<in>set peers. sshd_lines peer \<noteq> [] then [''Match all''] else []))"
    using sshd_steps [of "[''# managed by blaktaild'']" False peers]
    by (simp add: sshd_policy_config_def unlines_def)
  moreover have "\<forall>l\<in>set (''# managed by blaktaild'' # concat (map sshd_lines peers)
      @ (if \<exists>peer\<in>set peers. sshd_lines peer \<noteq> [] then [''Match all''] else [])). NL \<notin> set l"
    using sshd_lines_clean by auto
  ultimately show ?thesis using str_split_unlines by fastforce
qed

end
