(* ===== verification/Forward_Install.thy ===== *)
theory Forward_Install
  imports Agent_Filter
begin

section \<open>Swapping the forward chain (\<open>blaktaild/src/forward_filter.rs\<close>, \<open>install\<close>)\<close>

text \<open>
  New rules are built in a chain under a staging name, the forward hook is pointed at it, and only
  then the old chain goes. Commands are run by a \<open>Runner\<close>; it is the parameter \<open>run\<close>, a
  function on the state of the host. What the commands do to the tables is documented by
  \<open>iptables\<close> and stated as the step relation \<open>nf_effect\<close>; a command may also fail and then
  changes nothing. The lemmas follow the tables through every state that \<open>install\<close> passes.
\<close>

type_synonym outcome = "(bool \<times> string) option"
type_synonym 's runner = "'s \<Rightarrow> string \<Rightarrow> string list \<Rightarrow> outcome \<times> 's"

definition FORWARD_CHAIN :: string where "FORWARD_CHAIN = ''BLAKTAIL-FWD''"
definition STAGING_CHAIN :: string where "STAGING_CHAIN = ''BLAKTAIL-FWD-NEW''"
definition JUMP_COMMENT :: string where "JUMP_COMMENT = ''blaktail-forward''"
definition NFLOG_GROUP :: nat where "NFLOG_GROUP = 7841"

definition succeeded :: "outcome \<Rightarrow> bool" where
  "succeeded r = (case r of Some (ok, _) \<Rightarrow> ok | None \<Rightarrow> False)"

definition must :: "'s runner \<Rightarrow> 's \<Rightarrow> string \<Rightarrow> string list \<Rightarrow> (string + unit) \<times> 's" where
  "must run s bin args =
     (let (r, s) = run s bin args
      in (if succeeded r then Inr ()
          else Inl (bin @ '' '' @ join '' '' (take 2 args) @ '' failed while installing the forward filter''), s))"

definition jump :: "string \<Rightarrow> string \<Rightarrow> string \<Rightarrow> string list" where
  "jump iface chain op =
     [op, ''FORWARD''] @ (if op = ''-I'' then [''1''] else [])
     @ [''-i'', iface, ''-m'', ''comment'', ''--comment'', JUMP_COMMENT, ''-j'', chain]"

subsection \<open>Logging copies\<close>

fun names_icmp_proto :: "string list \<Rightarrow> bool" where
  "names_icmp_proto (a # b # r) \<longleftrightarrow> a = ''-p'' \<and> starts_with ''icmp'' b \<or> names_icmp_proto (b # r)"
| "names_icmp_proto _ \<longleftrightarrow> False"

definition log_prefix :: "bool \<Rightarrow> string list \<Rightarrow> string" where
  "log_prefix forward matches =
     (let explicit = (if forward then ''-d'' \<in> set matches
                      else ''--dport'' \<in> set matches \<or> names_icmp_proto matches)
      in if forward then (if explicit then ''bt:fwd:deny-rule'' else ''bt:fwd:default'')
         else (if explicit then ''bt:acl:deny-rule'' else ''bt:acl:default''))"

definition log_body :: "bool \<Rightarrow> string list \<Rightarrow> string list" where
  "log_body forward matches =
     matches @ [''-m'', ''limit'', ''--limit'', ''50/second'', ''--limit-burst'', ''100'', ''-j'', ''NFLOG'',
       ''--nflog-group'', show_nat 10 NFLOG_GROUP, ''--nflog-prefix'', log_prefix forward matches]"

fun log_inserts :: "string \<Rightarrow> bool \<Rightarrow> nat \<Rightarrow> nat \<Rightarrow> ipt_rule list \<Rightarrow> string list list" where
  "log_inserts chain forward index inserted [] = []"
| "log_inserts chain forward index inserted (body # bodies) =
     (if jump_target body = Some ''REJECT''
      then ([''-I'', chain, show_nat 10 (index + 1 + inserted)]
            @ log_body forward (takeWhile (\<lambda>arg. arg \<noteq> ''-j'') body))
           # log_inserts chain forward (Suc index) (Suc inserted) bodies
      else log_inserts chain forward (Suc index) inserted bodies)"

definition drop_log_inserts :: "string \<Rightarrow> ipt_rule list \<Rightarrow> bool \<Rightarrow> string list list" where
  "drop_log_inserts chain bodies forward = log_inserts chain forward 0 0 bodies"

subsection \<open>The swap\<close>

primrec run_times :: "nat \<Rightarrow> 's runner \<Rightarrow> 's \<Rightarrow> string \<Rightarrow> string list \<Rightarrow> 's" where
  "run_times 0 run s bin args = s"
| "run_times (Suc n) run s bin args = run_times n run (snd (run s bin args)) bin args"

definition remove_chain :: "'s runner \<Rightarrow> 's \<Rightarrow> string \<Rightarrow> string \<Rightarrow> string \<Rightarrow> 's" where
  "remove_chain run s bin iface chain =
     (let s = run_times 4 run s bin (jump iface chain ''-D'');
          s = snd (run s bin [''-F'', chain])
      in snd (run s bin [''-X'', chain]))"

fun append_all :: "'s runner \<Rightarrow> 's \<Rightarrow> string \<Rightarrow> ipt_rule list \<Rightarrow> (string + unit) \<times> 's" where
  "append_all run s bin [] = (Inr (), s)"
| "append_all run s bin (rule # rules) =
     (case must run s bin ([''-A'', STAGING_CHAIN] @ rule) of
        (Inl e, s) \<Rightarrow> (Inl e, s)
      | (Inr _, s) \<Rightarrow> append_all run s bin rules)"

fun insert_logs :: "'s runner \<Rightarrow> 's \<Rightarrow> string \<Rightarrow> string list list \<Rightarrow> 's" where
  "insert_logs run s bin [] = s"
| "insert_logs run s bin (args # rest) =
     (let (r, s) = run s bin args in if succeeded r then insert_logs run s bin rest else s)"

definition stage :: "'s runner \<Rightarrow> 's \<Rightarrow> string \<Rightarrow> string \<Rightarrow> ipt_rule list \<Rightarrow> (string + unit) \<times> 's" where
  "stage run s bin iface rules =
     (case must run s bin [''-N'', STAGING_CHAIN] of
        (Inl e, s) \<Rightarrow> (Inl e, s)
      | (Inr _, s) \<Rightarrow>
          (case append_all run s bin rules of
             (Inl e, s) \<Rightarrow> (Inl e, s)
           | (Inr _, s) \<Rightarrow>
               must run (insert_logs run s bin (drop_log_inserts STAGING_CHAIN rules True)) bin
                 (jump iface STAGING_CHAIN ''-I'')))"

definition install :: "'s runner \<Rightarrow> 's \<Rightarrow> string \<Rightarrow> string \<Rightarrow> ipt_rule list \<Rightarrow> (string + unit) \<times> 's" where
  "install run s bin iface rules =
     (case stage run (remove_chain run s bin iface STAGING_CHAIN) bin iface rules of
        (Inl e, s) \<Rightarrow> (Inl e, remove_chain run s bin iface STAGING_CHAIN)
      | (Inr _, s) \<Rightarrow> must run (remove_chain run s bin iface FORWARD_CHAIN) bin [''-E'', STAGING_CHAIN, FORWARD_CHAIN])"

definition clear :: "'s runner \<Rightarrow> 's \<Rightarrow> string \<Rightarrow> string \<Rightarrow> 's" where
  "clear run s bin iface =
     remove_chain run (remove_chain run s bin iface FORWARD_CHAIN) bin iface STAGING_CHAIN"

subsection \<open>What the commands do to the tables\<close>

text \<open>The chains, and the jumps from the forward hook as pairs of interface and chain.\<close>

record nf_tables =
  nf_chains :: "string \<Rightarrow> ipt_rule list option"
  nf_hook :: "(string \<times> string) list"

datatype nf_command =
  NewChain string
| Flush string
| DropChain string
| Rename string string
| Append string ipt_rule
| Insert string ipt_rule
| Hook string string
| Unhook string string

text \<open>The command that an argument vector names.\<close>

definition jump_words :: "string list \<Rightarrow> (string \<times> string) option" where
  "jump_words ws =
     (case ws of
        [i, iface, m, c, cc, comment, j, chain] \<Rightarrow> if i = ''-i'' \<and> j = ''-j'' then Some (iface, chain) else None
      | _ \<Rightarrow> None)"

fun nf_read :: "string list \<Rightarrow> nf_command option" where
  "nf_read (op # c # ws) =
     (if op = ''-N'' then Some (NewChain c)
      else if op = ''-F'' then Some (Flush c)
      else if op = ''-X'' then Some (DropChain c)
      else if op = ''-E'' then (case ws of [b] \<Rightarrow> Some (Rename c b) | _ \<Rightarrow> None)
      else if op = ''-A'' then Some (Append c ws)
      else if op = ''-I'' then
        (if c = ''FORWARD'' then map_option (\<lambda>(iface, chain). Hook iface chain) (jump_words (tl ws))
         else Some (Insert c (tl ws)))
      else if op = ''-D'' \<and> c = ''FORWARD'' then map_option (\<lambda>(iface, chain). Unhook iface chain) (jump_words ws)
      else None)"
| "nf_read _ = None"

inductive nf_effect :: "nf_command \<Rightarrow> nf_tables \<Rightarrow> nf_tables \<Rightarrow> bool" where
  create: "nf_chains t c = None \<Longrightarrow> nf_effect (NewChain c) t (t\<lparr>nf_chains := (nf_chains t)(c \<mapsto> [])\<rparr>)"
| flush: "nf_chains t c = Some rs \<Longrightarrow> nf_effect (Flush c) t (t\<lparr>nf_chains := (nf_chains t)(c \<mapsto> [])\<rparr>)"
| drop_chain: "nf_chains t c = Some rs \<Longrightarrow> c \<notin> snd ` set (nf_hook t) \<Longrightarrow>
    nf_effect (DropChain c) t (t\<lparr>nf_chains := (nf_chains t)(c := None)\<rparr>)"
| rename: "nf_chains t a = Some rs \<Longrightarrow> nf_chains t b = None \<Longrightarrow>
    nf_effect (Rename a b) t \<lparr>nf_chains = (nf_chains t)(a := None, b \<mapsto> rs),
      nf_hook = map (\<lambda>(i, c). (i, if c = a then b else c)) (nf_hook t)\<rparr>"
| append: "nf_chains t c = Some rs \<Longrightarrow> nf_effect (Append c r) t (t\<lparr>nf_chains := (nf_chains t)(c \<mapsto> rs @ [r])\<rparr>)"
| insert: "nf_chains t c = Some (xs @ ys) \<Longrightarrow> nf_effect (Insert c r) t (t\<lparr>nf_chains := (nf_chains t)(c \<mapsto> xs @ r # ys)\<rparr>)"
| hook: "nf_chains t c = Some rs \<Longrightarrow> nf_effect (Hook iface c) t (t\<lparr>nf_hook := (iface, c) # nf_hook t\<rparr>)"
| unhook: "nf_hook t = xs @ (iface, c) # ys \<Longrightarrow> (iface, c) \<notin> set xs \<Longrightarrow>
    nf_effect (Unhook iface c) t (t\<lparr>nf_hook := xs @ ys\<rparr>)"

inductive_cases newE: "nf_effect (NewChain c) t t'"
inductive_cases flushE: "nf_effect (Flush c) t t'"
inductive_cases dropE: "nf_effect (DropChain c) t t'"
inductive_cases renameE: "nf_effect (Rename a b) t t'"
inductive_cases appendE: "nf_effect (Append c r) t t'"
inductive_cases insertE: "nf_effect (Insert c r) t t'"
inductive_cases hookE: "nf_effect (Hook iface c) t t'"
inductive_cases unhookE: "nf_effect (Unhook iface c) t t'"

text \<open>A command that does not succeed has changed nothing.\<close>

definition documented_exec :: "('s \<Rightarrow> nf_tables) \<Rightarrow> 's runner \<Rightarrow> string \<Rightarrow> bool" where
  "documented_exec tables run bin \<longleftrightarrow>
     (\<forall>s args. let (r, s') = run s bin args
        in if succeeded r then (\<exists>cmd. nf_read args = Some cmd \<and> nf_effect cmd (tables s) (tables s'))
           else tables s' = tables s)"

text \<open>The rules a packet from the interface meets first.\<close>

definition in_force :: "string \<Rightarrow> nf_tables \<Rightarrow> ipt_rule list option" where
  "in_force iface t =
     (case find (\<lambda>(i, _). i = iface) (nf_hook t) of None \<Rightarrow> None | Some (_, c) \<Rightarrow> nf_chains t c)"

definition is_log :: "ipt_rule \<Rightarrow> bool" where
  "is_log r \<longleftrightarrow> jump_target r = Some ''NFLOG''"

definition deciding :: "ipt_rule list \<Rightarrow> ipt_rule list" where
  "deciding rs = filter (\<lambda>r. \<not> is_log r) rs"

definition enforces_rules :: "string \<Rightarrow> ipt_rule list \<Rightarrow> nf_tables \<Rightarrow> bool" where
  "enforces_rules iface rules t \<longleftrightarrow> map_option deciding (in_force iface t) = Some (deciding rules)"

text \<open>Recording every state a runner passes through.\<close>

definition traced :: "'s runner \<Rightarrow> 's list runner" where
  "traced run h bin args = (case h of [] \<Rightarrow> (None, []) | s # h \<Rightarrow> (let (r, s') = run s bin args in (r, s' # s # h)))"

lemma nf_reads:
  "nf_read [''-N'', c] = Some (NewChain c)" "nf_read [''-F'', c] = Some (Flush c)" "nf_read [''-X'', c] = Some (DropChain c)"
  "nf_read [''-E'', a, b] = Some (Rename a b)" "nf_read ([''-A'', c] @ r) = Some (Append c r)"
  "c \<noteq> ''FORWARD'' \<Longrightarrow> nf_read ([''-I'', c, n] @ r) = Some (Insert c r)"
  "nf_read (jump iface c ''-I'') = Some (Hook iface c)" "nf_read (jump iface c ''-D'') = Some (Unhook iface c)"
  by (simp_all add: jump_def jump_words_def)

subsection \<open>Invariants of the swap\<close>

definition serving :: "string \<Rightarrow> string \<Rightarrow> ipt_rule list \<Rightarrow> nf_tables \<Rightarrow> bool" where
  "serving c iface rules t \<longleftrightarrow>
     find (\<lambda>(i, _). i = iface) (nf_hook t) = Some (iface, c)
     \<and> (\<exists>rs. nf_chains t c = Some rs \<and> deciding rs = deciding rules)"

definition settled :: "string \<Rightarrow> ipt_rule list \<Rightarrow> nf_tables \<Rightarrow> bool" where
  "settled iface rules t \<longleftrightarrow> serving FORWARD_CHAIN iface rules t \<and> STAGING_CHAIN \<notin> snd ` set (nf_hook t)"

definition staged :: "string \<Rightarrow> ipt_rule list \<Rightarrow> ipt_rule list \<Rightarrow> nf_tables \<Rightarrow> bool" where
  "staged iface old built t \<longleftrightarrow>
     settled iface old t \<and> (\<exists>rs. nf_chains t STAGING_CHAIN = Some rs \<and> deciding rs = deciding built)"

definition guarded :: "string \<Rightarrow> ipt_rule list \<Rightarrow> ipt_rule list \<Rightarrow> nf_tables \<Rightarrow> bool" where
  "guarded iface old rules t \<longleftrightarrow> enforces_rules iface old t \<or> enforces_rules iface rules t"

lemma chains_differ: "FORWARD_CHAIN \<noteq> STAGING_CHAIN" "STAGING_CHAIN \<noteq> FORWARD_CHAIN" "STAGING_CHAIN \<noteq> ''FORWARD''"
  by (simp_all add: FORWARD_CHAIN_def STAGING_CHAIN_def)

lemma serving_enforces: "serving c iface rules t \<Longrightarrow> enforces_rules iface rules t"
  by (auto simp: serving_def enforces_rules_def in_force_def)

lemma find_remove: "find P (xs @ x # ys) = Some y \<Longrightarrow> x \<noteq> y \<Longrightarrow> find P (xs @ ys) = Some y"
  by (induction xs) (auto split: if_splits)

text \<open>Commands on other chains keep the rules in force.\<close>

lemma serving_keeps:
  assumes "serving c iface rules t" "nf_effect cmd t t'" "d \<noteq> c"
    and "cmd \<in> {NewChain d, Flush d, DropChain d, Append d r, Insert d r, Unhook iface d}"
  shows "serving c iface rules t' \<and> snd ` set (nf_hook t') \<subseteq> snd ` set (nf_hook t)"
proof -
  have hook: "find (\<lambda>(i, _). i = iface) (nf_hook t) = Some (iface, c)" using assms(1) by (simp add: serving_def)
  from assms(4,2) consider "nf_hook t' = nf_hook t" "nf_chains t' c = nf_chains t c"
    | xs ys where "nf_hook t = xs @ (iface, d) # ys" "nf_hook t' = xs @ ys" "nf_chains t' c = nf_chains t c"
    using assms(3) by (auto elim!: newE flushE dropE appendE insertE unhookE)
  then show ?thesis
  proof cases
    case 1
    then show ?thesis using assms(1) by (simp add: serving_def)
  next
    case 2
    then have "find (\<lambda>(i, _). i = iface) (nf_hook t') = Some (iface, c)"
      using find_remove [of "\<lambda>(i, _). i = iface" xs "(iface, d)" ys "(iface, c)"] hook assms(3) by simp
    with 2 show ?thesis using assms(1) by (auto simp: serving_def)
  qed
qed

lemma settled_keeps:
  assumes "settled iface rules t" "nf_effect cmd t t'"
    and "cmd \<in> {NewChain STAGING_CHAIN, Flush STAGING_CHAIN, DropChain STAGING_CHAIN, Append STAGING_CHAIN r,
           Insert STAGING_CHAIN r, Unhook iface STAGING_CHAIN}"
  shows "settled iface rules t'"
  using serving_keeps [OF _ assms(2) chains_differ(2) assms(3), of rules] assms(1) by (auto simp: settled_def)

lemma staged_steps:
  "settled iface old t \<Longrightarrow> nf_effect (NewChain STAGING_CHAIN) t t' \<Longrightarrow> staged iface old [] t'"
  "staged iface old built t \<Longrightarrow> nf_effect (Append STAGING_CHAIN r) t t' \<Longrightarrow> staged iface old (built @ [r]) t'"
  "staged iface old built t \<Longrightarrow> nf_effect (Insert STAGING_CHAIN r) t t' \<Longrightarrow> is_log r \<Longrightarrow> staged iface old built t'"
  "staged iface old built t \<Longrightarrow> nf_effect (Hook iface STAGING_CHAIN) t t' \<Longrightarrow> serving STAGING_CHAIN iface built t'"
proof -
  show "settled iface old t \<Longrightarrow> nf_effect (NewChain STAGING_CHAIN) t t' \<Longrightarrow> staged iface old [] t'"
    using settled_keeps [of iface old t "NewChain STAGING_CHAIN" t'] by (auto simp: staged_def elim: newE)
  show "staged iface old built t \<Longrightarrow> nf_effect (Append STAGING_CHAIN r) t t' \<Longrightarrow> staged iface old (built @ [r]) t'"
    using settled_keeps [of iface old t "Append STAGING_CHAIN r" t' r] by (auto simp: staged_def deciding_def elim: appendE)
  show "staged iface old built t \<Longrightarrow> nf_effect (Insert STAGING_CHAIN r) t t' \<Longrightarrow> is_log r \<Longrightarrow> staged iface old built t'"
    using settled_keeps [of iface old t "Insert STAGING_CHAIN r" t' r] by (auto simp: staged_def deciding_def elim!: insertE)
  show "staged iface old built t \<Longrightarrow> nf_effect (Hook iface STAGING_CHAIN) t t' \<Longrightarrow> serving STAGING_CHAIN iface built t'"
    by (auto simp: staged_def serving_def elim: hookE)
qed

lemma renamed: "serving STAGING_CHAIN iface rules t \<Longrightarrow> nf_effect (Rename STAGING_CHAIN FORWARD_CHAIN) t t' \<Longrightarrow>
    serving FORWARD_CHAIN iface rules t'"
proof (erule renameE)
  fix rs
  assume s: "serving STAGING_CHAIN iface rules t"
    and t': "t' = \<lparr>nf_chains = (nf_chains t)(STAGING_CHAIN := None, FORWARD_CHAIN \<mapsto> rs),
      nf_hook = map (\<lambda>(i, c). (i, if c = STAGING_CHAIN then FORWARD_CHAIN else c)) (nf_hook t)\<rparr>"
    and rs: "nf_chains t STAGING_CHAIN = Some rs"
  have "find (\<lambda>(i, _). i = iface) (map (\<lambda>(i, c). (i, f c)) hs) =
      map_option (\<lambda>(i, c). (i, f c)) (find (\<lambda>(i, _). i = iface) hs)" for f :: "string \<Rightarrow> string" and hs
    by (induction hs) auto
  with s t' rs show ?thesis by (auto simp: serving_def)
qed

subsection \<open>Following the states\<close>

definition on_track :: "('s \<Rightarrow> nf_tables) \<Rightarrow> (nf_tables \<Rightarrow> bool) \<Rightarrow> (nf_tables \<Rightarrow> bool) \<Rightarrow> 's list \<Rightarrow> bool" where
  "on_track tables G I h \<longleftrightarrow> h \<noteq> [] \<and> (\<forall>s\<in>set h. G (tables s)) \<and> I (tables (hd h))"

lemma on_track_weaken: "on_track tables G I h \<Longrightarrow> (\<And>t. I t \<Longrightarrow> I' t) \<Longrightarrow> on_track tables G I' h"
  by (auto simp: on_track_def)

lemma traced_step:
  assumes "documented_exec tables run bin" "nf_read args = Some cmd" "on_track tables G I h"
    and "traced run h bin args = (r, h')"
    and "\<And>t t'. I t \<Longrightarrow> nf_effect cmd t t' \<Longrightarrow> I' t'" "\<And>t. I t \<Longrightarrow> G t" "\<And>t. I' t \<Longrightarrow> G t"
  shows "if succeeded r then on_track tables G I' h' else on_track tables G I h'"
proof -
  obtain s hs where h: "h = s # hs" using assms(3) by (cases h) (auto simp: on_track_def)
  obtain s' where h': "h' = s' # h" and r: "run s bin args = (r, s')"
    using assms(4) h by (auto simp: traced_def split: prod.splits)
  have "if succeeded r then nf_effect cmd (tables s) (tables s') else tables s' = tables s"
    using assms(1,2) r unfolding documented_exec_def by (auto dest!: spec [of _ s] spec [of _ args] split: if_splits)
  then show ?thesis using assms(3,5,6,7) h h' by (auto simp: on_track_def)
qed

lemma traced_keeps:
  assumes "documented_exec tables run bin" "nf_read args = Some cmd" "on_track tables G I h"
    and "\<And>t t'. I t \<Longrightarrow> nf_effect cmd t t' \<Longrightarrow> I t'" "\<And>t. I t \<Longrightarrow> G t"
  shows "on_track tables G I (snd (traced run h bin args))"
proof -
  obtain r h' where step: "traced run h bin args = (r, h')" by (cases "traced run h bin args")
  have "if succeeded r then on_track tables G I h' else on_track tables G I h'"
    by (rule traced_step [OF assms(1-3) step]) (use assms(4,5) in blast)+
  then show ?thesis using step by simp
qed

lemma must_step:
  assumes "documented_exec tables run bin" "nf_read args = Some cmd" "on_track tables G I h"
    and "must (traced run) h bin args = (res, h')"
    and "\<And>t t'. I t \<Longrightarrow> nf_effect cmd t t' \<Longrightarrow> I' t'" "\<And>t. I t \<Longrightarrow> G t" "\<And>t. I' t \<Longrightarrow> G t"
  shows "case res of Inr _ \<Rightarrow> on_track tables G I' h' | Inl _ \<Rightarrow> on_track tables G I h'"
proof -
  obtain r h1 where step: "traced run h bin args = (r, h1)" by (cases "traced run h bin args")
  have "if succeeded r then on_track tables G I' h1 else on_track tables G I h1"
    by (rule traced_step [OF assms(1-3) step]) (use assms(5-7) in blast)+
  then show ?thesis using assms(4) step by (auto simp: must_def)
qed

lemma run_times_keeps:
  assumes "documented_exec tables run bin" "nf_read args = Some cmd"
    and "\<And>t t'. I t \<Longrightarrow> nf_effect cmd t t' \<Longrightarrow> I t'" "\<And>t. I t \<Longrightarrow> G t"
  shows "on_track tables G I h \<Longrightarrow> on_track tables G I (run_times n (traced run) h bin args)"
proof (induction n arbitrary: h)
  case (Suc n)
  have "on_track tables G I (snd (traced run h bin args))"
    by (rule traced_keeps [OF assms(1,2) Suc.prems]) (use assms(3,4) in blast)+
  then show ?case using Suc.IH by simp
qed simp

lemma remove_chain_keeps:
  assumes d: "documented_exec tables run bin" and "on_track tables G I h" and g: "\<And>t. I t \<Longrightarrow> G t"
    and keep: "\<And>t t' cmd. cmd \<in> {Unhook iface c, Flush c, DropChain c} \<Longrightarrow> I t \<Longrightarrow> nf_effect cmd t t' \<Longrightarrow> I t'"
  shows "on_track tables G I (remove_chain (traced run) h bin iface c)"
proof -
  let ?h1 = "run_times 4 (traced run) h bin (jump iface c ''-D'')"
  have h1: "on_track tables G I ?h1" by (rule run_times_keeps [OF d nf_reads(8) _ g assms(2)]) (use keep in blast)
  have h2: "on_track tables G I (snd (traced run ?h1 bin [''-F'', c]))"
    by (rule traced_keeps [OF d nf_reads(2) h1 _ g]) (use keep in blast)
  have "on_track tables G I (snd (traced run (snd (traced run ?h1 bin [''-F'', c])) bin [''-X'', c]))"
    by (rule traced_keeps [OF d nf_reads(3) h2 _ g]) (use keep in blast)
  then show ?thesis by (simp only: remove_chain_def Let_def)
qed

lemma staged_settled: "on_track tables G (staged iface old built) h \<Longrightarrow> on_track tables G (settled iface old) h"
  by (auto simp: on_track_def staged_def)

lemma append_all_steps:
  assumes d: "documented_exec tables run bin" and g: "\<And>t. settled iface old t \<Longrightarrow> G t"
  shows "on_track tables G (staged iface old built) h \<Longrightarrow> append_all (traced run) h bin rules = (res, h') \<Longrightarrow>
    case res of Inr _ \<Rightarrow> on_track tables G (staged iface old (built @ rules)) h' | Inl _ \<Rightarrow> on_track tables G (settled iface old) h'"
proof (induction rules arbitrary: built h)
  case Nil
  then show ?case by auto
next
  case (Cons rule rules)
  obtain r h1 where m: "must (traced run) h bin ([''-A'', STAGING_CHAIN] @ rule) = (r, h1)"
    by (cases "must (traced run) h bin ([''-A'', STAGING_CHAIN] @ rule)")
  have sg: "staged iface old b t \<Longrightarrow> G t" for b t using g by (simp add: staged_def)
  have "case r of Inr _ \<Rightarrow> on_track tables G (staged iface old (built @ [rule])) h1
      | Inl _ \<Rightarrow> on_track tables G (staged iface old built) h1"
    by (rule must_step [OF d nf_reads(5) Cons.prems(1) m staged_steps(2) sg sg])
  then show ?case
    using Cons.IH [of "built @ [rule]" h1, unfolded append.assoc append.simps] Cons.prems(2) m
    by (cases r) (auto dest: staged_settled)
qed

lemma log_inserts_shape:
  "args \<in> set (log_inserts chain forward i n bodies) \<Longrightarrow> \<exists>pos r. args = [''-I'', chain, pos] @ r \<and> is_log r"
proof (induction bodies arbitrary: i n)
  case (Cons body bodies)
  have log: "is_log (log_body forward (takeWhile (\<lambda>arg. arg \<noteq> ''-j'') body))"
  proof -
    have "jump_target (ws @ r) = jump_target r" if "''-j'' \<notin> set ws" "r \<noteq> []" for ws r
      using that
    proof (induction ws)
      case (Cons w ws)
      then show ?case by (cases "ws @ r") auto
    qed simp
    moreover have "''-j'' \<notin> set (takeWhile (\<lambda>arg. arg \<noteq> ''-j'') body)" by (auto dest: set_takeWhileD)
    ultimately show ?thesis by (simp add: is_log_def log_body_def)
  qed
  have "args = ([''-I'', chain, show_nat 10 (i + 1 + n)] @ log_body forward (takeWhile (\<lambda>arg. arg \<noteq> ''-j'') body))
      \<or> (\<exists>i n. args \<in> set (log_inserts chain forward i n bodies))"
    using Cons.prems by (auto split: if_splits)
  with log Cons.IH show ?case by blast
qed simp

lemma insert_logs_keeps:
  assumes d: "documented_exec tables run bin" and g: "\<And>t. settled iface old t \<Longrightarrow> G t"
  shows "on_track tables G (staged iface old built) h \<Longrightarrow>
    (\<And>args. args \<in> set logs \<Longrightarrow> \<exists>pos r. args = [''-I'', STAGING_CHAIN, pos] @ r \<and> is_log r) \<Longrightarrow>
    on_track tables G (staged iface old built) (insert_logs (traced run) h bin logs)"
proof (induction logs arbitrary: h)
  case (Cons args logs)
  have "\<exists>pos r. args = [''-I'', STAGING_CHAIN, pos] @ r \<and> is_log r" by (rule Cons.prems(2)) simp
  then obtain pos r where args: "args = [''-I'', STAGING_CHAIN, pos] @ r" "is_log r" by (elim exE conjE) (rule that)
  have "on_track tables G (staged iface old built) (snd (traced run h bin args))"
    unfolding args(1)
    by (rule traced_keeps [OF d nf_reads(6) [OF chains_differ(3)] Cons.prems(1) staged_steps(3) [OF _ _ args(2)]])
       (simp_all add: staged_def g)
  moreover from this have "on_track tables G (staged iface old built)
      (insert_logs (traced run) (snd (traced run h bin args)) bin logs)"
    by (rule Cons.IH) (rule Cons.prems(2), simp)
  ultimately show ?case by (simp add: Let_def case_prod_beta)
qed simp

lemma stage_steps:
  assumes d: "documented_exec tables run bin" and g: "\<And>t. settled iface old t \<Longrightarrow> G t"
    and g': "\<And>t. serving STAGING_CHAIN iface rules t \<Longrightarrow> G t"
    and "on_track tables G (settled iface old) h" and st: "stage (traced run) h bin iface rules = (res, h')"
  shows "case res of Inr _ \<Rightarrow> on_track tables G (serving STAGING_CHAIN iface rules) h' | Inl _ \<Rightarrow> on_track tables G (settled iface old) h'"
proof -
  have sg: "staged iface old b t \<Longrightarrow> G t" for b t using g by (simp add: staged_def)
  obtain r1 h1 where s1: "must (traced run) h bin [''-N'', STAGING_CHAIN] = (r1, h1)"
    by (cases "must (traced run) h bin [''-N'', STAGING_CHAIN]")
  have c1: "case r1 of Inr _ \<Rightarrow> on_track tables G (staged iface old []) h1 | Inl _ \<Rightarrow> on_track tables G (settled iface old) h1"
    by (rule must_step [OF d nf_reads(1) assms(4) s1 staged_steps(1) g sg])
  show ?thesis
  proof (cases r1)
    case (Inl e)
    then show ?thesis using c1 s1 st by (auto simp: stage_def)
  next
    case (Inr u)
    obtain r2 h2 where s2: "append_all (traced run) h1 bin rules = (r2, h2)" by (cases "append_all (traced run) h1 bin rules")
    have c2: "case r2 of Inr _ \<Rightarrow> on_track tables G (staged iface old ([] @ rules)) h2 | Inl _ \<Rightarrow> on_track tables G (settled iface old) h2"
      using append_all_steps [OF d g _ s2] c1 Inr by simp
    show ?thesis
    proof (cases r2)
      case (Inl e)
      then show ?thesis using c2 s1 s2 st \<open>r1 = Inr u\<close> by (auto simp: stage_def)
    next
      case (Inr v)
      let ?h3 = "insert_logs (traced run) h2 bin (drop_log_inserts STAGING_CHAIN rules True)"
      have "on_track tables G (staged iface old rules) ?h3"
      proof (rule insert_logs_keeps [OF d g])
        show "on_track tables G (staged iface old rules) h2" using c2 Inr by simp
      next
        show "\<exists>pos r. args = [''-I'', STAGING_CHAIN, pos] @ r \<and> is_log r"
          if "args \<in> set (drop_log_inserts STAGING_CHAIN rules True)" for args
          using that unfolding drop_log_inserts_def by (rule log_inserts_shape)
      qed
      from must_step [OF d nf_reads(7) this _ staged_steps(4) sg g'] have
        "must (traced run) ?h3 bin (jump iface STAGING_CHAIN ''-I'') = (res, h') \<Longrightarrow>
          case res of Inr _ \<Rightarrow> on_track tables G (serving STAGING_CHAIN iface rules) h' | Inl _ \<Rightarrow> on_track tables G (staged iface old rules) h'" .
      then show ?thesis
        using s1 s2 st \<open>r1 = Inr u\<close> Inr by (cases res) (auto simp: stage_def dest: staged_settled)
    qed
  qed
qed

lemma install_steps:
  assumes d: "documented_exec tables run bin" and start: "settled iface old (tables s)"
    and inst: "install (traced run) [s] bin iface rules = (res, h)"
  shows "case res of Inr _ \<Rightarrow> on_track tables (guarded iface old rules) (serving FORWARD_CHAIN iface rules) h
    | Inl _ \<Rightarrow> on_track tables (guarded iface old rules) (\<lambda>t. settled iface old t \<or> serving STAGING_CHAIN iface rules t) h"
proof -
  let ?G = "guarded iface old rules" and ?R = "remove_chain (traced run)"
  have g: "settled iface old t \<Longrightarrow> ?G t" "serving c iface rules t \<Longrightarrow> ?G t" for c t
    using serving_enforces by (auto simp: guarded_def settled_def)
  have clean: "on_track tables ?G (settled iface old) (?R h bin iface STAGING_CHAIN)"
    if "on_track tables ?G (settled iface old) h" for h
    by (rule remove_chain_keeps [OF d that g(1)]) (assumption, erule (1) settled_keeps [where r = "[]"], blast)
  have "on_track tables ?G (settled iface old) [s]" using start g by (simp add: on_track_def)
  note first = clean [OF this]
  obtain r1 h1 where st: "stage (traced run) (?R [s] bin iface STAGING_CHAIN) bin iface rules = (r1, h1)"
    by (cases "stage (traced run) (?R [s] bin iface STAGING_CHAIN) bin iface rules")
  have c1: "case r1 of Inr _ \<Rightarrow> on_track tables ?G (serving STAGING_CHAIN iface rules) h1
      | Inl _ \<Rightarrow> on_track tables ?G (settled iface old) h1"
    by (rule stage_steps [OF d g(1) g(2) first st])
  show ?thesis
  proof (cases r1)
    case (Inl e)
    then have "on_track tables ?G (settled iface old) (?R h1 bin iface STAGING_CHAIN)" using c1 clean by simp
    then show ?thesis using inst st Inl by (auto simp: install_def on_track_def)
  next
    case (Inr u)
    then have "on_track tables ?G (serving STAGING_CHAIN iface rules) h1" using c1 by simp
    then have h2: "on_track tables ?G (serving STAGING_CHAIN iface rules) (?R h1 bin iface FORWARD_CHAIN)"
      by (rule remove_chain_keeps [OF d _ g(2)]) (assumption, erule (1) serving_keeps [where r = "[]", THEN conjunct1, OF _ _ chains_differ(1)], blast)
    have "must (traced run) (?R h1 bin iface FORWARD_CHAIN) bin [''-E'', STAGING_CHAIN, FORWARD_CHAIN] = (res, h)"
      using inst st Inr by (simp add: install_def)
    then have "case res of Inr _ \<Rightarrow> on_track tables ?G (serving FORWARD_CHAIN iface rules) h
        | Inl _ \<Rightarrow> on_track tables ?G (serving STAGING_CHAIN iface rules) h"
      by (rule must_step [OF d nf_reads(4) h2 _ renamed g(2) g(2)])
    then show ?thesis by (cases res) (auto simp: on_track_def)
  qed
qed

text \<open>
  C9. Replacing the forward rules never leaves forwarding open. When the old rules are in force and
  no staging jump is left over, the tables enforce the old or the new rules in every state the swap
  passes through, whichever commands fail; if it reports success the new rules are in force under
  the forward chain's name, and if it reports an error the old or the new rules still are.
\<close>

theorem install_never_open:
  assumes "documented_exec tables run bin" "settled iface old (tables s)"
    and "install (traced run) [s] bin iface rules = (res, h)"
  shows "(\<forall>state. state \<in> set h \<longrightarrow> enforces_rules iface old (tables state) \<or> enforces_rules iface rules (tables state))
    \<and> h \<noteq> [] \<and> (res = Inr () \<longrightarrow> serving FORWARD_CHAIN iface rules (tables (hd h)))"
  using install_steps [OF assms] by (cases res) (auto simp: on_track_def guarded_def)

subsection \<open>A host that behaves as documented, and a swap that was interrupted\<close>

fun nf_apply :: "nf_command \<Rightarrow> nf_tables \<Rightarrow> nf_tables option" where
  "nf_apply (NewChain c) t = (if nf_chains t c = None then Some (t\<lparr>nf_chains := (nf_chains t)(c \<mapsto> [])\<rparr>) else None)"
| "nf_apply (Flush c) t = (if nf_chains t c = None then None else Some (t\<lparr>nf_chains := (nf_chains t)(c \<mapsto> [])\<rparr>))"
| "nf_apply (DropChain c) t =
     (if nf_chains t c = None \<or> c \<in> snd ` set (nf_hook t) then None else Some (t\<lparr>nf_chains := (nf_chains t)(c := None)\<rparr>))"
| "nf_apply (Rename a b) t =
     (case nf_chains t a of
        None \<Rightarrow> None
      | Some rs \<Rightarrow> if nf_chains t b \<noteq> None then None
          else Some \<lparr>nf_chains = (nf_chains t)(a := None, b \<mapsto> rs),
                 nf_hook = map (\<lambda>(i, c). (i, if c = a then b else c)) (nf_hook t)\<rparr>)"
| "nf_apply (Append c r) t = map_option (\<lambda>rs. t\<lparr>nf_chains := (nf_chains t)(c \<mapsto> rs @ [r])\<rparr>) (nf_chains t c)"
| "nf_apply (Insert c r) t = map_option (\<lambda>rs. t\<lparr>nf_chains := (nf_chains t)(c \<mapsto> r # rs)\<rparr>) (nf_chains t c)"
| "nf_apply (Hook iface c) t = (if nf_chains t c = None then None else Some (t\<lparr>nf_hook := (iface, c) # nf_hook t\<rparr>))"
| "nf_apply (Unhook iface c) t =
     (if (iface, c) \<in> set (nf_hook t) then Some (t\<lparr>nf_hook := remove1 (iface, c) (nf_hook t)\<rparr>) else None)"

definition nf_run :: "string \<Rightarrow> nf_tables runner" where
  "nf_run broken t bin args =
     (case (if args \<noteq> [] \<and> hd args = broken then None else Option.bind (nf_read args) (\<lambda>cmd. nf_apply cmd t)) of
        None \<Rightarrow> (Some (False, []), t) | Some t' \<Rightarrow> (Some (True, []), t'))"

lemma nf_apply_effect: "nf_apply cmd t = Some t' \<Longrightarrow> nf_effect cmd t t'"
proof (cases cmd)
  case (Insert c r)
  assume "nf_apply cmd t = Some t'"
  with Insert show ?thesis using nf_effect.insert [of t c "[]"] by auto
next
  case (Unhook iface c)
  assume "nf_apply cmd t = Some t'"
  with Unhook have mem: "(iface, c) \<in> set (nf_hook t)" and t': "t' = t\<lparr>nf_hook := remove1 (iface, c) (nf_hook t)\<rparr>"
    by (auto split: if_splits)
  obtain xs ys where xs: "nf_hook t = xs @ (iface, c) # ys" "(iface, c) \<notin> set xs" using split_list_first [OF mem] by blast
  then have "remove1 (iface, c) (nf_hook t) = xs @ ys" by (simp add: remove1_append)
  then show ?thesis using nf_effect.unhook [OF xs] t' Unhook by simp
qed (auto intro: nf_effect.intros split: if_splits option.splits)

lemma nf_run_documented: "documented_exec (\<lambda>t. t) (nf_run broken) bin"
  unfolding documented_exec_def
  by (auto simp: nf_run_def succeeded_def bind_eq_Some_conv intro!: nf_apply_effect split: option.splits if_splits)

definition swapped_tables :: "string \<Rightarrow> nf_tables" where
  "swapped_tables c = \<lparr>nf_chains = [c \<mapsto> [[''-j'', ''REJECT'']]], nf_hook = [(''blaktail0'', c)]\<rparr>"

theorem install_never_open_witness:
  "serving FORWARD_CHAIN ''blaktail0'' [[''-j'', ''ACCEPT'']]
     (hd (snd (install (traced (nf_run [])) [swapped_tables FORWARD_CHAIN] ''iptables'' ''blaktail0'' [[''-j'', ''ACCEPT'']])))"
proof -
  let ?run = "install (traced (nf_run [])) [swapped_tables FORWARD_CHAIN] ''iptables'' ''blaktail0'' [[''-j'', ''ACCEPT'']]"
  have start: "settled ''blaktail0'' [[''-j'', ''REJECT'']] (swapped_tables FORWARD_CHAIN)"
    by (simp add: settled_def serving_def swapped_tables_def chains_differ)
  have ok: "fst ?run = Inr ()" by code_simp
  from install_never_open [OF nf_run_documented start prod.collapse [symmetric]] ok show ?thesis by blast
qed


end
