(* ===== verification/Coord_Base.thy ===== *)
theory Coord_Base
  imports Ip_Text "HOL-Library.List_Lexorder" "HOL-Library.Char_ord"
begin

section \<open>What the coordinator's policy modules share (\<open>blaktail-coord/src/lib.rs\<close>)\<close>

text \<open>
  Roles, device tags, the error type of the API, and \<open>BTreeMap\<close>/\<open>BTreeSet\<close> as the sorted
  lists they iterate as. A \<open>BadRequest\<close> carries a constructor per message of the source, with the
  values the message quotes.
\<close>

datatype role = Owner | Admin | Member | NetworkAdmin | Auditor

definition role_str :: "role \<Rightarrow> string" where
  "role_str r =
     (case r of
        Owner \<Rightarrow> ''owner'' | Admin \<Rightarrow> ''admin'' | Member \<Rightarrow> ''member''
      | NetworkAdmin \<Rightarrow> ''network_admin'' | Auditor \<Rightarrow> ''auditor'')"

definition role_from_str :: "string \<Rightarrow> role option" where
  "role_from_str v =
     (if v = ''owner'' then Some Owner else if v = ''admin'' then Some Admin
      else if v = ''member'' then Some Member else if v = ''network_admin'' then Some NetworkAdmin
      else if v = ''auditor'' then Some Auditor else None)"

lemma role_from_str_inverse [simp]: "role_from_str (role_str r) = Some r"
  by (cases r) (simp_all add: role_str_def role_from_str_def)

datatype device_tag = Office | Ranger | Store

definition tag_str :: "device_tag \<Rightarrow> string" where
  "tag_str t = (case t of Office \<Rightarrow> ''office'' | Ranger \<Rightarrow> ''ranger'' | Store \<Rightarrow> ''store'')"

definition tag_from_str :: "string \<Rightarrow> device_tag option" where
  "tag_from_str v =
     (if v = ''office'' then Some Office else if v = ''ranger'' then Some Ranger
      else if v = ''store'' then Some Store else None)"

text \<open>The derived \<open>Ord\<close>: declaration order.\<close>

definition tag_rank :: "device_tag \<Rightarrow> nat" where
  "tag_rank t = (case t of Office \<Rightarrow> 0 | Ranger \<Rightarrow> 1 | Store \<Rightarrow> 2)"

lemma tag_rank_inj: "tag_rank s = tag_rank t \<longleftrightarrow> s = t"
  by (cases s; cases t) (simp_all add: tag_rank_def)

instantiation device_tag :: linorder
begin

definition less_eq_device_tag :: "device_tag \<Rightarrow> device_tag \<Rightarrow> bool" where
  "less_eq_device_tag s t \<longleftrightarrow> tag_rank s \<le> tag_rank t"

definition less_device_tag :: "device_tag \<Rightarrow> device_tag \<Rightarrow> bool" where
  "less_device_tag s t \<longleftrightarrow> tag_rank s < tag_rank t"

instance
  by standard (auto simp: less_eq_device_tag_def less_device_tag_def tag_rank_inj [symmetric])

end

text \<open>\<open>Vec::dedup\<close> drops an element equal to its predecessor, as \<^const>\<open>remdups_adj\<close> does.\<close>

definition canonical_tags :: "device_tag list \<Rightarrow> device_tag list" where
  "canonical_tags tags = remdups_adj (sort tags)"

lemma distinct_remdups_adj: "sorted xs \<Longrightarrow> distinct (remdups_adj xs)"
  by (induction xs rule: remdups_adj.induct) (auto dest: order_antisym)

lemma canonical_tags_correct:
  "set (canonical_tags tags) = set tags \<and> sorted (canonical_tags tags) \<and> distinct (canonical_tags tags)"
  by (simp add: canonical_tags_def sorted_remdups_adj distinct_remdups_adj)

text \<open>Ordered sets of strings.\<close>

type_synonym bset = "string list"
type_synonym 'v bmap = "(string \<times> 'v) list"
type_synonym groups = "string list bmap"
type_synonym uuid = u128

abbreviation bs_insert :: "string \<Rightarrow> bset \<Rightarrow> bset" where
  "bs_insert \<equiv> insort_insert"

definition bs_extend :: "bset \<Rightarrow> string list \<Rightarrow> bset" where
  "bs_extend s xs = fold bs_insert xs s"

lemma bs_extend_set [simp]: "set (bs_extend s xs) = set s \<union> set xs"
  unfolding bs_extend_def by (induction xs arbitrary: s) (auto simp: set_insort_insert)

lemma bs_extend_sorted: "sorted s \<Longrightarrow> sorted (bs_extend s xs)"
  unfolding bs_extend_def by (induction xs arbitrary: s) (auto simp: sorted_insort_insert)

lemma bs_extend_distinct: "distinct s \<Longrightarrow> distinct (bs_extend s xs)"
  unfolding bs_extend_def by (induction xs arbitrary: s) (auto simp: distinct_insort_insert)

lemma bs_extend_empty [simp]: "bs_extend s xs = [] \<longleftrightarrow> s = [] \<and> xs = []"
  using bs_extend_set [of s xs] by (metis set_empty sup_eq_bot_iff)

definition has_key :: "'v bmap \<Rightarrow> string \<Rightarrow> bool" where
  "has_key m k \<longleftrightarrow> map_of m k \<noteq> None"

datatype problem =
    TooManyShares
  | DuplicateLabel string
  | SharePort
  | SharePath
  | SharePortsDiffer
  | ShareName
  | DriveIncomplete
  | TooManyGrants
  | UnknownDriveTag string
  | UnknownDriveGroup string
  | DriveSelectorForm string
  | GrantUnselective
  | GrantShares
  | GrantAccess
  | GrantGroup string
  | GrantRole string
  | GrantTag string
  | PolicyVersion nat
  | TooManyTagOwners
  | TagOwnerKey string
  | TagWithoutOwner string
  | EmptyOwner string
  | TooManyTests
  | TooManyHosts
  | HostName string
  | TooManyGroups
  | GroupName string
  | GroupEmpty string
  | GroupTooLarge string
  | EmptyMember string
  | RuleUnselective
  | RuleGroup string
  | RuleHost string
  | TooManyPorts
  | PortSpec string
  | IcmpWithPorts
  | PostureOnDeny
  | TooManyPosture
  | PostureName string
  | TooManySsh
  | SshUnselective
  | SshGroup string
  | SshUsers
  | SshUser string
  | CheckPeriod
  | PeriodWithoutCheck
  | TestHost string
  | TestPort
  | TestIcmpPort
  | SshTestTarget
  | SshTestUser string
  | TestFailed nat string bool
  | HostForbidden
  | HostDefaultRoute
  | HostForm string
  | HostPrefix string
  | HostNotNetwork string
  | HostNotPrivate string

datatype api_error = BadRequest problem | Forbidden | NotFound | Unauthorized | CorruptData

end
