(* ===== verification/Drive_Shares.thy ===== *)
theory Drive_Shares
  imports Coord_Base
begin

section \<open>Folder sharing (\<open>blaktail-coord/src/shares.rs\<close>)\<close>

text \<open>
  The shares a node publishes and their canonical form, and the drive policy: who may share, who may
  open, and which access each pair of devices has to each share. The database queries of the module
  (\<open>load_published\<close>, \<open>dns_applied_counts\<close>) and its JSON reader are not modelled.
\<close>

definition DEFAULT_SHARE_PORT :: u16 where "DEFAULT_SHARE_PORT = 5647"
definition MAX_SHARES :: nat where "MAX_SHARES = 4"
definition MAX_LABEL_LEN :: nat where "MAX_LABEL_LEN = 32"
definition MAX_PATH_LEN :: nat where "MAX_PATH_LEN = 512"

record node_share =
  ns_label :: string
  ns_path :: string
  ns_port :: u16
  ns_read_only :: bool
  ns_enabled :: bool

record published_share =
  ps_node_id :: uuid
  ps_dns_name :: string
  ps_label :: string
  ps_port :: u16
  ps_read_only :: bool
  ps_access :: "string option"

subsection \<open>Labels and paths\<close>

definition label_char :: "char \<Rightarrow> bool" where
  "label_char c \<longleftrightarrow>
     is_ascii_lowercase c \<or> is_ascii_digit c
     \<or> c = CHR ''-'' \<or> c = CHR ''_'' \<or> c = CHR ''('' \<or> c = CHR '')'' \<or> c = CHR '' ''"

definition valid_share_label :: "string \<Rightarrow> bool" where
  "valid_share_label label \<longleftrightarrow>
     label \<noteq> [] \<and> length label \<le> MAX_LABEL_LEN
     \<and> hd label \<noteq> CHR ''-'' \<and> last label \<noteq> CHR ''-'' \<and> hd label \<noteq> CHR '' '' \<and> last label \<noteq> CHR '' ''
     \<and> list_all label_char label"

definition canonical_label :: "string \<Rightarrow> api_error + string" where
  "canonical_label label =
     (let label = to_ascii_lowercase (str_trim label)
      in if valid_share_label label then Inr label else Inl (BadRequest ShareName))"

text \<open>Splitting on either slash is splitting on one after the other is replaced by it.\<close>

definition path_parts :: "string \<Rightarrow> string list" where
  "path_parts s = str_split (CHR ''/'') (map (\<lambda>c. if c = CHR 0x5C then CHR ''/'' else c) s)"

definition strip_verbatim :: "string \<Rightarrow> string" where
  "strip_verbatim path =
     (case strip_prefix [CHR 0x5C, CHR 0x5C, CHR ''?'', CHR 0x5C] path of
        Some s \<Rightarrow> s
      | None \<Rightarrow> (case strip_prefix ''//?/'' path of Some s \<Rightarrow> s | None \<Rightarrow> path))"

definition acceptable_share_path :: "string \<Rightarrow> bool" where
  "acceptable_share_path path \<longleftrightarrow>
     (if path = [] \<or> length path > MAX_PATH_LEN \<or> CHR 0x00 \<in> set path then False
      else let stripped = strip_verbatim path;
               unix = (stripped \<noteq> [] \<and> hd stripped = CHR ''/'');
               windows = (length stripped \<ge> 3 \<and> is_ascii_alphabetic (stripped ! 0)
                          \<and> stripped ! 1 = CHR '':'' \<and> (stripped ! 2 = CHR 0x5C \<or> stripped ! 2 = CHR ''/''))
           in if \<not> unix \<and> \<not> windows then False
              else \<not> list_ex (\<lambda>part. part = ''..'' \<or> CHR 0x00 \<in> set part) (path_parts stripped))"

subsection \<open>Publishing\<close>

definition canonical_share :: "bset \<Rightarrow> node_share \<Rightarrow> api_error + node_share" where
  "canonical_share labels share =
     and_then (canonical_label (ns_label share)) (\<lambda>label.
     and_then (ensure (label \<notin> set labels) (BadRequest (DuplicateLabel label))) (\<lambda>_.
     and_then (ensure (1024 \<le> ns_port share) (BadRequest SharePort)) (\<lambda>_.
     let path = str_trim (ns_path share)
     in and_then (ensure (acceptable_share_path path) (BadRequest SharePath)) (\<lambda>_.
     Inr (share\<lparr>ns_label := label, ns_path := path\<rparr>)))))"

fun canonical_loop :: "bset \<Rightarrow> node_share list \<Rightarrow> api_error + node_share list" where
  "canonical_loop labels [] = Inr []"
| "canonical_loop labels (share # shares) =
     and_then (canonical_share labels share) (\<lambda>share.
     and_then (canonical_loop (bs_insert (ns_label share) labels) shares) (\<lambda>rest.
     Inr (share # rest)))"

definition canonicalise :: "node_share list \<Rightarrow> api_error + node_share list" where
  "canonicalise shares =
     and_then (ensure (length shares \<le> MAX_SHARES) (BadRequest TooManyShares)) (\<lambda>_.
     and_then (canonical_loop [] shares) (\<lambda>canonical.
     and_then (ensure (length (remdups (map ns_port canonical)) \<le> 1) (BadRequest SharePortsDiffer)) (\<lambda>_.
     Inr canonical)))"

definition published :: "uuid \<Rightarrow> string \<Rightarrow> node_share list \<Rightarrow> published_share list" where
  "published node_id dns_name shares =
     map (\<lambda>share. \<lparr>ps_node_id = node_id, ps_dns_name = dns_name, ps_label = ns_label share, ps_port = ns_port share,
                   ps_read_only = ns_read_only share, ps_access = None\<rparr>)
       (filter ns_enabled shares)"

definition grant_port :: "string list \<Rightarrow> node_share \<Rightarrow> string list \<Rightarrow> string list" where
  "grant_port deny_tcp share tcp =
     (let port = show_nat 10 (unat (ns_port share))
      in if port \<in> set deny_tcp then tcp else if port \<notin> set tcp then tcp @ [port] else tcp)"

definition grant_share_ports :: "string list \<Rightarrow> string list \<Rightarrow> bool \<Rightarrow> node_share list \<Rightarrow> string list" where
  "grant_share_ports tcp deny_tcp all shares =
     (if all then tcp else fold (grant_port deny_tcp) (filter ns_enabled shares) tcp)"

subsection \<open>The drive policy\<close>

record drive_grant =
  dg_src_roles :: "string list"
  dg_src_tags :: "string list"
  dg_src_groups :: "string list"
  dg_dst_roles :: "string list"
  dg_dst_tags :: "string list"
  dg_dst_groups :: "string list"
  dg_same_user :: bool
  dg_shares :: "string list"
  dg_access :: string

record drive_policy =
  dp_share :: "string list"
  dp_access :: "string list"
  dp_grants :: "drive_grant list"

record drive_grant_share =
  gs_label :: string
  gs_access :: string

record drive_caller =
  dc_address :: string
  dc_label :: string
  dc_access :: string

record drive_view =
  dv_access :: bool
  dv_share :: bool
  dv_local :: "drive_grant_share list"
  dv_callers :: "drive_caller list"

record drive_actor =
  da_role :: string
  da_tags :: "string list"
  da_user_id :: string
  da_email :: string

definition DRIVE_ROLES :: "string list" where
  "DRIVE_ROLES = [''owner'', ''admin'', ''member'', ''network_admin'', ''auditor'']"

definition DRIVE_TAGS :: "string list" where
  "DRIVE_TAGS = [''office'', ''ranger'', ''store'']"

definition check_actor_selector :: "groups \<Rightarrow> string \<Rightarrow> api_error + unit" where
  "check_actor_selector groups sel =
     (let sel = str_trim sel
      in if sel = ''*'' \<or> sel \<in> set DRIVE_ROLES then Inr ()
         else case strip_prefix ''tag:'' sel of
           Some tag \<Rightarrow> ensure (tag \<in> set DRIVE_TAGS) (BadRequest (UnknownDriveTag sel))
         | None \<Rightarrow>
             (case strip_prefix ''group:'' sel of
                Some gname \<Rightarrow> ensure (has_key groups gname) (BadRequest (UnknownDriveGroup sel))
              | None \<Rightarrow> Inl (BadRequest (DriveSelectorForm sel))))"

definition check_grant :: "groups \<Rightarrow> drive_grant \<Rightarrow> api_error + unit" where
  "check_grant groups g =
     and_then (ensure (dg_src_roles g \<noteq> [] \<or> dg_src_tags g \<noteq> [] \<or> dg_src_groups g \<noteq> [] \<or> dg_dst_roles g \<noteq> []
                  \<or> dg_dst_tags g \<noteq> [] \<or> dg_dst_groups g \<noteq> [] \<or> dg_same_user g) (BadRequest GrantUnselective)) (\<lambda>_.
     and_then (ensure (dg_shares g \<noteq> [] \<and> length (dg_shares g) \<le> 32) (BadRequest GrantShares)) (\<lambda>_.
     and_then (each (\<lambda>name. if name \<noteq> ''*'' then and_then (canonical_label name) (\<lambda>_. Inr ()) else Inr ()) (dg_shares g)) (\<lambda>_.
     and_then (ensure (dg_access g = ''ro'' \<or> dg_access g = ''rw'') (BadRequest GrantAccess)) (\<lambda>_.
     and_then (each (\<lambda>name. ensure (has_key groups name) (BadRequest (GrantGroup name))) (dg_src_groups g @ dg_dst_groups g)) (\<lambda>_.
     and_then (each (\<lambda>r. ensure (r \<in> set DRIVE_ROLES) (BadRequest (GrantRole r))) (dg_src_roles g @ dg_dst_roles g)) (\<lambda>_.
     each (\<lambda>t. ensure (t \<in> set DRIVE_TAGS) (BadRequest (GrantTag t))) (dg_src_tags g @ dg_dst_tags g)))))))"

definition validate_policy :: "drive_policy \<Rightarrow> groups \<Rightarrow> api_error + unit" where
  "validate_policy pol groups =
     and_then (ensure (dp_share pol \<noteq> [] \<and> dp_access pol \<noteq> []) (BadRequest DriveIncomplete)) (\<lambda>_.
     and_then (ensure (length (dp_grants pol) \<le> 64) (BadRequest TooManyGrants)) (\<lambda>_.
     and_then (each (check_actor_selector groups) (dp_share pol @ dp_access pol)) (\<lambda>_.
     each (check_grant groups) (dp_grants pol))))"

definition names_person :: "string \<Rightarrow> string \<Rightarrow> string \<Rightarrow> bool" where
  "names_person user_id email member \<longleftrightarrow>
     (let member = str_trim member
      in member \<noteq> []
         \<and> (user_id \<noteq> [] \<and> eq_ignore_ascii_case member (str_trim user_id)
            \<or> email \<noteq> [] \<and> eq_ignore_ascii_case member (str_trim email)))"

definition actor_in_group :: "drive_actor \<Rightarrow> string list \<Rightarrow> bool" where
  "actor_in_group actor members \<longleftrightarrow> list_ex (names_person (da_user_id actor) (da_email actor)) members"

definition in_named_group :: "groups \<Rightarrow> drive_actor \<Rightarrow> string \<Rightarrow> bool" where
  "in_named_group groups actor name \<longleftrightarrow>
     (case map_of groups name of None \<Rightarrow> False | Some members \<Rightarrow> actor_in_group actor members)"

definition actor_selected :: "drive_actor \<Rightarrow> groups \<Rightarrow> string \<Rightarrow> bool" where
  "actor_selected actor groups sel \<longleftrightarrow>
     (let sel = str_trim sel
      in if sel = ''*'' then True
         else case strip_prefix ''tag:'' sel of
           Some tag \<Rightarrow> list_ex (\<lambda>have_tag. eq_ignore_ascii_case have_tag (str_trim tag)) (da_tags actor)
         | None \<Rightarrow>
             (case strip_prefix ''group:'' sel of
                Some gname \<Rightarrow> in_named_group groups actor (str_trim gname)
              | None \<Rightarrow> eq_ignore_ascii_case sel (str_trim (da_role actor))))"

definition actor_permitted :: "string list \<Rightarrow> drive_actor \<Rightarrow> groups \<Rightarrow> bool" where
  "actor_permitted selectors actor groups \<longleftrightarrow> list_ex (actor_selected actor groups) selectors"

definition side_matches :: "string list \<Rightarrow> string list \<Rightarrow> string list \<Rightarrow> drive_actor \<Rightarrow> groups \<Rightarrow> bool" where
  "side_matches roles tags group_names actor groups \<longleftrightarrow>
     (roles = [] \<or> list_ex (\<lambda>r. eq_ignore_ascii_case r (da_role actor)) roles)
     \<and> (tags = [] \<or> list_ex (\<lambda>t. list_ex (\<lambda>have_tag. eq_ignore_ascii_case have_tag t) (da_tags actor)) tags)
     \<and> (group_names = [] \<or> list_ex (in_named_group groups actor) group_names)"

definition names_share :: "string \<Rightarrow> string \<Rightarrow> bool" where
  "names_share label name \<longleftrightarrow> name = ''*'' \<or> canonical_label name = Inr label"

definition grant_matches :: "drive_grant \<Rightarrow> groups \<Rightarrow> drive_actor \<Rightarrow> drive_actor \<Rightarrow> string \<Rightarrow> bool" where
  "grant_matches g groups src dst label \<longleftrightarrow>
     (if dg_same_user g
         \<and> (da_user_id src = [] \<or> \<not> eq_ignore_ascii_case (da_user_id src) (str_trim (da_user_id dst)))
      then False
      else if \<not> side_matches (dg_src_roles g) (dg_src_tags g) (dg_src_groups g) src groups
              \<or> \<not> side_matches (dg_dst_roles g) (dg_dst_tags g) (dg_dst_groups g) dst groups
      then False
      else list_ex (names_share label) (dg_shares g))"

fun grant_scan :: "groups \<Rightarrow> drive_actor \<Rightarrow> drive_actor \<Rightarrow> string \<Rightarrow> drive_grant list \<Rightarrow> bool \<times> bool \<Rightarrow> bool \<times> bool" where
  "grant_scan groups src dst label [] rw = rw"
| "grant_scan groups src dst label (g # gs) (readable, writable) =
     (if \<not> grant_matches g groups src dst label then grant_scan groups src dst label gs (readable, writable)
      else grant_scan groups src dst label gs (True, writable \<or> dg_access g = ''rw''))"

definition grant_access ::
  "drive_policy \<Rightarrow> groups \<Rightarrow> drive_actor \<Rightarrow> drive_actor \<Rightarrow> string \<Rightarrow> bool \<Rightarrow> string option" where
  "grant_access pol groups src dst label read_only =
     (let (readable, writable) = grant_scan groups src dst label (dp_grants pol) (False, False)
      in if \<not> readable then None
         else if writable \<and> \<not> read_only then Some ''rw'' else Some ''ro'')"

subsection \<open>Access\<close>

lemma grant_scan_correct:
  "grant_scan groups src dst label gs (r, w) =
     (r \<or> (\<exists>g\<in>set gs. grant_matches g groups src dst label),
      w \<or> (\<exists>g\<in>set gs. grant_matches g groups src dst label \<and> dg_access g = ''rw''))"
  by (induction gs arbitrary: r w) auto

lemma grant_access_None: "grant_access pol groups src dst label ro = None \<longleftrightarrow>
    \<not> (\<exists>g\<in>set (dp_grants pol). grant_matches g groups src dst label)"
  by (auto simp: grant_access_def grant_scan_correct)

text \<open>
  C24. Access to a share is exactly what the grants say: none unless some grant matches the pair of
  devices and the share, write access exactly when a matching grant gives it and the share is not
  published read-only, and nothing else can come out.
\<close>

theorem grant_access_exact:
  "(grant_access pol groups src dst label ro = None \<longleftrightarrow>
      \<not> (\<exists>g\<in>set (dp_grants pol). grant_matches g groups src dst label))
   \<and> (grant_access pol groups src dst label ro = Some ''rw'' \<longleftrightarrow>
      \<not> ro \<and> (\<exists>g\<in>set (dp_grants pol). grant_matches g groups src dst label \<and> dg_access g = ''rw''))
   \<and> grant_access pol groups src dst label ro \<in> {None, Some ''ro'', Some ''rw''}"
  by (auto simp: grant_access_def grant_scan_correct)

subsection \<open>The canonical form of a published list\<close>

lemma label_char_printing: "label_char c \<Longrightarrow> c \<noteq> CHR '' '' \<Longrightarrow> printing c"
  by (auto simp: label_char_def printing_def is_ascii_lowercase_def is_ascii_digit_def ascii_code_def)

lemma label_char_lower: "label_char c \<Longrightarrow> char_to_lower c = c"
  by (auto simp: label_char_def char_to_lower_def is_ascii_lowercase_def is_ascii_digit_def ascii_code_def Let_def)

lemma canonical_label_valid: "canonical_label l = Inr l' \<Longrightarrow> valid_share_label l'"
  by (auto simp: canonical_label_def Let_def split: if_splits)

lemma canonical_label_fixed:
  assumes "valid_share_label l"
  shows "canonical_label l = Inr l"
proof -
  have l: "l \<noteq> []" "list_all label_char l" "hd l \<noteq> CHR '' ''" "last l \<noteq> CHR '' ''"
    using assms by (auto simp: valid_share_label_def)
  then have "printing (hd l) \<and> printing (last l)"
    by (auto simp: list_all_iff intro!: label_char_printing)
  then have "str_trim l = l" by (intro str_trim_id) simp
  moreover have "to_ascii_lowercase l = l"
    using l(2) by (auto simp: to_ascii_lowercase_def list_all_iff label_char_lower intro!: map_idI)
  ultimately show ?thesis using assms by (simp add: canonical_label_def Let_def)
qed

lemma canonical_share_ok:
  "canonical_share labels share = Inr s \<longleftrightarrow>
    canonical_label (ns_label share) = Inr (ns_label s) \<and> ns_label s \<notin> set labels \<and> 1024 \<le> ns_port share
    \<and> acceptable_share_path (str_trim (ns_path share))
    \<and> s = share\<lparr>ns_label := ns_label s, ns_path := str_trim (ns_path share)\<rparr>"
  by (auto simp: canonical_share_def and_then_Inr Let_def)

definition share_ok :: "node_share \<Rightarrow> bool" where
  "share_ok s \<longleftrightarrow>
     valid_share_label (ns_label s) \<and> 1024 \<le> ns_port s \<and> acceptable_share_path (ns_path s)
     \<and> str_trim (ns_path s) = ns_path s"

lemma canonical_share_share_ok:
  assumes "canonical_share labels share = Inr s"
  shows "share_ok s"
proof -
  have s: "s = share\<lparr>ns_label := ns_label s, ns_path := str_trim (ns_path share)\<rparr>"
    using assms by (simp add: canonical_share_ok)
  then have "ns_path s = str_trim (ns_path share)" "ns_port s = ns_port share" by (metis node_share.select_convs node_share.surjective node_share.update_convs)+
  then show ?thesis
    using assms by (auto simp: canonical_share_ok share_ok_def str_trim_idem dest: canonical_label_valid)
qed

lemma same_ports: "length (remdups xs) \<le> 1 \<Longrightarrow> \<exists>p. \<forall>x\<in>set xs. x = p"
proof -
  assume "length (remdups xs) \<le> 1"
  then have "card (set xs) \<le> 1" by (simp add: length_remdups_card_conv)
  then have "\<forall>x\<in>set xs. \<forall>y\<in>set xs. x = y" by (simp add: card_le_Suc0_iff_eq)
  then show ?thesis by (cases xs) auto
qed

lemma canonical_loop_ok:
  "canonical_loop labels shares = Inr ss \<Longrightarrow>
    (\<forall>s\<in>set ss. share_ok s) \<and> distinct (map ns_label ss) \<and> set (map ns_label ss) \<inter> set labels = {}
    \<and> length ss = length shares"
proof (induction labels shares arbitrary: ss rule: canonical_loop.induct)
  case (1 labels)
  then show ?case by simp
next
  case (2 labels share shares)
  then obtain s rest where s: "canonical_share labels share = Inr s"
    and rest: "canonical_loop (bs_insert (ns_label s) labels) shares = Inr rest" and ss: "ss = s # rest"
    by (auto simp: and_then_Inr)
  from "2.IH" [OF rest] canonical_share_share_ok [OF s] s show ?case
    by (auto simp: ss set_insort_insert canonical_share_ok)
qed

lemma canonical_loop_fixed:
  "\<forall>s\<in>set ss. share_ok s \<Longrightarrow> distinct (map ns_label ss) \<Longrightarrow> set (map ns_label ss) \<inter> set labels = {} \<Longrightarrow>
    canonical_loop labels ss = Inr ss"
proof (induction ss arbitrary: labels)
  case Nil
  then show ?case by simp
next
  case (Cons s ss)
  then have "canonical_share labels s = Inr s"
    by (auto simp: canonical_share_ok share_ok_def canonical_label_fixed)
  moreover have "canonical_loop (bs_insert (ns_label s) labels) ss = Inr ss"
    using Cons by (intro Cons.IH) (auto simp: set_insort_insert)
  ultimately show ?case by simp
qed

text \<open>
  A list of shares that is accepted is in canonical form: at most four shares with distinct,
  well-formed names on one unprivileged port, each an absolute path without parent segments, in the
  order they were given; and submitting the stored list again changes nothing.
\<close>

theorem canonicalise_stable:
  assumes "canonicalise shares = Inr ss"
  shows "length ss = length shares \<and> length ss \<le> 4 \<and> distinct (map ns_label ss)
    \<and> (\<exists>port. \<forall>s\<in>set ss. ns_port s = port)
    \<and> (\<forall>s\<in>set ss. valid_share_label (ns_label s) \<and> 1024 \<le> ns_port s \<and> acceptable_share_path (ns_path s)
         \<and> ''..'' \<notin> set (path_parts (strip_verbatim (ns_path s))))
    \<and> canonicalise ss = Inr ss"
proof -
  from assms have loop: "canonical_loop [] shares = Inr ss" and n: "length shares \<le> MAX_SHARES"
    and ports: "length (remdups (map ns_port ss)) \<le> 1"
    by (auto simp: canonicalise_def and_then_Inr)
  note ok = canonical_loop_ok [OF loop]
  have "canonicalise ss = Inr ss"
    using ok n ports canonical_loop_fixed [of ss "[]"] by (simp add: canonicalise_def ensure_def)
  moreover have "\<exists>port. \<forall>s\<in>set ss. ns_port s = port"
    using same_ports [OF ports] by (auto simp: image_iff)
  moreover have "acceptable_share_path p \<Longrightarrow> ''..'' \<notin> set (path_parts (strip_verbatim p))" for p
    by (auto simp: acceptable_share_path_def Let_def list_ex_iff split: if_splits)
  ultimately show ?thesis using ok n by (auto simp: share_ok_def MAX_SHARES_def)
qed

theorem canonicalise_stable_witness:
  "canonicalise [\<lparr>ns_label = ''docs'', ns_path = ''/srv'', ns_port = 5647, ns_read_only = True, ns_enabled = True\<rparr>] =
     Inr [\<lparr>ns_label = ''docs'', ns_path = ''/srv'', ns_port = 5647, ns_read_only = True, ns_enabled = True\<rparr>]"
proof -
  have trim: "str_trim ''/srv'' = ''/srv''" by (rule str_trim_id) (simp add: printing_def ascii_code_def)
  have label: "canonical_label ''docs'' = Inr ''docs''"
    by (rule canonical_label_fixed) (simp add: valid_share_label_def label_char_def is_ascii_lowercase_def ascii_code_def
        MAX_LABEL_LEN_def)
  have path: "acceptable_share_path ''/srv''"
    by (simp add: acceptable_share_path_def strip_verbatim_def strip_prefix_def starts_with_def path_parts_def MAX_PATH_LEN_def)
  have "canonicalise [\<lparr>ns_label = ''docs'', ns_path = ''/srv'', ns_port = 5647, ns_read_only = True, ns_enabled = True\<rparr>] =
     Inr [\<lparr>ns_label = ''docs'', ns_path = ''/srv'', ns_port = 5647, ns_read_only = True, ns_enabled = True\<rparr>]"
    by (simp add: canonicalise_def canonical_share_def label trim path ensure_def MAX_SHARES_def)
  from canonicalise_stable [OF this] show ?thesis by simp
qed

end
