(* ===== verification/Acl_Policy.thy ===== *)
theory Acl_Policy
  imports Drive_Shares Filter_Policy
begin

section \<open>The access policy (\<open>Acl\<close> in \<open>blaktail-coord/src/lib.rs\<close>)\<close>

text \<open>
  The organisation's policy document after JSON decoding, its validation, the evaluator
  (\<open>allows_flow\<close>, \<open>allows_ssh\<close>), and the compiler that turns it into the per-peer
  \<open>ingress\<close> the agents enforce (\<open>peer_ingress_for\<close>). \<open>PeerIngress\<close> is decoded on
  the device as the \<open>Ingress\<close> of the packet filter, with the same fields, so both are the record
  of that theory. The wall clock read by SSH \<open>check\<close> rules is an argument.
\<close>

datatype acl_defaults = SameTag | DefaultDeny
datatype action = Allow | Deny
datatype ssh_action = SshAllow | SshDeny | SshCheck
datatype acl_protocol = Tcp | Udp | Icmp

type_synonym peer_ingress = ingress

record acl_rule =
  ar_action :: action
  ar_src_roles :: "role list"
  ar_src_tags :: "device_tag list"
  ar_src_groups :: "string list"
  ar_dst_roles :: "role list"
  ar_dst_tags :: "device_tag list"
  ar_dst_groups :: "string list"
  ar_dst_hosts :: "string list"
  ar_dst_ports :: "string list"
  ar_protocols :: "acl_protocol list"
  ar_posture :: "string list"

record acl_ssh_rule =
  sr_action :: ssh_action
  sr_src_roles :: "role list"
  sr_src_tags :: "device_tag list"
  sr_src_groups :: "string list"
  sr_dst_roles :: "role list"
  sr_dst_tags :: "device_tag list"
  sr_dst_groups :: "string list"
  sr_users :: "string list"
  sr_check_period_secs :: "u64 option"
  sr_posture :: "string list"

record acl_test =
  at_name :: string
  at_src_role :: "role option"
  at_src_tags :: "device_tag list"
  at_src_user :: string
  at_src_email :: string
  at_dst_role :: "role option"
  at_dst_tags :: "device_tag list"
  at_dst_user :: string
  at_dst_email :: string
  at_dst_host :: string
  at_dst_port :: "u16 option"
  at_protocol :: "acl_protocol option"
  at_ssh_user :: string
  at_src_posture :: "string list"
  at_allow :: bool

record acl =
  ac_version :: u32
  ac_defaults :: acl_defaults
  ac_groups :: groups
  ac_tag_owners :: "string list bmap"
  ac_hosts :: "string bmap"
  ac_rules :: "acl_rule list"
  ac_ssh :: "acl_ssh_rule list"
  ac_tests :: "acl_test list"
  ac_drive :: "drive_policy option"

definition acl_default :: acl where
  "acl_default =
     \<lparr>ac_version = 1, ac_defaults = SameTag, ac_groups = [], ac_tag_owners = [], ac_hosts = [], ac_rules = [],
      ac_ssh = [], ac_tests = [], ac_drive = None\<rparr>"

record subject =
  sj_role :: role
  sj_tags :: "device_tag list"
  sj_user_id :: string
  sj_email :: string
  sj_passed_posture :: "string list"
  sj_authenticated_at :: "int option"

definition subject_new :: "role \<Rightarrow> device_tag list \<Rightarrow> subject" where
  "subject_new r tags =
     \<lparr>sj_role = r, sj_tags = tags, sj_user_id = [], sj_email = [], sj_passed_posture = [], sj_authenticated_at = None\<rparr>"

definition with_user :: "subject \<Rightarrow> string \<Rightarrow> subject" where
  "with_user s user_id = s\<lparr>sj_user_id := user_id\<rparr>"

record session =
  se_user_id :: string
  se_role :: role
  se_name :: string
  se_email :: string

subsection \<open>Selectors\<close>

definition subject_in_group :: "subject \<Rightarrow> string list \<Rightarrow> bool" where
  "subject_in_group s members \<longleftrightarrow> list_ex (names_person (sj_user_id s) (sj_email s)) members"

definition acl_selector :: "role list \<Rightarrow> device_tag list \<Rightarrow> string list \<Rightarrow> subject \<Rightarrow> groups \<Rightarrow> bool" where
  "acl_selector roles tags gnames s named \<longleftrightarrow>
     (roles = [] \<or> sj_role s \<in> set roles)
     \<and> (tags = [] \<or> list_ex (\<lambda>t. t \<in> set (sj_tags s)) tags)
     \<and> (gnames = []
        \<or> list_ex (\<lambda>name. case map_of named name of None \<Rightarrow> False | Some members \<Rightarrow> subject_in_group s members) gnames)"

definition posture_satisfied :: "string list \<Rightarrow> subject \<Rightarrow> bool" where
  "posture_satisfied required s \<longleftrightarrow> list_all (\<lambda>name. name \<in> set (sj_passed_posture s)) required"

definition authorize_tag :: "acl \<Rightarrow> session \<Rightarrow> device_tag \<Rightarrow> api_error + unit" where
  "authorize_tag acl se tag =
     (case map_of (ac_tag_owners acl) (tag_str tag) of
        None \<Rightarrow> Inr ()
      | Some owners \<Rightarrow>
          if se_role se = Owner then Inr ()
          else ensure (list_ex (\<lambda>owner.
                 let owner = str_trim owner
                 in se_user_id se \<noteq> [] \<and> eq_ignore_ascii_case owner (str_trim (se_user_id se))
                    \<or> se_email se \<noteq> [] \<and> eq_ignore_ascii_case owner (str_trim (se_email se))
                    \<or> eq_ignore_ascii_case owner (role_str (se_role se))) owners) Forbidden)"

definition authorize_tag_assignment :: "acl \<Rightarrow> session \<Rightarrow> device_tag list \<Rightarrow> api_error + unit" where
  "authorize_tag_assignment acl se tags = each (authorize_tag acl se) tags"

subsection \<open>Ports and protocols\<close>

definition SSH_PORT :: u16 where "SSH_PORT = 22"
definition DEFAULT_SSH_CHECK_PERIOD_SECS :: u64 where "DEFAULT_SSH_CHECK_PERIOD_SECS = 43200"

definition parse_acl_port_spec :: "string \<Rightarrow> api_error + (u16 \<times> u16)" where
  "parse_acl_port_spec value =
     (let value = str_trim value
      in if value = ''*'' then Inr (1, 65535)
         else let (start, stop) = (case split_once (CHR ''-'') value of Some ab \<Rightarrow> ab | None \<Rightarrow> (value, value))
              in case parse_u16 start of
                   None \<Rightarrow> Inl (BadRequest (PortSpec value))
                 | Some start \<Rightarrow>
                     (case parse_u16 stop of
                        None \<Rightarrow> Inl (BadRequest (PortSpec value))
                      | Some stop \<Rightarrow>
                          if start = 0 \<or> stop = 0 \<or> start > stop then Inl (BadRequest (PortSpec value))
                          else Inr (start, stop)))"

definition spec_covers :: "u16 \<Rightarrow> string \<Rightarrow> bool" where
  "spec_covers port spec \<longleftrightarrow>
     (case parse_acl_port_spec spec of Inl _ \<Rightarrow> False | Inr (start, stop) \<Rightarrow> start \<le> port \<and> port \<le> stop)"

definition specs_cover :: "bset \<Rightarrow> u16 \<Rightarrow> bool" where
  "specs_cover specs port \<longleftrightarrow> list_ex (spec_covers port) specs"

definition port_spec_matches :: "string list \<Rightarrow> u16 option \<Rightarrow> bool" where
  "port_spec_matches specs port \<longleftrightarrow>
     (if specs = [] then True
      else case port of None \<Rightarrow> True | Some port \<Rightarrow> list_ex (spec_covers port) specs)"

definition protocol_matches :: "acl_protocol list \<Rightarrow> acl_protocol option \<Rightarrow> bool" where
  "protocol_matches protocols protocol \<longleftrightarrow>
     (case protocol of None \<Rightarrow> True | Some wanted \<Rightarrow> protocols = [] \<or> wanted \<in> set protocols)"

subsection \<open>SSH rules\<close>

text \<open>\<open>i64::saturating_sub\<close>; \<open>as i64\<close> reinterprets the bits.\<close>

definition i64_saturating_sub :: "int \<Rightarrow> int \<Rightarrow> int" where
  "i64_saturating_sub a b = max (- (2 ^ 63)) (min (2 ^ 63 - 1) (a - b))"

definition ssh_source_eligible :: "int \<Rightarrow> acl_ssh_rule \<Rightarrow> subject \<Rightarrow> bool" where
  "ssh_source_eligible now r s \<longleftrightarrow>
     (if \<not> posture_satisfied (sr_posture r) s then False
      else if sr_action r \<noteq> SshCheck then True
      else let period = sint (case sr_check_period_secs r of Some p \<Rightarrow> p | None \<Rightarrow> DEFAULT_SSH_CHECK_PERIOD_SECS)
           in case sj_authenticated_at s of
                None \<Rightarrow> False
              | Some issued \<Rightarrow> i64_saturating_sub now issued \<le> period)"

definition ssh_subjects_match :: "acl \<Rightarrow> acl_ssh_rule \<Rightarrow> subject \<Rightarrow> subject \<Rightarrow> bool" where
  "ssh_subjects_match acl r s d \<longleftrightarrow>
     acl_selector (sr_src_roles r) (sr_src_tags r) (sr_src_groups r) s (ac_groups acl)
     \<and> acl_selector (sr_dst_roles r) (sr_dst_tags r) (sr_dst_groups r) d (ac_groups acl)"

definition ssh_rule_matches :: "acl \<Rightarrow> int \<Rightarrow> acl_ssh_rule \<Rightarrow> subject \<Rightarrow> subject \<Rightarrow> string \<Rightarrow> bool" where
  "ssh_rule_matches acl now r s d user \<longleftrightarrow>
     (if \<not> acl_selector (sr_src_roles r) (sr_src_tags r) (sr_src_groups r) s (ac_groups acl) then False
      else if \<not> acl_selector (sr_dst_roles r) (sr_dst_tags r) (sr_dst_groups r) d (ac_groups acl) then False
      else ssh_source_eligible now r s \<and> list_ex (\<lambda>allowed. allowed = ''*'' \<or> allowed = user) (sr_users r))"

definition allows_ssh :: "acl \<Rightarrow> int \<Rightarrow> subject \<Rightarrow> subject \<Rightarrow> string \<Rightarrow> bool" where
  "allows_ssh acl now s d user \<longleftrightarrow>
     (let matching = filter (\<lambda>r. ssh_rule_matches acl now r s d user) (ac_ssh acl)
      in if list_ex (\<lambda>r. sr_action r = SshDeny) matching then False
         else list_ex (\<lambda>r. sr_action r = SshAllow \<or> sr_action r = SshCheck) matching)"

record ssh_scan =
  sc_allow :: bset
  sc_deny :: bset
  sc_allow_star :: bool
  sc_deny_star :: bool

definition ssh_scan_rule :: "acl \<Rightarrow> int \<Rightarrow> subject \<Rightarrow> subject \<Rightarrow> acl_ssh_rule \<Rightarrow> ssh_scan \<Rightarrow> ssh_scan" where
  "ssh_scan_rule acl now s d r sc =
     (if \<not> ssh_subjects_match acl r s d \<or> \<not> ssh_source_eligible now r s then sc
      else let star = list_ex (\<lambda>user. user = ''*'') (sr_users r);
               named = filter (\<lambda>user. user \<noteq> ''*'') (sr_users r)
           in case sr_action r of
                SshDeny \<Rightarrow> sc\<lparr>sc_deny_star := sc_deny_star sc \<or> star, sc_deny := bs_extend (sc_deny sc) named\<rparr>
              | _ \<Rightarrow> sc\<lparr>sc_allow_star := sc_allow_star sc \<or> star, sc_allow := bs_extend (sc_allow sc) named\<rparr>)"

definition ssh_scan_all :: "acl \<Rightarrow> int \<Rightarrow> subject \<Rightarrow> subject \<Rightarrow> acl_ssh_rule list \<Rightarrow> ssh_scan" where
  "ssh_scan_all acl now s d rs =
     fold (ssh_scan_rule acl now s d) rs
       \<lparr>sc_allow = [], sc_deny = [], sc_allow_star = False, sc_deny_star = False\<rparr>"

definition ssh_grant :: "acl \<Rightarrow> int \<Rightarrow> subject \<Rightarrow> subject \<Rightarrow> string list \<times> string list" where
  "ssh_grant acl now s d =
     (let sc = ssh_scan_all acl now s d (ac_ssh acl)
      in if sc_deny_star sc then ([], [])
         else if sc_allow_star sc then ([''*''], sc_deny sc)
         else (filter (\<lambda>user. user \<notin> set (sc_deny sc)) (sc_allow sc), []))"

definition ssh_governed :: "acl \<Rightarrow> subject \<Rightarrow> subject \<Rightarrow> bool" where
  "ssh_governed acl s d \<longleftrightarrow>
     list_ex (\<lambda>r. acl_selector (sr_dst_roles r) (sr_dst_tags r) (sr_dst_groups r) d (ac_groups acl)
                \<and> (sr_action r \<noteq> SshDeny
                   \<or> acl_selector (sr_src_roles r) (sr_src_tags r) (sr_src_groups r) s (ac_groups acl)))
       (ac_ssh acl)"

subsection \<open>The evaluator\<close>

definition acl_rule_matches ::
  "acl \<Rightarrow> acl_rule \<Rightarrow> subject \<Rightarrow> subject \<Rightarrow> u16 option \<Rightarrow> acl_protocol option \<Rightarrow> string option \<Rightarrow> bool" where
  "acl_rule_matches acl r s d port protocol host \<longleftrightarrow>
     (if \<not> acl_selector (ar_src_roles r) (ar_src_tags r) (ar_src_groups r) s (ac_groups acl)
         \<or> \<not> posture_satisfied (ar_posture r) s
      then False
      else if (case host of
                 Some name \<Rightarrow> ar_dst_hosts r \<noteq> [] \<and> name \<notin> set (ar_dst_hosts r)
               | None \<Rightarrow> ar_dst_hosts r \<noteq> [])
      then False
      else if \<not> acl_selector (ar_dst_roles r) (ar_dst_tags r) (ar_dst_groups r) d (ac_groups acl)
      then False
      else port_spec_matches (ar_dst_ports r) port \<and> protocol_matches (ar_protocols r) protocol)"

definition implicit_default_allows :: "acl \<Rightarrow> subject \<Rightarrow> subject \<Rightarrow> bool" where
  "implicit_default_allows acl s d \<longleftrightarrow>
     (case ac_defaults acl of
        DefaultDeny \<Rightarrow> False
      | SameTag \<Rightarrow> (sj_tags s = [] \<and> sj_tags d = []) \<or> list_ex (\<lambda>t. t \<in> set (sj_tags d)) (sj_tags s))"

definition allows_flow ::
  "acl \<Rightarrow> int \<Rightarrow> subject \<Rightarrow> subject \<Rightarrow> u16 option \<Rightarrow> acl_protocol option \<Rightarrow> string option \<Rightarrow> bool" where
  "allows_flow acl now s d port protocol host \<longleftrightarrow>
     (let matching = filter (\<lambda>r. acl_rule_matches acl r s d port protocol host) (ac_rules acl)
      in if list_ex (\<lambda>r. ar_action r = Deny) matching then False
         else if host = None \<and> port = Some SSH_PORT \<and> (protocol = None \<or> protocol = Some Tcp)
                 \<and> ssh_governed acl s d \<and> fst (ssh_grant acl now s d) = []
         then False
         else if list_ex (\<lambda>r. ar_action r = Allow) matching then True
         else if host \<noteq> None then False
         else case ac_defaults acl of
                DefaultDeny \<Rightarrow> False
              | SameTag \<Rightarrow>
                  if sj_tags s = [] \<and> sj_tags d = [] then True
                  else list_ex (\<lambda>t. t \<in> set (sj_tags d)) (sj_tags s))"

subsection \<open>The compiler\<close>

type_synonym services = "bset \<times> bset \<times> bool"

definition collect_service_specs :: "acl_rule \<Rightarrow> services \<Rightarrow> services" where
  "collect_service_specs r sv =
     (let (tcp, udp, icmp) = sv;
          all_protocols = (ar_protocols r = []);
          tcp_ok = (all_protocols \<or> Tcp \<in> set (ar_protocols r));
          udp_ok = (all_protocols \<or> Udp \<in> set (ar_protocols r));
          icmp_ok = (all_protocols \<or> Icmp \<in> set (ar_protocols r))
      in if ar_dst_ports r = []
         then (if tcp_ok then bs_insert ''1-65535'' tcp else tcp,
               if udp_ok then bs_insert ''1-65535'' udp else udp,
               icmp \<or> icmp_ok)
         else (if tcp_ok then bs_extend tcp (ar_dst_ports r) else tcp,
               if udp_ok then bs_extend udp (ar_dst_ports r) else udp,
               icmp))"

definition merge_denied :: "acl_rule \<Rightarrow> services \<Rightarrow> services" where
  "merge_denied r sv =
     (let (tcp, udp, icmp) = sv;
          (denied_tcp, denied_udp, denied_icmp) = collect_service_specs r ([], [], False)
      in (bs_extend tcp denied_tcp, bs_extend udp denied_udp, icmp \<or> denied_icmp))"

definition rule_unrestricted :: "acl_rule \<Rightarrow> bool" where
  "rule_unrestricted r \<longleftrightarrow> ar_dst_ports r = [] \<and> ar_protocols r = []"

definition ssh_open :: "string list \<times> string list \<Rightarrow> bool \<Rightarrow> bool" where
  "ssh_open grant enforced \<longleftrightarrow>
     (let (users, deny_users) = grant;
          restricted = \<not> (length users = 1 \<and> users ! 0 = ''*'' \<and> deny_users = [])
      in users \<noteq> [] \<and> (enforced \<or> \<not> restricted))"

definition peer_ingress_for :: "acl \<Rightarrow> int \<Rightarrow> subject \<Rightarrow> subject \<Rightarrow> bool \<Rightarrow> peer_ingress" where
  "peer_ingress_for acl now s d enforced =
     (let (users, deny_users) = ssh_grant acl now s d;
          opened = ssh_open (users, deny_users) enforced;
          close_ssh = (ssh_governed acl s d \<and> \<not> opened);
          matching = filter (\<lambda>r. acl_rule_matches acl r s d None None None) (ac_rules acl)
      in if list_ex (\<lambda>r. ar_action r = Deny \<and> rule_unrestricted r) matching
         then ingress_default\<lparr>in_ssh_users := users, in_ssh_deny_users := deny_users\<rparr>
         else let all = (implicit_default_allows acl s d
                         \<or> list_ex (\<lambda>r. ar_action r = Allow \<and> rule_unrestricted r) matching);
                  (tcp, udp, icmp) =
                    (if \<not> all
                     then fold collect_service_specs (filter (\<lambda>r. ar_action r = Allow) matching) ([], [], all)
                     else ([], [], all));
                  (deny_tcp, deny_udp, deny_icmp) =
                    fold merge_denied (filter (\<lambda>r. ar_action r = Deny) matching) ([], [], False);
                  icmp = (if deny_icmp then False else icmp);
                  deny_tcp = (if close_ssh \<and> \<not> specs_cover deny_tcp SSH_PORT
                              then bs_insert (show_nat 10 (unat SSH_PORT)) deny_tcp else deny_tcp);
                  tcp = (if \<not> all \<and> opened \<and> \<not> specs_cover deny_tcp SSH_PORT \<and> \<not> specs_cover tcp SSH_PORT
                         then bs_insert (show_nat 10 (unat SSH_PORT)) tcp else tcp)
              in \<lparr>in_all = all, in_tcp = tcp, in_udp = udp, in_icmp = icmp, in_deny_tcp = deny_tcp,
                  in_deny_udp = deny_udp, in_deny_icmp = deny_icmp, in_ssh_users = users,
                  in_ssh_deny_users = deny_users\<rparr>)"

definition allows :: "acl \<Rightarrow> int \<Rightarrow> subject \<Rightarrow> subject \<Rightarrow> bool" where
  "allows acl now s d \<longleftrightarrow>
     (let i = peer_ingress_for acl now s d True
      in in_all i \<or> in_icmp i \<or> in_tcp i \<noteq> [] \<or> in_udp i \<noteq> [])"

subsection \<open>Folder sharing\<close>

definition acl_drive_actor :: "subject \<Rightarrow> drive_actor" where
  "acl_drive_actor s =
     \<lparr>da_role = role_str (sj_role s), da_tags = map tag_str (sj_tags s), da_user_id = sj_user_id s,
      da_email = sj_email s\<rparr>"

definition drive_share_visible :: "acl \<Rightarrow> subject \<Rightarrow> subject \<Rightarrow> node_share \<Rightarrow> bool" where
  "drive_share_visible acl src dst share \<longleftrightarrow>
     (if \<not> ns_enabled share then False
      else case ac_drive acl of
             None \<Rightarrow> True
           | Some pol \<Rightarrow>
               actor_permitted (dp_share pol) (acl_drive_actor dst) (ac_groups acl)
               \<and> grant_access pol (ac_groups acl) (acl_drive_actor src) (acl_drive_actor dst) (ns_label share)
                    (ns_read_only share) \<noteq> None)"

text \<open>The ingress entry of one peer in a device's map (\<open>list_peers\<close>).\<close>

definition peer_map_ingress :: "acl \<Rightarrow> int \<Rightarrow> subject \<Rightarrow> subject \<Rightarrow> node_share list \<Rightarrow> bool \<Rightarrow> peer_ingress option" where
  "peer_map_ingress acl now src dst dest_shares enforced =
     (if \<not> allows acl now src dst then None
      else let i = peer_ingress_for acl now dst src enforced;
               visible = filter (drive_share_visible acl src dst) dest_shares
           in Some (i\<lparr>in_tcp := grant_share_ports (in_tcp i) (in_deny_tcp i) (in_all i) visible\<rparr>))"

subsection \<open>Coordinator and device read port texts alike\<close>

lemma parse_acl_port_spec_range: "parse_acl_port_spec spec = Inr rg \<longleftrightarrow> port_range spec = Some rg"
  by (cases "split_once (CHR ''-'') (str_trim spec)")
     (auto simp: parse_acl_port_spec_def port_range_def Let_def not_le split: option.splits if_splits)

lemma spec_covers_range: "spec_covers port spec \<longleftrightarrow> (\<exists>rg. port_range spec = Some rg \<and> in_range rg port)"
  by (auto simp: spec_covers_def parse_acl_port_spec_range [symmetric] in_range_def split: sum.split)

lemma specs_cover_listed: "specs_cover specs port = listed specs port"
  by (auto simp: specs_cover_def list_ex_iff spec_covers_range listed_def map_filter_def) blast

lemma specs_cover_simps [simp]:
  "\<not> specs_cover [] port" "specs_cover (bs_insert x xs) port \<longleftrightarrow> spec_covers port x \<or> specs_cover xs port"
  "specs_cover (bs_extend xs ys) port \<longleftrightarrow> specs_cover xs port \<or> specs_cover ys port"
  by (auto simp: specs_cover_def list_ex_iff set_insort_insert)

lemma port_range_show: "port \<noteq> 0 \<Longrightarrow> port_range (show_nat 10 (unat port)) = Some (port, port)"
  using show_decimal_chars [of _ "unat port"] split_once_None [of "CHR ''-''" "show_nat 10 (unat port)"]
  by (auto simp: port_range_def Let_def str_trim_show_nat parse_u16_show dest: show_decimal_chars)

lemma spec_covers_show: "q \<noteq> 0 \<Longrightarrow> spec_covers port (show_nat 10 (unat q)) \<longleftrightarrow> port = q"
  by (auto simp: spec_covers_range port_range_show in_range_def)

lemma spec_covers_22 [simp]:
  "spec_covers port (show_nat 10 (unat SSH_PORT)) \<longleftrightarrow> port = 22" "spec_covers port (show_nat 10 22) \<longleftrightarrow> port = 22"
  using spec_covers_show [of SSH_PORT port] by (simp_all add: SSH_PORT_def)

lemma spec_covers_everything [simp]: "spec_covers port ''1-65535'' \<longleftrightarrow> port \<noteq> 0"
proof -
  have t: "str_trim ''1-65535'' = ''1-65535''" by (rule str_trim_id) (simp add: printing_def ascii_code_def)
  have "port_range ''1-65535'' = Some (1, 65535)"
    by (simp add: port_range_def t split_once_def parse_u16_def from_str_radix_def char_to_digit_def ascii_code_def)
  moreover have "port \<le> 65535" using unsigned_less [of port, where ?'a = nat] by (simp add: word_le_nat_alt)
  moreover have "1 \<le> port \<longleftrightarrow> port \<noteq> 0" by (simp add: word_le_nat_alt unat_gt_0 Suc_le_eq)
  ultimately show ?thesis by (simp add: spec_covers_range in_range_def)
qed

subsection \<open>What a rule says about one service\<close>

definition names_service :: "acl_rule \<Rightarrow> acl_protocol \<Rightarrow> u16 \<Rightarrow> bool" where
  "names_service r p port \<longleftrightarrow>
     (ar_protocols r = [] \<or> p \<in> set (ar_protocols r))
     \<and> (ar_dst_ports r = [] \<or> list_ex (spec_covers port) (ar_dst_ports r))"

definition names_icmp :: "acl_rule \<Rightarrow> bool" where
  "names_icmp r \<longleftrightarrow> (ar_protocols r = [] \<or> Icmp \<in> set (ar_protocols r)) \<and> ar_dst_ports r = []"

abbreviation selects :: "acl \<Rightarrow> acl_rule \<Rightarrow> subject \<Rightarrow> subject \<Rightarrow> bool" where
  "selects acl r s d \<equiv> acl_rule_matches acl r s d None None None"

lemma matches_service:
  "acl_rule_matches acl r s d (Some port) (Some p) None \<longleftrightarrow> selects acl r s d \<and> names_service r p port"
  by (auto simp: acl_rule_matches_def port_spec_matches_def protocol_matches_def names_service_def)

lemma unrestricted_names: "rule_unrestricted r \<Longrightarrow> names_service r p port \<and> names_icmp r"
  by (simp add: rule_unrestricted_def names_service_def names_icmp_def)

lemma collect_covers:
  assumes "port \<noteq> 0"
  shows "specs_cover (fst (collect_service_specs r sv)) port \<longleftrightarrow> specs_cover (fst sv) port \<or> names_service r Tcp port"
    and "specs_cover (fst (snd (collect_service_specs r sv))) port \<longleftrightarrow>
      specs_cover (fst (snd sv)) port \<or> names_service r Udp port"
    and "snd (snd (collect_service_specs r sv)) \<longleftrightarrow> snd (snd sv) \<or> names_icmp r"
  using assms
  by (auto simp: collect_service_specs_def names_service_def names_icmp_def Let_def specs_cover_def [of "ar_dst_ports r"]
      split: prod.split)

lemma merge_covers:
  assumes "port \<noteq> 0"
  shows "specs_cover (fst (merge_denied r sv)) port \<longleftrightarrow> specs_cover (fst sv) port \<or> names_service r Tcp port"
    and "specs_cover (fst (snd (merge_denied r sv))) port \<longleftrightarrow>
      specs_cover (fst (snd sv)) port \<or> names_service r Udp port"
    and "snd (snd (merge_denied r sv)) \<longleftrightarrow> snd (snd sv) \<or> names_icmp r"
  using collect_covers [OF assms, of r "([], [], False)"]
  by (auto simp: merge_denied_def Let_def split: prod.split)

lemma fold_collect_covers:
  assumes "port \<noteq> 0"
  shows "(specs_cover (fst (fold collect_service_specs rs sv)) port \<longleftrightarrow>
      specs_cover (fst sv) port \<or> (\<exists>r\<in>set rs. names_service r Tcp port))
    \<and> (specs_cover (fst (snd (fold collect_service_specs rs sv))) port \<longleftrightarrow>
      specs_cover (fst (snd sv)) port \<or> (\<exists>r\<in>set rs. names_service r Udp port))
    \<and> (snd (snd (fold collect_service_specs rs sv)) \<longleftrightarrow> snd (snd sv) \<or> (\<exists>r\<in>set rs. names_icmp r))"
  by (induction rs arbitrary: sv) (auto simp: collect_covers [OF assms])

lemma fold_merge_covers:
  assumes "port \<noteq> 0"
  shows "(specs_cover (fst (fold merge_denied rs sv)) port \<longleftrightarrow>
      specs_cover (fst sv) port \<or> (\<exists>r\<in>set rs. names_service r Tcp port))
    \<and> (specs_cover (fst (snd (fold merge_denied rs sv))) port \<longleftrightarrow>
      specs_cover (fst (snd sv)) port \<or> (\<exists>r\<in>set rs. names_service r Udp port))
    \<and> (snd (snd (fold merge_denied rs sv)) \<longleftrightarrow> snd (snd sv) \<or> (\<exists>r\<in>set rs. names_icmp r))"
  by (induction rs arbitrary: sv) (auto simp: merge_covers [OF assms])

subsection \<open>The compiled ingress, read service by service\<close>

definition rule_says :: "acl \<Rightarrow> subject \<Rightarrow> subject \<Rightarrow> action \<Rightarrow> (acl_rule \<Rightarrow> bool) \<Rightarrow> bool" where
  "rule_says acl s d a P \<longleftrightarrow> (\<exists>r\<in>set (ac_rules acl). selects acl r s d \<and> ar_action r = a \<and> P r)"

definition all_open :: "acl \<Rightarrow> subject \<Rightarrow> subject \<Rightarrow> bool" where
  "all_open acl s d \<longleftrightarrow> implicit_default_allows acl s d \<or> rule_says acl s d Allow rule_unrestricted"

definition ssh_opened :: "acl \<Rightarrow> int \<Rightarrow> subject \<Rightarrow> subject \<Rightarrow> bool \<Rightarrow> bool" where
  "ssh_opened acl now s d enforced \<longleftrightarrow> ssh_open (ssh_grant acl now s d) enforced"

lemma ingress_closed:
  "rule_says acl s d Deny rule_unrestricted \<Longrightarrow>
    peer_ingress_for acl now s d enforced =
      ingress_default\<lparr>in_ssh_users := fst (ssh_grant acl now s d), in_ssh_deny_users := snd (ssh_grant acl now s d)\<rparr>"
  by (auto simp: peer_ingress_for_def Let_def rule_says_def list_ex_iff split: prod.split)

lemma ingress_flags:
  assumes "\<not> rule_says acl s d Deny rule_unrestricted"
  shows "in_all (peer_ingress_for acl now s d enforced) = all_open acl s d"
    and "in_ssh_users (peer_ingress_for acl now s d enforced) = fst (ssh_grant acl now s d)"
    and "in_ssh_deny_users (peer_ingress_for acl now s d enforced) = snd (ssh_grant acl now s d)"
  using assms
  by (auto simp: peer_ingress_for_def Let_def rule_says_def list_ex_iff all_open_def split: prod.split)

definition denied_services :: "acl \<Rightarrow> subject \<Rightarrow> subject \<Rightarrow> services" where
  "denied_services acl s d =
     fold merge_denied (filter (\<lambda>r. ar_action r = Deny) (filter (\<lambda>r. selects acl r s d) (ac_rules acl))) ([], [], False)"

definition allowed_services :: "acl \<Rightarrow> subject \<Rightarrow> subject \<Rightarrow> services" where
  "allowed_services acl s d =
     (if all_open acl s d then ([], [], True)
      else fold collect_service_specs
             (filter (\<lambda>r. ar_action r = Allow) (filter (\<lambda>r. selects acl r s d) (ac_rules acl))) ([], [], False))"

lemma ingress_fields:
  assumes "\<not> rule_says acl s d Deny rule_unrestricted"
  shows "peer_ingress_for acl now s d enforced =
    (let (tcp, udp, icmp) = allowed_services acl s d;
         (deny_tcp, deny_udp, deny_icmp) = denied_services acl s d;
         opened = ssh_opened acl now s d enforced;
         deny_tcp = (if (ssh_governed acl s d \<and> \<not> opened) \<and> \<not> specs_cover deny_tcp SSH_PORT
                     then bs_insert (show_nat 10 (unat SSH_PORT)) deny_tcp else deny_tcp);
         tcp = (if \<not> all_open acl s d \<and> opened \<and> \<not> specs_cover deny_tcp SSH_PORT \<and> \<not> specs_cover tcp SSH_PORT
                then bs_insert (show_nat 10 (unat SSH_PORT)) tcp else tcp)
     in \<lparr>in_all = all_open acl s d, in_tcp = tcp, in_udp = udp, in_icmp = (if deny_icmp then False else icmp),
         in_deny_tcp = deny_tcp, in_deny_udp = deny_udp, in_deny_icmp = deny_icmp,
         in_ssh_users = fst (ssh_grant acl now s d), in_ssh_deny_users = snd (ssh_grant acl now s d)\<rparr>)"
proof -
  have closed: "\<not> list_ex (\<lambda>r. ar_action r = Deny \<and> rule_unrestricted r) (filter (\<lambda>r. selects acl r s d) (ac_rules acl))"
    using assms by (auto simp: rule_says_def list_ex_iff)
  have all: "(implicit_default_allows acl s d
      \<or> list_ex (\<lambda>r. ar_action r = Allow \<and> rule_unrestricted r) (filter (\<lambda>r. selects acl r s d) (ac_rules acl)))
      = all_open acl s d"
    by (auto simp: all_open_def rule_says_def list_ex_iff)
  obtain users deny_users where g: "ssh_grant acl now s d = (users, deny_users)" by (cases "ssh_grant acl now s d")
  show ?thesis
    unfolding peer_ingress_for_def g Let_def prod.case all allowed_services_def denied_services_def ssh_opened_def
    using closed by (cases "all_open acl s d") (simp_all add: case_prod_beta)
qed

lemma service_sets:
  assumes "port \<noteq> 0"
  shows "specs_cover (fst (denied_services acl s d)) port \<longleftrightarrow> rule_says acl s d Deny (\<lambda>r. names_service r Tcp port)"
    and "specs_cover (fst (snd (denied_services acl s d))) port \<longleftrightarrow> rule_says acl s d Deny (\<lambda>r. names_service r Udp port)"
    and "snd (snd (denied_services acl s d)) \<longleftrightarrow> rule_says acl s d Deny names_icmp"
    and "\<not> all_open acl s d \<Longrightarrow>
      specs_cover (fst (allowed_services acl s d)) port \<longleftrightarrow> rule_says acl s d Allow (\<lambda>r. names_service r Tcp port)"
    and "\<not> all_open acl s d \<Longrightarrow>
      specs_cover (fst (snd (allowed_services acl s d))) port \<longleftrightarrow> rule_says acl s d Allow (\<lambda>r. names_service r Udp port)"
    and "\<not> all_open acl s d \<Longrightarrow> snd (snd (allowed_services acl s d)) \<longleftrightarrow> rule_says acl s d Allow names_icmp"
  using fold_merge_covers [OF assms] fold_collect_covers [OF assms]
  by (auto simp: denied_services_def allowed_services_def rule_says_def)

text \<open>What the ingress admits of TCP other than SSH, of UDP and of ICMP.\<close>

definition admits :: "peer_ingress \<Rightarrow> u8 \<Rightarrow> u16 \<Rightarrow> bool" where
  "admits i p port \<longleftrightarrow> granted i p port \<and> \<not> denied i p port"

lemma default_open: "implicit_default_allows acl s d \<Longrightarrow> all_open acl s d"
  by (simp add: all_open_def)

lemma rule_says_mono: "rule_says acl s d a P \<Longrightarrow> (\<And>r. P r \<Longrightarrow> Q r) \<Longrightarrow> rule_says acl s d a Q"
  by (auto simp: rule_says_def)

lemma all_open_allows:
  "(all_open acl s d \<or> rule_says acl s d Allow (\<lambda>r. names_service r p port)) \<longleftrightarrow>
    rule_says acl s d Allow (\<lambda>r. names_service r p port) \<or> implicit_default_allows acl s d"
  using unrestricted_names by (auto simp: all_open_def elim: rule_says_mono)

lemma allows_flow_service:
  assumes "p = Udp \<or> port \<noteq> 22" and "p \<noteq> Icmp"
  shows "allows_flow acl now s d (Some port) (Some p) None \<longleftrightarrow>
    \<not> rule_says acl s d Deny (\<lambda>r. names_service r p port)
    \<and> (rule_says acl s d Allow (\<lambda>r. names_service r p port) \<or> implicit_default_allows acl s d)"
  using assms
  by (auto simp: allows_flow_def Let_def list_ex_iff rule_says_def matches_service implicit_default_allows_def SSH_PORT_def
      split: acl_defaults.splits)

lemma ingress_admits_tcp:
  assumes "port \<noteq> 0" "port \<noteq> 22"
  shows "admits (peer_ingress_for acl now s d enforced) TCP port \<longleftrightarrow>
    allows_flow acl now s d (Some port) (Some Tcp) None"
proof (cases "rule_says acl s d Deny rule_unrestricted")
  case True
  then have "rule_says acl s d Deny (\<lambda>r. names_service r Tcp port)"
    using unrestricted_names by (auto elim: rule_says_mono)
  with True assms show ?thesis
    by (simp add: ingress_closed admits_def granted_def ingress_default_def allows_flow_service is_icmp_def listed_def map_filter_def)
next
  case False
  let ?i = "peer_ingress_for acl now s d enforced"
  have "listed (in_deny_tcp ?i) port \<longleftrightarrow> rule_says acl s d Deny (\<lambda>r. names_service r Tcp port)"
    using assms service_sets [OF assms(1), of acl s d]
    by (auto simp: ingress_fields [OF False] Let_def case_prod_beta specs_cover_listed [symmetric])
  moreover have "in_all ?i \<or> listed (in_tcp ?i) port \<longleftrightarrow>
      all_open acl s d \<or> rule_says acl s d Allow (\<lambda>r. names_service r Tcp port)"
    using assms service_sets(4) [OF assms(1), of acl s d]
    by (auto simp: ingress_fields [OF False] Let_def case_prod_beta specs_cover_listed [symmetric])
  ultimately show ?thesis
    using assms by (auto simp: admits_def granted_def denied_def allows_flow_service all_open_allows is_icmp_def)
qed

lemma ingress_admits_udp:
  assumes "port \<noteq> 0"
  shows "admits (peer_ingress_for acl now s d enforced) UDP port \<longleftrightarrow>
    allows_flow acl now s d (Some port) (Some Udp) None"
proof (cases "rule_says acl s d Deny rule_unrestricted")
  case True
  then have "rule_says acl s d Deny (\<lambda>r. names_service r Udp port)"
    using unrestricted_names by (auto elim: rule_says_mono)
  with True assms show ?thesis
    by (simp add: ingress_closed admits_def granted_def ingress_default_def allows_flow_service is_icmp_def listed_def map_filter_def)
next
  case False
  let ?i = "peer_ingress_for acl now s d enforced"
  have "listed (in_deny_udp ?i) port \<longleftrightarrow> rule_says acl s d Deny (\<lambda>r. names_service r Udp port)"
    using service_sets(2) [OF assms(1), of acl s d]
    by (auto simp: ingress_fields [OF False] Let_def case_prod_beta specs_cover_listed [symmetric])
  moreover have "in_all ?i \<or> listed (in_udp ?i) port \<longleftrightarrow>
      all_open acl s d \<or> rule_says acl s d Allow (\<lambda>r. names_service r Udp port)"
    using service_sets(5) [OF assms(1), of acl s d]
    by (auto simp: ingress_fields [OF False] Let_def case_prod_beta specs_cover_listed [symmetric])
  ultimately show ?thesis
    using assms by (auto simp: admits_def granted_def denied_def allows_flow_service all_open_allows is_icmp_def)
qed

text \<open>
  C3. The compiled ingress is the policy. For every TCP port other than 22 and every UDP port, what
  the compiler hands to the device (denials before grants) admits a flow exactly when the policy
  evaluator allows it, for every policy, pair of devices and capability of the destination.
\<close>

theorem ingress_is_policy:
  assumes "port \<noteq> 0"
  shows "(port \<noteq> 22 \<longrightarrow>
      admits (peer_ingress_for acl now s d enforced) TCP port = allows_flow acl now s d (Some port) (Some Tcp) None)
    \<and> admits (peer_ingress_for acl now s d enforced) UDP port = allows_flow acl now s d (Some port) (Some Udp) None"
  using ingress_admits_tcp [OF assms] ingress_admits_udp [OF assms] by blast

subsection \<open>SSH users\<close>

definition ssh_applies :: "acl \<Rightarrow> int \<Rightarrow> subject \<Rightarrow> subject \<Rightarrow> acl_ssh_rule \<Rightarrow> bool" where
  "ssh_applies acl now s d r \<longleftrightarrow> ssh_subjects_match acl r s d \<and> ssh_source_eligible now r s"

definition ssh_names :: "acl \<Rightarrow> int \<Rightarrow> subject \<Rightarrow> subject \<Rightarrow> acl_ssh_rule list \<Rightarrow> (acl_ssh_rule \<Rightarrow> bool) \<Rightarrow> string \<Rightarrow> bool" where
  "ssh_names acl now s d rs A user \<longleftrightarrow>
     (\<exists>r\<in>set rs. ssh_applies acl now s d r \<and> A r \<and> user \<in> set (sr_users r))"

abbreviation denies :: "acl_ssh_rule \<Rightarrow> bool" where
  "denies r \<equiv> sr_action r = SshDeny"

lemma ssh_scan_rule_cases:
  "ssh_scan_rule acl now s d r sc =
     (if \<not> ssh_applies acl now s d r then sc
      else if denies r
      then sc\<lparr>sc_deny_star := sc_deny_star sc \<or> ''*'' \<in> set (sr_users r),
              sc_deny := bs_extend (sc_deny sc) (filter (\<lambda>user. user \<noteq> ''*'') (sr_users r))\<rparr>
      else sc\<lparr>sc_allow_star := sc_allow_star sc \<or> ''*'' \<in> set (sr_users r),
              sc_allow := bs_extend (sc_allow sc) (filter (\<lambda>user. user \<noteq> ''*'') (sr_users r))\<rparr>)"
  by (auto simp: ssh_scan_rule_def ssh_applies_def Let_def list_ex_iff split: ssh_action.split)

lemma ssh_scan_fold:
  "let sc' = fold (ssh_scan_rule acl now s d) rs sc
   in set (sc_allow sc') = set (sc_allow sc) \<union> {u. u \<noteq> ''*'' \<and> ssh_names acl now s d rs (\<lambda>r. \<not> denies r) u}
      \<and> set (sc_deny sc') = set (sc_deny sc) \<union> {u. u \<noteq> ''*'' \<and> ssh_names acl now s d rs denies u}
      \<and> sc_allow_star sc' = (sc_allow_star sc \<or> ssh_names acl now s d rs (\<lambda>r. \<not> denies r) ''*'')
      \<and> sc_deny_star sc' = (sc_deny_star sc \<or> ssh_names acl now s d rs denies ''*'')"
proof (induction rs arbitrary: sc)
  case Nil
  then show ?case by (simp add: ssh_names_def)
next
  case (Cons r rs)
  have n: "ssh_names acl now s d (r # rs) A u \<longleftrightarrow>
      ssh_applies acl now s d r \<and> A r \<and> u \<in> set (sr_users r) \<or> ssh_names acl now s d rs A u" for A u
    by (auto simp: ssh_names_def)
  show ?case
    using Cons [of "ssh_scan_rule acl now s d r sc"]
    by (auto simp: ssh_scan_rule_cases n Let_def)
qed

lemma ssh_scan_sets:
  "set (sc_allow (ssh_scan_all acl now s d rs)) = {u. u \<noteq> ''*'' \<and> ssh_names acl now s d rs (\<lambda>r. \<not> denies r) u}"
  "set (sc_deny (ssh_scan_all acl now s d rs)) = {u. u \<noteq> ''*'' \<and> ssh_names acl now s d rs denies u}"
  "sc_allow_star (ssh_scan_all acl now s d rs) = ssh_names acl now s d rs (\<lambda>r. \<not> denies r) ''*''"
  "sc_deny_star (ssh_scan_all acl now s d rs) = ssh_names acl now s d rs denies ''*''"
  using ssh_scan_fold [of acl now s d rs "\<lparr>sc_allow = [], sc_deny = [], sc_allow_star = False, sc_deny_star = False\<rparr>"]
  by (simp_all add: ssh_scan_all_def Let_def)

lemma allows_ssh_names:
  "allows_ssh acl now s d user \<longleftrightarrow>
    \<not> (ssh_names acl now s d (ac_ssh acl) denies ''*'' \<or> ssh_names acl now s d (ac_ssh acl) denies user)
    \<and> (ssh_names acl now s d (ac_ssh acl) (\<lambda>r. \<not> denies r) ''*'' \<or> ssh_names acl now s d (ac_ssh acl) (\<lambda>r. \<not> denies r) user)"
proof -
  have m: "ssh_rule_matches acl now r s d user \<longleftrightarrow>
      ssh_applies acl now s d r \<and> (''*'' \<in> set (sr_users r) \<or> user \<in> set (sr_users r))" for r
    by (auto simp: ssh_rule_matches_def ssh_applies_def ssh_subjects_match_def list_ex_iff)
  have a: "sr_action r = SshAllow \<or> sr_action r = SshCheck \<longleftrightarrow> \<not> denies r" for r
    by (cases "sr_action r") simp_all
  show ?thesis
    unfolding allows_ssh_def Let_def a by (auto simp: list_ex_iff m ssh_names_def)
qed

text \<open>
  C4. The user list sent to the agent is the SSH policy: an operating-system user may log in
  according to the compiled allow and deny lists exactly when the evaluator allows it, wildcard
  grants with exceptions, overriding denials, posture and \<open>check\<close> periods included.
\<close>

theorem ssh_grant_is_policy:
  assumes "user \<noteq> ''*''"
  shows "allows_ssh acl now s d user \<longleftrightarrow>
    (let (users, deny_users) = ssh_grant acl now s d
     in user \<in> set users \<or> users = [''*''] \<and> user \<notin> set deny_users)"
proof -
  have ne: "filter P (sc_allow (ssh_scan_all acl now s d rs)) \<noteq> [''*'']" for P rs
  proof
    assume eq: "filter P (sc_allow (ssh_scan_all acl now s d rs)) = [''*'']"
    have "''*'' \<in> set (filter P (sc_allow (ssh_scan_all acl now s d rs)))" unfolding eq by simp
    then show False by (simp add: ssh_scan_sets)
  qed
  show ?thesis
    using assms ne [of "\<lambda>u. u \<notin> set (sc_deny (ssh_scan_all acl now s d (ac_ssh acl)))" "ac_ssh acl"]
    by (auto simp: ssh_grant_def Let_def allows_ssh_names ssh_scan_sets)
qed

subsection \<open>Port 22 and ICMP\<close>

lemma ssh_grant_governed: "fst (ssh_grant acl now s d) \<noteq> [] \<Longrightarrow> ssh_governed acl s d"
proof -
  have g: "ssh_names acl now s d (ac_ssh acl) (\<lambda>r. \<not> denies r) u \<Longrightarrow> ssh_governed acl s d" for u
    by (auto simp: ssh_names_def ssh_applies_def ssh_subjects_match_def ssh_governed_def list_ex_iff)
  assume "fst (ssh_grant acl now s d) \<noteq> []"
  then consider "sc_allow_star (ssh_scan_all acl now s d (ac_ssh acl))"
    | u where "u \<in> set (sc_allow (ssh_scan_all acl now s d (ac_ssh acl)))"
    by (auto simp: ssh_grant_def Let_def filter_empty_conv split: if_splits)
  then show ?thesis using g by cases (auto simp: ssh_scan_sets)
qed

definition full_grant :: "string list \<times> string list \<Rightarrow> bool" where
  "full_grant grant \<longleftrightarrow> grant = ([''*''], [])"

lemma single_star: "length users = Suc 0 \<Longrightarrow> users ! 0 = ''*'' \<longleftrightarrow> users = [''*'']"
  by (cases users) auto

lemma ssh_open_cases: "ssh_open g enforced \<longleftrightarrow> fst g \<noteq> [] \<and> (enforced \<or> full_grant g)"
  by (cases g) (auto simp: ssh_open_def full_grant_def single_star)

lemma ssh_restricted_grant:
  "ssh_restricted (i\<lparr>in_ssh_users := fst g, in_ssh_deny_users := snd g\<rparr>) \<longleftrightarrow> fst g \<noteq> [] \<and> \<not> full_grant g"
  by (cases g) (auto simp: ssh_restricted_def full_grant_def single_star)

lemma ingress_restricted:
  assumes "\<not> rule_says acl s d Deny rule_unrestricted"
  shows "ssh_restricted (peer_ingress_for acl now s d enforced) \<longleftrightarrow>
    fst (ssh_grant acl now s d) \<noteq> [] \<and> \<not> full_grant (ssh_grant acl now s d)"
  using ingress_flags [OF assms] ssh_restricted_grant [of "ssh_grant acl now s d" "peer_ingress_for acl now s d enforced"]
  by (simp add: ssh_restricted_def)

lemma ingress_admits_ssh:
  "admits (peer_ingress_for acl now s d enforced) TCP 22 \<longleftrightarrow>
    \<not> rule_says acl s d Deny (\<lambda>r. names_service r Tcp 22)
    \<and> (if ssh_governed acl s d then ssh_grant acl now s d = ([''*''], [])
       else rule_says acl s d Allow (\<lambda>r. names_service r Tcp 22) \<or> implicit_default_allows acl s d)"
proof (cases "rule_says acl s d Deny rule_unrestricted")
  case True
  then have "rule_says acl s d Deny (\<lambda>r. names_service r Tcp 22)"
    using unrestricted_names by (auto elim: rule_says_mono)
  with True show ?thesis
    by (simp add: ingress_closed admits_def granted_def ingress_default_def is_icmp_def listed_def map_filter_def)
next
  case False
  let ?i = "peer_ingress_for acl now s d enforced" and ?g = "ssh_grant acl now s d"
  let ?deny = "rule_says acl s d Deny (\<lambda>r. names_service r Tcp 22)"
  have n: "(22 :: u16) \<noteq> 0" by simp
  have open_iff: "ssh_opened acl now s d enforced \<longleftrightarrow> fst ?g \<noteq> [] \<and> (enforced \<or> full_grant ?g)"
    by (simp add: ssh_opened_def ssh_open_cases)
  have deny: "listed (in_deny_tcp ?i) 22 \<longleftrightarrow> ?deny \<or> ssh_governed acl s d \<and> \<not> ssh_opened acl now s d enforced"
    using service_sets(1) [OF n, of acl s d]
    by (auto simp: ingress_fields [OF False] Let_def case_prod_beta specs_cover_listed [symmetric] SSH_PORT_def)
  have grant: "\<not> listed (in_deny_tcp ?i) 22 \<Longrightarrow> in_all ?i \<or> listed (in_tcp ?i) 22 \<longleftrightarrow>
      ssh_opened acl now s d enforced \<or> all_open acl s d \<or> rule_says acl s d Allow (\<lambda>r. names_service r Tcp 22)"
    using service_sets(4) [OF n, of acl s d]
    by (auto simp: ingress_fields [OF False] Let_def case_prod_beta specs_cover_listed [symmetric] SSH_PORT_def)
  have full: "full_grant ?g \<longleftrightarrow> ?g = ([''*''], [])" "full_grant ?g \<Longrightarrow> fst ?g \<noteq> []"
    by (auto simp: full_grant_def)
  show ?thesis
    using deny grant open_iff full ssh_grant_governed [of acl now s d] ingress_restricted [OF False, of now enforced]
      all_open_allows [of acl s d Tcp 22]
    by (auto simp: admits_def granted_def denied_def is_icmp_def)
qed

text \<open>
  C5. On a device that cannot limit SSH per user, TCP port 22 is open exactly when no deny rule
  names it and, on destinations the SSH rules govern, the source holds the full wildcard grant with
  no excluded user; where no SSH rule governs the destination, the ordinary rules decide. A grant
  limited to users never opens the port, whatever capability the coordinator assumed.
\<close>

theorem ssh_port_exact:
  "admits (peer_ingress_for acl now s d enforced) TCP 22 \<longleftrightarrow>
    \<not> rule_says acl s d Deny (\<lambda>r. names_service r Tcp 22)
    \<and> (if ssh_governed acl s d then ssh_grant acl now s d = ([''*''], [])
       else rule_says acl s d Allow (\<lambda>r. names_service r Tcp 22) \<or> implicit_default_allows acl s d)"
  by (rule ingress_admits_ssh)

lemma ingress_icmp:
  "admits (peer_ingress_for acl now s d enforced) ICMP 0 \<longleftrightarrow>
    \<not> rule_says acl s d Deny names_icmp \<and> (rule_says acl s d Allow names_icmp \<or> implicit_default_allows acl s d)"
proof (cases "rule_says acl s d Deny rule_unrestricted")
  case True
  then have "rule_says acl s d Deny names_icmp" using unrestricted_names by (auto elim: rule_says_mono)
  with True show ?thesis
    by (simp add: ingress_closed admits_def granted_def ingress_default_def)
next
  case False
  let ?i = "peer_ingress_for acl now s d enforced"
  have n: "(22 :: u16) \<noteq> 0" by simp
  have "in_deny_icmp ?i \<longleftrightarrow> rule_says acl s d Deny names_icmp"
    using service_sets(3) [OF n, of acl s d] by (auto simp: ingress_fields [OF False] Let_def case_prod_beta)
  moreover have "\<not> in_deny_icmp ?i \<Longrightarrow> in_all ?i \<or> in_icmp ?i \<longleftrightarrow> all_open acl s d \<or> rule_says acl s d Allow names_icmp"
    using service_sets(6) [OF n, of acl s d] by (auto simp: ingress_fields [OF False] Let_def case_prod_beta)
  moreover have "all_open acl s d \<or> rule_says acl s d Allow names_icmp \<longleftrightarrow>
      rule_says acl s d Allow names_icmp \<or> implicit_default_allows acl s d"
    using unrestricted_names by (auto simp: all_open_def elim: rule_says_mono)
  ultimately show ?thesis by (auto simp: admits_def granted_def denied_def is_icmp_def)
qed

theorem ingress_is_policy_witness:
  "admits (peer_ingress_for acl_default 0 (subject_new Member []) (subject_new Member []) False) TCP 443
   \<and> \<not> admits (peer_ingress_for acl_default 0 (subject_new Member [Office]) (subject_new Member []) False) UDP 53"
  using ingress_is_policy [of 443 acl_default 0 "subject_new Member []" "subject_new Member []" False]
    ingress_is_policy [of 53 acl_default 0 "subject_new Member [Office]" "subject_new Member []" False]
  by (simp add: allows_flow_def acl_default_def subject_new_def SSH_PORT_def)

definition ops_rule :: acl_ssh_rule where
  "ops_rule =
     \<lparr>sr_action = SshAllow, sr_src_roles = [Admin], sr_src_tags = [], sr_src_groups = [], sr_dst_roles = [],
      sr_dst_tags = [], sr_dst_groups = [], sr_users = [''ops''], sr_check_period_secs = None, sr_posture = []\<rparr>"

theorem ssh_grant_is_policy_witness:
  "allows_ssh (acl_default\<lparr>ac_ssh := [ops_rule]\<rparr>) 0 (subject_new Admin []) (subject_new Member []) ''ops''
   \<and> ssh_grant (acl_default\<lparr>ac_ssh := [ops_rule]\<rparr>) 0 (subject_new Admin []) (subject_new Member []) = ([''ops''], [])"
proof -
  have g: "ssh_grant (acl_default\<lparr>ac_ssh := [ops_rule]\<rparr>) 0 (subject_new Admin []) (subject_new Member []) = ([''ops''], [])"
    by (simp add: ssh_grant_def ssh_scan_all_def ssh_scan_rule_def ssh_subjects_match_def ssh_source_eligible_def
        posture_satisfied_def acl_selector_def ops_rule_def subject_new_def bs_extend_def insort_insert_key_def)
  then show ?thesis
    using ssh_grant_is_policy [of "''ops''" "acl_default\<lparr>ac_ssh := [ops_rule]\<rparr>" 0 "subject_new Admin []" "subject_new Member []"]
    by simp
qed

end
