(* ===== verification/Acl_Validate.thy ===== *)
theory Acl_Validate
  imports Acl_Policy
begin

section \<open>Accepting a policy, and the drive view (\<open>Acl::validate\<close>, \<open>Acl::compile_drive\<close>)\<close>

text \<open>
  The checks a submitted policy passes before it is stored, its built-in tests among them, and the
  folder-sharing view a device receives. The error a check gives is the constructor of
  \<open>problem\<close> for its message.
\<close>

subsection \<open>Names and host targets\<close>

definition valid_acl_group_name :: "string \<Rightarrow> bool" where
  "valid_acl_group_name name \<longleftrightarrow>
     (case name of
        [] \<Rightarrow> False
      | c # rest \<Rightarrow>
          is_ascii_lowercase c \<and> length name \<le> 32
          \<and> list_all (\<lambda>c. is_ascii_lowercase c \<or> is_ascii_digit c \<or> c = CHR ''-'') rest)"

definition valid_ssh_os_user :: "string \<Rightarrow> bool" where
  "valid_ssh_os_user user \<longleftrightarrow>
     (if user = ''*'' then True
      else case user of
             [] \<Rightarrow> False
           | c # rest \<Rightarrow>
               length user \<le> 32 \<and> (is_ascii_alphabetic c \<or> c = CHR ''_'')
               \<and> list_all (\<lambda>c. is_ascii_alphanumeric c \<or> c = CHR ''.'' \<or> c = CHR ''_'' \<or> c = CHR ''-'') rest)"

definition ipv4_mask :: "u8 \<Rightarrow> u32" where
  "ipv4_mask prefix = (if prefix = 0 then 0 else push_bit (32 - unat prefix) (- 1))"

text \<open>\<open>std::net\<close>: private, unspecified, multicast and loopback addresses.\<close>

definition v4_is_private :: "u32 \<Rightarrow> bool" where
  "v4_is_private a \<longleftrightarrow>
     (let n = unat a in n div 2 ^ 24 = 10 \<or> n div 2 ^ 20 = 172 * 16 + 1 \<or> n div 2 ^ 16 = 192 * 256 + 168)"

definition ip_is_unspecified :: "ip_addr \<Rightarrow> bool" where
  "ip_is_unspecified ip = (case ip of V4 a \<Rightarrow> a = 0 | V6 a \<Rightarrow> a = 0)"

definition ip_is_multicast :: "ip_addr \<Rightarrow> bool" where
  "ip_is_multicast ip = (case ip of V4 a \<Rightarrow> unat a div 2 ^ 28 = 14 | V6 a \<Rightarrow> unat a div 2 ^ 120 = 255)"

definition ip_is_loopback :: "ip_addr \<Rightarrow> bool" where
  "ip_is_loopback ip = (case ip of V4 a \<Rightarrow> unat a div 2 ^ 24 = 127 | V6 a \<Rightarrow> a = 1)"

definition overlay_or_private :: "ip_addr \<Rightarrow> bool" where
  "overlay_or_private ip =
     (case ip of
        V4 a \<Rightarrow> v4_is_private a \<or> unat a div 2 ^ 22 = 100 * 4 + 1
      | V6 a \<Rightarrow> unat a div 2 ^ 121 = 0x7e)"

definition require_private_host_ip :: "ip_addr \<Rightarrow> string \<Rightarrow> api_error + unit" where
  "require_private_host_ip address value =
     (if ip_is_unspecified address \<or> ip_is_multicast address \<or> ip_is_loopback address \<or> \<not> overlay_or_private address
      then Inl (BadRequest (HostNotPrivate value)) else Inr ())"

definition parse_acl_host_target :: "string \<Rightarrow> api_error + unit" where
  "parse_acl_host_target value =
     (let value = to_ascii_lowercase (trim_end_char (CHR ''.'') (str_trim value))
      in if value = [] \<or> str_contains ''blaktail'' value then Inl (BadRequest HostForbidden)
         else if value = ''0.0.0.0/0'' \<or> value = ''::/0'' then Inl (BadRequest HostDefaultRoute)
         else case parse_ip value of
           Some address \<Rightarrow> require_private_host_ip address value
         | None \<Rightarrow>
             (case split_once (CHR ''/'') value of
                None \<Rightarrow> Inl (BadRequest (HostForm value))
              | Some (address, prefix) \<Rightarrow>
                  (case parse_ip address of
                     None \<Rightarrow> Inl (BadRequest (HostForm value))
                   | Some address \<Rightarrow>
                       (case parse_u8 prefix of
                          None \<Rightarrow> Inl (BadRequest (HostPrefix value))
                        | Some prefix \<Rightarrow>
                            (case address of
                               V4 ip \<Rightarrow>
                                 if prefix > 32 then Inl (BadRequest (HostPrefix value))
                                 else if ip AND NOT (ipv4_mask prefix) \<noteq> 0 then Inl (BadRequest (HostNotNetwork value))
                                 else require_private_host_ip address value
                             | V6 ip \<Rightarrow>
                                 if prefix > 128 then Inl (BadRequest (HostPrefix value))
                                 else if prefix < 128
                                         \<and> ip AND NOT (if prefix = 0 then 0 else push_bit (128 - unat prefix) (- 1)) \<noteq> 0
                                 then Inl (BadRequest (HostNotNetwork value))
                                 else require_private_host_ip address value)))))"

definition ipv4_host :: "string list \<Rightarrow> string option" where
  "ipv4_host addresses =
     (case List.map_filter (\<lambda>cidr.
             let ip = str_trim (hd (str_split (CHR ''/'') cidr))
             in case parse_ip ip of None \<Rightarrow> None | Some a \<Rightarrow> if is_ipv4 a then Some ip else None) addresses of
        [] \<Rightarrow> None | ip # _ \<Rightarrow> Some ip)"

subsection \<open>Validation\<close>

definition validate_posture_refs :: "string list \<Rightarrow> bool \<Rightarrow> api_error + unit" where
  "validate_posture_refs names allowed =
     (if names = [] then Inr ()
      else if \<not> allowed then Inl (BadRequest PostureOnDeny)
      else if length names > 8 then Inl (BadRequest TooManyPosture)
      else case find (\<lambda>name. \<not> valid_acl_group_name name) names of
             Some name \<Rightarrow> Inl (BadRequest (PostureName name))
           | None \<Rightarrow> Inr ())"

definition check_tag_owner :: "string \<times> string list \<Rightarrow> api_error + unit" where
  "check_tag_owner entry =
     (case entry of (tag, owners) \<Rightarrow>
        and_then (ensure (tag_from_str tag \<noteq> None) (BadRequest (TagOwnerKey tag))) (\<lambda>_.
        and_then (ensure (owners \<noteq> []) (BadRequest (TagWithoutOwner tag))) (\<lambda>_.
        ensure (\<not> list_ex (\<lambda>owner. str_trim owner = []) owners) (BadRequest (EmptyOwner tag)))))"

definition check_host :: "string \<times> string \<Rightarrow> api_error + unit" where
  "check_host entry =
     (case entry of (name, target) \<Rightarrow>
        and_then (ensure (valid_acl_group_name name) (BadRequest (HostName name))) (\<lambda>_.
        parse_acl_host_target target))"

definition check_group :: "string \<times> string list \<Rightarrow> api_error + unit" where
  "check_group entry =
     (case entry of (name, members) \<Rightarrow>
        and_then (ensure (valid_acl_group_name name) (BadRequest (GroupName name))) (\<lambda>_.
        and_then (ensure (members \<noteq> []) (BadRequest (GroupEmpty name))) (\<lambda>_.
        and_then (ensure (length members \<le> 256) (BadRequest (GroupTooLarge name))) (\<lambda>_.
        ensure (\<not> list_ex (\<lambda>member. str_trim member = []) members) (BadRequest (EmptyMember name))))))"

definition rule_selective :: "acl_rule \<Rightarrow> bool" where
  "rule_selective r \<longleftrightarrow>
     \<not> (ar_src_roles r = [] \<and> ar_src_tags r = [] \<and> ar_src_groups r = [] \<and> ar_dst_roles r = [] \<and> ar_dst_tags r = []
        \<and> ar_dst_groups r = [] \<and> ar_dst_hosts r = [])"

definition check_rule :: "acl \<Rightarrow> acl_rule \<Rightarrow> api_error + unit" where
  "check_rule acl r =
     and_then (each (\<lambda>name. ensure (has_key (ac_groups acl) name) (BadRequest (RuleGroup name)))
                 (ar_src_groups r @ ar_dst_groups r)) (\<lambda>_.
     and_then (each (\<lambda>name. ensure (has_key (ac_hosts acl) name) (BadRequest (RuleHost name))) (ar_dst_hosts r)) (\<lambda>_.
     and_then (ensure (length (ar_dst_ports r) \<le> 16) (BadRequest TooManyPorts)) (\<lambda>_.
     and_then (each (\<lambda>spec. and_then (parse_acl_port_spec spec) (\<lambda>_. Inr ())) (ar_dst_ports r)) (\<lambda>_.
     and_then (ensure (\<not> (Icmp \<in> set (ar_protocols r) \<and> ar_dst_ports r \<noteq> [])) (BadRequest IcmpWithPorts)) (\<lambda>_.
     validate_posture_refs (ar_posture r) (ar_action r = Allow))))))"

definition ssh_rule_selective :: "acl_ssh_rule \<Rightarrow> bool" where
  "ssh_rule_selective r \<longleftrightarrow>
     \<not> (sr_src_roles r = [] \<and> sr_src_tags r = [] \<and> sr_src_groups r = [] \<and> sr_dst_roles r = [] \<and> sr_dst_tags r = []
        \<and> sr_dst_groups r = [])"

definition check_ssh_rule :: "acl \<Rightarrow> acl_ssh_rule \<Rightarrow> api_error + unit" where
  "check_ssh_rule acl r =
     and_then (each (\<lambda>name. ensure (has_key (ac_groups acl) name) (BadRequest (SshGroup name)))
                 (sr_src_groups r @ sr_dst_groups r)) (\<lambda>_.
     and_then (ensure (sr_users r \<noteq> [] \<and> length (sr_users r) \<le> 16) (BadRequest SshUsers)) (\<lambda>_.
     and_then (validate_posture_refs (sr_posture r) (sr_action r \<noteq> SshDeny)) (\<lambda>_.
     and_then (each (\<lambda>user. ensure (valid_ssh_os_user user) (BadRequest (SshUser user))) (sr_users r)) (\<lambda>_.
     case (sr_action r, sr_check_period_secs r) of
       (SshCheck, Some period) \<Rightarrow> ensure (1 \<le> period \<and> period \<le> 604800) (BadRequest CheckPeriod)
     | (SshCheck, None) \<Rightarrow> Inr ()
     | (_, Some _) \<Rightarrow> Inl (BadRequest PeriodWithoutCheck)
     | _ \<Rightarrow> Inr ()))))"

definition test_source :: "int \<Rightarrow> acl_test \<Rightarrow> subject" where
  "test_source now t =
     (with_user (subject_new (case at_src_role t of Some r \<Rightarrow> r | None \<Rightarrow> Member) (at_src_tags t)) (at_src_user t))
     \<lparr>sj_email := at_src_email t, sj_passed_posture := at_src_posture t, sj_authenticated_at := Some now\<rparr>"

definition test_destination :: "acl_test \<Rightarrow> subject" where
  "test_destination t =
     (with_user (subject_new (case at_dst_role t of Some r \<Rightarrow> r | None \<Rightarrow> Member) (at_dst_tags t)) (at_dst_user t))
     \<lparr>sj_email := at_dst_email t\<rparr>"

definition test_outcome :: "acl \<Rightarrow> int \<Rightarrow> acl_test \<Rightarrow> bool" where
  "test_outcome acl now t =
     (if at_ssh_user t = []
      then allows_flow acl now (test_source now t) (test_destination t) (at_dst_port t) (at_protocol t)
             (if at_dst_host t \<noteq> [] then Some (at_dst_host t) else None)
      else allows_ssh acl now (test_source now t) (test_destination t) (at_ssh_user t))"

definition check_test :: "acl \<Rightarrow> int \<Rightarrow> nat \<times> acl_test \<Rightarrow> api_error + unit" where
  "check_test acl now it =
     (case it of (index, t) \<Rightarrow>
        and_then (ensure (\<not> (at_dst_host t \<noteq> [] \<and> \<not> has_key (ac_hosts acl) (at_dst_host t))) (BadRequest (TestHost (at_dst_host t)))) (\<lambda>_.
        and_then (ensure (at_dst_port t \<noteq> Some 0) (BadRequest TestPort)) (\<lambda>_.
        and_then (ensure (\<not> (at_protocol t = Some Icmp \<and> at_dst_port t \<noteq> None)) (BadRequest TestIcmpPort)) (\<lambda>_.
        and_then (ensure (\<not> (at_ssh_user t \<noteq> [] \<and> (at_dst_port t \<noteq> None \<or> at_protocol t \<noteq> None \<or> at_dst_host t \<noteq> [])))
                    (BadRequest SshTestTarget)) (\<lambda>_.
        and_then (ensure (\<not> (at_ssh_user t \<noteq> [] \<and> \<not> valid_ssh_os_user (at_ssh_user t))) (BadRequest (SshTestUser (at_ssh_user t)))) (\<lambda>_.
        and_then (validate_posture_refs (at_src_posture t) True) (\<lambda>_.
        ensure (test_outcome acl now t = at_allow t) (BadRequest (TestFailed (index + 1) (at_name t) (test_outcome acl now t))))))))))"

definition validate :: "acl \<Rightarrow> int \<Rightarrow> api_error + unit" where
  "validate acl now =
     and_then (ensure (ac_version acl = 1) (BadRequest (PolicyVersion (unat (ac_version acl))))) (\<lambda>_.
     and_then (case ac_drive acl of None \<Rightarrow> Inr () | Some pol \<Rightarrow> validate_policy pol (ac_groups acl)) (\<lambda>_.
     and_then (ensure (length (ac_tag_owners acl) \<le> 16) (BadRequest TooManyTagOwners)) (\<lambda>_.
     and_then (each check_tag_owner (ac_tag_owners acl)) (\<lambda>_.
     and_then (ensure (length (ac_tests acl) \<le> 128) (BadRequest TooManyTests)) (\<lambda>_.
     and_then (ensure (length (ac_hosts acl) \<le> 64) (BadRequest TooManyHosts)) (\<lambda>_.
     and_then (each check_host (ac_hosts acl)) (\<lambda>_.
     and_then (ensure (length (ac_groups acl) \<le> 64) (BadRequest TooManyGroups)) (\<lambda>_.
     and_then (each check_group (ac_groups acl)) (\<lambda>_.
     and_then (ensure (list_all rule_selective (ac_rules acl)) (BadRequest RuleUnselective)) (\<lambda>_.
     and_then (each (check_rule acl) (ac_rules acl)) (\<lambda>_.
     and_then (ensure (length (ac_ssh acl) \<le> 32) (BadRequest TooManySsh)) (\<lambda>_.
     and_then (ensure (list_all ssh_rule_selective (ac_ssh acl)) (BadRequest SshUnselective)) (\<lambda>_.
     and_then (each (check_ssh_rule acl) (ac_ssh acl)) (\<lambda>_.
     each (check_test acl now) (List.enumerate 0 (ac_tests acl))))))))))))))))"

subsection \<open>The drive view\<close>

definition published_as_share :: "published_share \<Rightarrow> node_share" where
  "published_as_share p =
     \<lparr>ns_label = ps_label p, ns_path = [], ns_port = ps_port p, ns_read_only = ps_read_only p, ns_enabled = True\<rparr>"

definition keep_published :: "acl \<Rightarrow> subject \<Rightarrow> (uuid, subject \<times> string option) hmap \<Rightarrow> published_share \<Rightarrow> bool" where
  "keep_published acl src peers p \<longleftrightarrow>
     (case hm_get peers (ps_node_id p) of
        None \<Rightarrow> False
      | Some (dst, _) \<Rightarrow> drive_share_visible acl src dst (published_as_share p))"

definition mark_published ::
  "drive_policy \<Rightarrow> groups \<Rightarrow> drive_actor \<Rightarrow> (uuid, subject \<times> string option) hmap \<Rightarrow> published_share \<Rightarrow> published_share" where
  "mark_published pol groups actor peers p =
     (case hm_get peers (ps_node_id p) of
        None \<Rightarrow> p
      | Some (dst, _) \<Rightarrow>
          p\<lparr>ps_access := grant_access pol groups actor (acl_drive_actor dst) (ps_label p) (ps_read_only p)\<rparr>)"

definition caller_entries :: "string \<Rightarrow> string \<Rightarrow> string list \<Rightarrow> drive_caller list" where
  "caller_entries label access addresses =
     map (\<lambda>a. \<lparr>dc_address = a, dc_label = label, dc_access = access\<rparr>) addresses"

definition own_access :: "drive_policy \<Rightarrow> groups \<Rightarrow> drive_actor \<Rightarrow> node_share \<Rightarrow> string option" where
  "own_access pol groups actor share = grant_access pol groups actor actor (ns_label share) (ns_read_only share)"

definition local_entries :: "drive_policy \<Rightarrow> groups \<Rightarrow> drive_actor \<Rightarrow> node_share list \<Rightarrow> drive_grant_share list" where
  "local_entries pol groups actor shares =
     List.map_filter (\<lambda>share. map_option (\<lambda>access. \<lparr>gs_label = ns_label share, gs_access = access\<rparr>)
       (own_access pol groups actor share)) (filter ns_enabled shares)"

definition own_callers :: "drive_policy \<Rightarrow> groups \<Rightarrow> drive_actor \<Rightarrow> string option \<Rightarrow> node_share list \<Rightarrow> drive_caller list" where
  "own_callers pol groups actor own_ipv4 shares =
     concat (map (\<lambda>share. case own_access pol groups actor share of
         None \<Rightarrow> []
       | Some access \<Rightarrow>
           caller_entries (ns_label share) access
             (''127.0.0.1'' # (case own_ipv4 of None \<Rightarrow> [] | Some a \<Rightarrow> [a]))) (filter ns_enabled shares))"

definition peer_callers :: "acl \<Rightarrow> int \<Rightarrow> drive_policy \<Rightarrow> subject \<Rightarrow> node_share list \<Rightarrow> subject \<times> string option \<Rightarrow> drive_caller list" where
  "peer_callers acl now pol src shares entry =
     (case entry of
        (_, None) \<Rightarrow> []
      | (dst, Some address) \<Rightarrow>
          if \<not> allows acl now dst src then []
          else concat (map (\<lambda>share.
            case grant_access pol (ac_groups acl) (acl_drive_actor dst) (acl_drive_actor src) (ns_label share) (ns_read_only share) of
              None \<Rightarrow> []
            | Some access \<Rightarrow> caller_entries (ns_label share) access [address]) (filter ns_enabled shares)))"

definition compile_drive ::
  "acl \<Rightarrow> int \<Rightarrow> subject \<Rightarrow> string option \<Rightarrow> node_share list \<Rightarrow> (uuid, subject \<times> string option) hmap
     \<Rightarrow> published_share list \<Rightarrow> drive_view option \<times> published_share list" where
  "compile_drive acl now src own_ipv4 own_shares peers pub =
     (case ac_drive acl of
        None \<Rightarrow> (None, pub)
      | Some pol \<Rightarrow>
          (let actor = acl_drive_actor src;
               may_share = actor_permitted (dp_share pol) actor (ac_groups acl);
               may_access = actor_permitted (dp_access pol) actor (ac_groups acl);
               pub = filter (keep_published acl src peers) pub;
               pub = map (mark_published pol (ac_groups acl) actor peers) pub;
               local_shares = (if may_share then local_entries pol (ac_groups acl) actor own_shares else []);
               callers = (if may_share
                          then own_callers pol (ac_groups acl) actor own_ipv4 own_shares
                               @ concat (map (peer_callers acl now pol src own_shares) (map snd peers))
                          else [])
           in (Some \<lparr>dv_access = may_access, dv_share = may_share, dv_local = local_shares, dv_callers = callers\<rparr>, pub)))"

subsection \<open>What an accepted policy guarantees\<close>

lemma check_rule_ok:
  assumes "check_rule acl r = Inr ()"
  shows "(\<forall>g\<in>set (ar_src_groups r @ ar_dst_groups r). has_key (ac_groups acl) g)
    \<and> (\<forall>h\<in>set (ar_dst_hosts r). has_key (ac_hosts acl) h)
    \<and> (\<forall>spec\<in>set (ar_dst_ports r). \<exists>rg. parse_acl_port_spec spec = Inr rg \<and> port_range spec = Some rg)
    \<and> (Icmp \<in> set (ar_protocols r) \<longrightarrow> ar_dst_ports r = [])"
  using assms by (auto simp: check_rule_def and_then_unit and_then_Inr parse_acl_port_spec_range [symmetric])

lemma check_ssh_rule_ok:
  assumes "check_ssh_rule acl r = Inr ()"
  shows "1 \<le> length (sr_users r) \<and> length (sr_users r) \<le> 16 \<and> list_all valid_ssh_os_user (sr_users r)"
  using assms by (auto simp: check_ssh_rule_def and_then_unit list_all_iff Suc_le_eq)

text \<open>
  C23. An accepted policy is well formed and means what its tests say: it has version 1, every rule
  selects somebody and refers to groups and hosts that exist, every port text denotes a range both
  the coordinator and the devices read, no ICMP rule names ports, every SSH rule names between one
  and sixteen valid users, and the evaluator gives every built-in test its expected answer.
\<close>

theorem validate_sound:
  assumes "validate acl now = Inr ()"
  shows "ac_version acl = 1
    \<and> (\<forall>r\<in>set (ac_rules acl). rule_selective r
        \<and> (\<forall>g\<in>set (ar_src_groups r @ ar_dst_groups r). has_key (ac_groups acl) g)
        \<and> (\<forall>h\<in>set (ar_dst_hosts r). has_key (ac_hosts acl) h)
        \<and> (\<forall>spec\<in>set (ar_dst_ports r). \<exists>rg. parse_acl_port_spec spec = Inr rg \<and> port_range spec = Some rg)
        \<and> (Icmp \<in> set (ar_protocols r) \<longrightarrow> ar_dst_ports r = []))
    \<and> (\<forall>r\<in>set (ac_ssh acl). ssh_rule_selective r \<and> 1 \<le> length (sr_users r) \<and> length (sr_users r) \<le> 16
        \<and> list_all valid_ssh_os_user (sr_users r))
    \<and> (\<forall>t\<in>set (ac_tests acl). test_outcome acl now t = at_allow t)"
proof -
  note v = assms [unfolded validate_def and_then_unit]
  have version: "ac_version acl = 1" using v by simp
  have "rule_selective r \<and> check_rule acl r = Inr ()" if "r \<in> set (ac_rules acl)" for r
    using v that by (simp add: list_all_iff)
  moreover have "ssh_rule_selective r \<and> check_ssh_rule acl r = Inr ()" if "r \<in> set (ac_ssh acl)" for r
    using v that by (simp add: list_all_iff)
  moreover have "test_outcome acl now t = at_allow t" if t: "t \<in> set (ac_tests acl)" for t
  proof -
    from t obtain i where "i < length (ac_tests acl)" "ac_tests acl ! i = t" by (auto simp: in_set_conv_nth)
    then have "(i, t) \<in> set (List.enumerate 0 (ac_tests acl))" by (simp add: in_set_enumerate_eq)
    then have "check_test acl now (i, t) = Inr ()" using v by simp
    then show ?thesis by (simp add: check_test_def and_then_unit)
  qed
  ultimately show ?thesis
    using version check_rule_ok [of acl] check_ssh_rule_ok [of acl] by blast
qed

theorem validate_sound_witness: "validate acl_default 0 = Inr () \<and> ac_version acl_default = 1"
proof -
  have "validate acl_default 0 = Inr ()" by (simp add: validate_def acl_default_def ensure_def)
  with validate_sound [OF this] show ?thesis by simp
qed

subsection \<open>Where evaluator and devices part\<close>

definition port_rule :: "role list \<Rightarrow> device_tag list \<Rightarrow> device_tag list \<Rightarrow> acl_protocol list \<Rightarrow> acl_rule" where
  "port_rule roles src dst protocols =
     \<lparr>ar_action = Allow, ar_src_roles = roles, ar_src_tags = src, ar_src_groups = [], ar_dst_roles = [], ar_dst_tags = dst,
      ar_dst_groups = [], ar_dst_hosts = [], ar_dst_ports = [''443''], ar_protocols = protocols, ar_posture = []\<rparr>"

definition ping_test :: acl_test where
  "ping_test =
     \<lparr>at_name = ''ping'', at_src_role = Some Admin, at_src_tags = [], at_src_user = [], at_src_email = [],
      at_dst_role = None, at_dst_tags = [], at_dst_user = [], at_dst_email = [], at_dst_host = [], at_dst_port = None,
      at_protocol = Some Icmp, at_ssh_user = [], at_src_posture = [], at_allow = True\<rparr>"

definition web_policy :: acl where
  "web_policy = acl_default\<lparr>ac_defaults := DefaultDeny, ac_rules := [port_rule [Admin] [] [] []], ac_tests := [ping_test]\<rparr>"

lemma web_policy_fields [simp]:
  "ac_version web_policy = 1" "ac_drive web_policy = None" "ac_tag_owners web_policy = []" "ac_hosts web_policy = []"
  "ac_groups web_policy = []" "ac_rules web_policy = [port_rule [Admin] [] [] []]" "ac_ssh web_policy = []"
  "ac_tests web_policy = [ping_test]" "ac_defaults web_policy = DefaultDeny"
  by (simp_all add: web_policy_def acl_default_def)

lemma parse_443: "parse_acl_port_spec ''443'' = Inr (443, 443)"
proof -
  have "str_trim ''443'' = ''443''" by (rule str_trim_id) (simp add: printing_def ascii_code_def)
  then show ?thesis
    by (simp add: parse_acl_port_spec_def split_once_def parse_u16_def from_str_radix_def char_to_digit_def ascii_code_def)
qed

lemmas policy_eval = acl_default_def subject_new_def port_rule_def acl_rule_matches_def acl_selector_def
  posture_satisfied_def port_spec_matches_def protocol_matches_def SSH_PORT_def


definition ssh_policy :: acl where
  "ssh_policy = acl_default\<lparr>ac_defaults := DefaultDeny, ac_ssh := [ops_rule\<lparr>sr_users := [''*'']\<rparr>]\<rparr>"


subsection \<open>The share port\<close>

definition pair_policy :: acl where
  "pair_policy = acl_default\<lparr>ac_defaults := DefaultDeny,
     ac_rules := [port_rule [] [Office] [Store] [Tcp], port_rule [] [Store] [Office] [Tcp]]\<rparr>"

definition docs_share :: node_share where
  "docs_share = \<lparr>ns_label = ''docs'', ns_path = ''/srv'', ns_port = DEFAULT_SHARE_PORT, ns_read_only = True, ns_enabled = True\<rparr>"

lemma pair_ingress:
  assumes "s = subject_new Member [a]" "d = subject_new Member [b]" "(a, b) = (Office, Store) \<or> (a, b) = (Store, Office)"
  shows "peer_ingress_for pair_policy now s d enforced = ingress_default\<lparr>in_tcp := [''443'']\<rparr>"
  using assms
  by (auto simp: peer_ingress_for_def ssh_grant_def ssh_scan_all_def ssh_open_def ssh_governed_def pair_policy_def policy_eval
      rule_unrestricted_def implicit_default_allows_def collect_service_specs_def bs_extend_def insort_insert_key_def
      ingress_default_def)


end
