(* ===== verification/Policy_Explain.thy ===== *)
theory Policy_Explain
  imports Acl_Validate
begin

section \<open>The access explanation (\<open>blaktail-coord/src/policy_explain.rs\<close>)\<close>

text \<open>
  The coordinator explains a flow without sending a packet: it evaluates the policy, compiles the
  destination's ingress entry, checks that each device is in the other's map, and reports where the
  result is enforced. The request is checked and its devices are loaded by the handler; the model
  starts from the two subjects and the facts of the destination device. Reasons are kept by kind,
  without their English sentences.
\<close>

definition CAP_ACL_FILTER :: string where "CAP_ACL_FILTER = ''acl-filter''"
definition CAP_SSH_USERS :: string where "CAP_SSH_USERS = ''ssh-users''"

text \<open>What a device reported about itself; the integration signals have their own type.\<close>

record 'i node_facts =
  kf_id :: uuid
  kf_name :: string
  kf_display_name :: "string option"
  kf_user_id :: string
  kf_role :: role
  kf_tags :: "device_tag list"
  kf_os :: "string option"
  kf_os_version :: "string option"
  kf_agent_version :: "string option"
  kf_capabilities :: "string list"
  kf_created_at :: int
  kf_credential_issued_at :: "int option"
  kf_credential_expires_at :: int
  kf_inventory_reported_at :: "int option"
  kf_integrations :: "(string \<times> 'i) list"

record enforcement =
  en_packet_filter :: string
  en_ssh_users :: bool
  en_detail :: string

definition enforcement_profile :: "string option \<Rightarrow> string list \<Rightarrow> enforcement" where
  "enforcement_profile os capabilities =
     (let ssh_users = (CAP_SSH_USERS \<in> set capabilities)
      in if CAP_ACL_FILTER \<in> set capabilities
         then \<lparr>en_packet_filter = ''enforced'', en_ssh_users = ssh_users,
               en_detail = (if ssh_users
                 then ''The agent filters inbound overlay traffic and has verified sshd per-user limits.''
                 else ''The agent filters inbound overlay traffic. Per-user SSH limits are not verified (only the Linux agent with a verified sshd drop-in can), so user-limited SSH stays closed.'')\<rparr>
         else if map_option to_ascii_lowercase os = Some ''linux''
         then \<lparr>en_packet_filter = ''unknown'', en_ssh_users = ssh_users,
               en_detail = ''This Linux agent has not reported filter support. Older agents may filter, but BlakTail cannot confirm it; treat ports as not enforced on this device until the agent is upgraded.''\<rparr>
         else \<lparr>en_packet_filter = ''not_enforced'', en_ssh_users = ssh_users,
               en_detail = ''This client does not install an inbound packet filter. Any paired peer can reach any port; policy only decides which peers are paired.''\<rparr>)"

record pairing =
  pa_source_map_includes_destination :: bool
  pa_destination_map_includes_source :: bool

record device_flow =
  df_pairing :: pairing
  df_compiled :: peer_ingress
  df_profile :: enforcement
  df_policy_allows :: bool
  df_admitted :: bool
  df_basis :: string
  df_rules :: "nat list"

definition paired :: "device_flow \<Rightarrow> bool" where
  "paired f \<longleftrightarrow> pa_source_map_includes_destination (df_pairing f) \<and> pa_destination_map_includes_source (df_pairing f)"

definition decision :: "device_flow \<Rightarrow> bool" where
  "decision f \<longleftrightarrow> df_policy_allows f \<and> df_admitted f \<and> paired f"

definition flow_basis :: "device_flow \<Rightarrow> string" where
  "flow_basis f = (if \<not> paired f \<and> df_policy_allows f then ''no_pairing'' else df_basis f)"

definition enforcement_state :: "bool \<Rightarrow> enforcement \<Rightarrow> string" where
  "enforcement_state both profile =
     (if \<not> both then ''peer_map''
      else if en_packet_filter profile = ''enforced'' then ''device_enforced''
      else if en_packet_filter profile = ''unknown'' then ''unknown''
      else ''not_enforced'')"

definition flow_enforcement :: "device_flow \<Rightarrow> string" where
  "flow_enforcement f = enforcement_state (paired f) (df_profile f)"

definition ingress_admits :: "peer_ingress \<Rightarrow> acl_protocol option \<Rightarrow> u16 option \<Rightarrow> bool" where
  "ingress_admits i protocol port \<longleftrightarrow>
     (let covers = (\<lambda>specs. case port of None \<Rightarrow> specs \<noteq> [] | Some port \<Rightarrow> list_ex (spec_covers port) specs);
          denies = (\<lambda>specs. case port of None \<Rightarrow> False | Some port \<Rightarrow> list_ex (spec_covers port) specs)
      in case protocol of
           Some Icmp \<Rightarrow> \<not> in_deny_icmp i \<and> (in_all i \<or> in_icmp i)
         | Some Udp \<Rightarrow> \<not> denies (in_deny_udp i) \<and> (in_all i \<or> covers (in_udp i))
         | Some Tcp \<Rightarrow> \<not> denies (in_deny_tcp i) \<and> (in_all i \<or> covers (in_tcp i))
         | None \<Rightarrow>
             (\<not> denies (in_deny_tcp i) \<and> (in_all i \<or> covers (in_tcp i)))
             \<or> (\<not> denies (in_deny_udp i) \<and> (in_all i \<or> covers (in_udp i)))
             \<or> (port = None \<and> \<not> in_deny_icmp i \<and> (in_all i \<or> in_icmp i)))"

definition device_flow_of ::
  "acl \<Rightarrow> int \<Rightarrow> subject \<Rightarrow> subject \<Rightarrow> 'i node_facts \<Rightarrow> acl_protocol option \<Rightarrow> u16 option \<Rightarrow> device_flow" where
  "device_flow_of acl now src dst dest protocol port =
     (let compiled = peer_ingress_for acl now src dst (CAP_SSH_USERS \<in> set (kf_capabilities dest));
          (flow_allow, flow_deny, rules) =
            foldl (\<lambda>(flow_allow, flow_deny, rules) (index, r).
                     if acl_rule_matches acl r src dst port protocol None
                     then (flow_allow \<or> ar_action r = Allow, flow_deny \<or> ar_action r = Deny, rules @ [index])
                     else (flow_allow, flow_deny, rules))
              (False, False, []) (enumerate 0 (ac_rules acl));
          policy_allows = allows_flow acl now src dst port protocol None
      in \<lparr>df_pairing = \<lparr>pa_source_map_includes_destination = allows acl now src dst,
                        pa_destination_map_includes_source = allows acl now dst src\<rparr>,
          df_compiled = compiled,
          df_profile = enforcement_profile (kf_os dest) (kf_capabilities dest),
          df_policy_allows = policy_allows,
          df_admitted = ingress_admits compiled protocol port,
          df_basis = (if flow_deny then ''deny_rule''
                      else if flow_allow then ''rule''
                      else if policy_allows then ''default_same_tag''
                      else if ssh_governed acl src dst \<and> port = Some 22 then ''ssh_closed''
                      else ''default_deny''),
          df_rules = rules\<rparr>)"

subsection \<open>The handler's views\<close>

text \<open>The subject that passes every posture check and has just authenticated.\<close>

definition lenient :: "int \<Rightarrow> subject \<Rightarrow> acl \<Rightarrow> subject" where
  "lenient now s acl =
     s\<lparr>sj_passed_posture := foldl (\<lambda>passed r. bs_extend passed (sr_posture r))
          (foldl (\<lambda>passed r. bs_extend passed (ar_posture r)) (sj_passed_posture s) (ac_rules acl)) (ac_ssh acl),
       sj_authenticated_at := Some now\<rparr>"

record rule_view =
  rw_section :: string
  rw_index :: nat
  rw_action :: string
  rw_outcome :: string
  rw_detail :: string

definition flow_views ::
  "acl \<Rightarrow> int \<Rightarrow> subject \<Rightarrow> subject \<Rightarrow> u16 option \<Rightarrow> acl_protocol option \<Rightarrow> string option \<Rightarrow> rule_view list" where
  "flow_views acl now src dst port protocol host =
     List.map_filter (\<lambda>(index, r).
         let strict = acl_rule_matches acl r src dst port protocol host;
             relaxed = acl_rule_matches acl r (lenient now src acl) dst port protocol host
         in if strict \<or> relaxed
            then Some \<lparr>rw_section = ''rules'', rw_index = index,
                       rw_action = (case ar_action r of Allow \<Rightarrow> ''allow'' | Deny \<Rightarrow> ''deny''),
                       rw_outcome = (if strict then ''matched'' else ''skipped_posture''),
                       rw_detail = (if strict then ''selectors, ports and protocols match''
                         else ''source does not pass posture: ''
                              @ join '', '' (filter (\<lambda>name. name \<notin> set (sj_passed_posture src)) (ar_posture r)))\<rparr>
            else None)
       (enumerate 0 (ac_rules acl))"

definition ssh_views :: "acl \<Rightarrow> int \<Rightarrow> subject \<Rightarrow> subject \<Rightarrow> string option \<Rightarrow> rule_view list" where
  "ssh_views acl now src dst ssh_user =
     List.map_filter (\<lambda>(index, r).
         let strict = ssh_source_eligible now r src;
             relaxed = ssh_source_eligible now r (lenient now src acl)
         in if \<not> ssh_subjects_match acl r src dst then None
            else if (case ssh_user of None \<Rightarrow> False | Some user \<Rightarrow> \<not> list_ex (\<lambda>u. u = ''*'' \<or> u = user) (sr_users r)) then None
            else if \<not> strict \<and> \<not> relaxed then None
            else Some \<lparr>rw_section = ''ssh'', rw_index = index,
                       rw_action = (case sr_action r of SshAllow \<Rightarrow> ''allow'' | SshDeny \<Rightarrow> ''deny'' | SshCheck \<Rightarrow> ''check''),
                       rw_outcome = (if strict then ''matched''
                         else if posture_satisfied (sr_posture r) src then ''skipped_check_expired''
                         else ''skipped_posture''),
                       rw_detail = ''users '' @ join '', '' (sr_users r)\<rparr>)
       (enumerate 0 (ac_ssh acl))"

datatype explain_reason = SshPortClosed string | GrantClosed | NotPaired

record explanation =
  ex_decision :: bool
  ex_basis :: string
  ex_pairing :: pairing
  ex_compiled :: peer_ingress
  ex_state :: string
  ex_detail :: string
  ex_profile :: enforcement
  ex_reasons :: "explain_reason list"

text \<open>The branch of the handler for a destination device.\<close>

definition explain_device ::
  "acl \<Rightarrow> int \<Rightarrow> subject \<Rightarrow> subject \<Rightarrow> 'i node_facts \<Rightarrow> acl_protocol option \<Rightarrow> u16 option \<Rightarrow> string option \<Rightarrow> explanation" where
  "explain_device acl now src dst dest protocol port ssh_user =
     (let flow = device_flow_of acl now src dst dest protocol port;
          profile = df_profile flow;
          both = paired flow;
          (policy_allows, compiled_allows, basis, reasons) =
            (case ssh_user of
               Some user \<Rightarrow>
                 (let allowed = allows_ssh acl now src dst user;
                      port_open = ingress_admits (df_compiled flow) (Some Tcp) (Some 22)
                  in (allowed, port_open,
                      if allowed \<and> port_open then ''ssh_rules'' else if allowed then ''ssh_closed'' else ''ssh_rules'',
                      if allowed \<and> \<not> port_open then [SshPortClosed user] else []))
             | None \<Rightarrow>
                 (df_policy_allows flow, df_admitted flow, df_basis flow,
                  if df_policy_allows flow \<and> \<not> df_admitted flow then [GrantClosed] else []));
          state = enforcement_state both profile
      in \<lparr>ex_decision = (policy_allows \<and> compiled_allows \<and> both),
          ex_basis = (if \<not> both \<and> policy_allows then ''no_pairing'' else basis),
          ex_pairing = df_pairing flow, ex_compiled = df_compiled flow,
          ex_state = state,
          ex_detail = (if state = ''peer_map'' then ''No tunnel is configured between these devices, on every client type.''
                       else if state = ''device_enforced'' then ''The destination agent's inbound filter applies this result.''
                       else if state = ''unknown'' then ''Not proven on this device. '' @ en_detail profile
                       else ''Not enforced on this device. '' @ en_detail profile),
          ex_profile = profile,
          ex_reasons = reasons @ (if \<not> both then [NotPaired] else [])\<rparr>)"

subsection \<open>What an explanation says\<close>

definition flow_rule :: "acl \<Rightarrow> subject \<Rightarrow> subject \<Rightarrow> u16 option \<Rightarrow> acl_protocol option \<Rightarrow> action \<Rightarrow> bool" where
  "flow_rule acl src dst port protocol a \<longleftrightarrow>
     (\<exists>r\<in>set (ac_rules acl). acl_rule_matches acl r src dst port protocol None \<and> ar_action r = a)"

text \<open>TCP 22 towards a destination that SSH rules govern, for a source without a grant.\<close>

definition ssh_shut :: "acl \<Rightarrow> int \<Rightarrow> subject \<Rightarrow> subject \<Rightarrow> u16 option \<Rightarrow> acl_protocol option \<Rightarrow> bool" where
  "ssh_shut acl now src dst port protocol \<longleftrightarrow>
     port = Some SSH_PORT \<and> (protocol = None \<or> protocol = Some Tcp) \<and> ssh_governed acl src dst
     \<and> fst (ssh_grant acl now src dst) = []"

lemma flow_scan:
  "foldl (\<lambda>(allow, deny, rules) (index, r).
       if M r then (allow \<or> ar_action r = Allow, deny \<or> ar_action r = Deny, rules @ [index]) else (allow, deny, rules))
     (a, d, is) (enumerate n rs) =
   (a \<or> (\<exists>r\<in>set rs. M r \<and> ar_action r = Allow), d \<or> (\<exists>r\<in>set rs. M r \<and> ar_action r = Deny),
    is @ map fst (filter (\<lambda>(index, r). M r) (enumerate n rs)))"
  by (induction rs arbitrary: a d "is" n) auto

lemma device_flow_fields:
  "df_policy_allows (device_flow_of acl now src dst dest protocol port) = allows_flow acl now src dst port protocol None"
  "df_admitted (device_flow_of acl now src dst dest protocol port) =
     ingress_admits (peer_ingress_for acl now src dst (CAP_SSH_USERS \<in> set (kf_capabilities dest))) protocol port"
  "paired (device_flow_of acl now src dst dest protocol port) \<longleftrightarrow> allows acl now src dst \<and> allows acl now dst src"
  "df_basis (device_flow_of acl now src dst dest protocol port) =
     (if flow_rule acl src dst port protocol Deny then ''deny_rule''
      else if flow_rule acl src dst port protocol Allow then ''rule''
      else if allows_flow acl now src dst port protocol None then ''default_same_tag''
      else if ssh_governed acl src dst \<and> port = Some 22 then ''ssh_closed'' else ''default_deny'')"
  unfolding device_flow_of_def Let_def paired_def flow_rule_def
  by (simp_all add: flow_scan [where M = "\<lambda>r. acl_rule_matches acl r src dst port protocol None"])

lemma allows_flow_cases:
  "allows_flow acl now src dst port protocol None \<longleftrightarrow>
     \<not> flow_rule acl src dst port protocol Deny \<and> \<not> ssh_shut acl now src dst port protocol
     \<and> (flow_rule acl src dst port protocol Allow \<or> implicit_default_allows acl src dst)"
  by (auto simp: allows_flow_def flow_rule_def ssh_shut_def implicit_default_allows_def Let_def list_ex_iff
      split: acl_defaults.splits)


end
