(* ===== verification/Net_Resources.thy ===== *)
theory Net_Resources
  imports Acl_Validate Ipam "HOL-Library.Product_Lexorder"
begin

section \<open>Network resources (\<open>blaktail-coord/src/resources.rs\<close>)\<close>

text \<open>
  A resource is a private prefix (or a DNS name) behind routing peers. This theory models the
  access selection, the canonical form of a prefix, the choice of the routing peer that carries a
  resource (\<open>evaluate_peers\<close>), and the distribution built from all resources of an
  organisation (\<open>load_distribution\<close> after its rows are read, \<open>grants_via\<close>,
  \<open>reserved_for\<close>). Times are seconds as integers.
\<close>

subsection \<open>Ordered maps\<close>

fun bm_put :: "string \<Rightarrow> 'v \<Rightarrow> 'v bmap \<Rightarrow> 'v bmap" where
  "bm_put k v [] = [(k, v)]"
| "bm_put k v ((k', v') # m) =
     (if k = k' then (k, v) # m else if k < k' then (k, v) # (k', v') # m else (k', v') # bm_put k v m)"

lemma map_of_bm_put [simp]: "map_of (bm_put k v m) = (map_of m)(k \<mapsto> v)"
  by (induction m) auto

lemma bm_put_nonempty [simp]: "bm_put k v m \<noteq> []"
  by (cases m) (auto split: if_splits)

lemma bm_put_keys [simp]: "fst ` set (bm_put k v m) = insert k (fst ` set m)"
proof (induction m)
  case (Cons e m)
  then show ?case by (cases e) (auto simp: insert_commute)
qed simp

definition bm_sorted :: "'v bmap \<Rightarrow> bool" where
  "bm_sorted m \<longleftrightarrow> sorted_wrt (<) (map fst m)"

lemma bm_put_sorted: "bm_sorted m \<Longrightarrow> bm_sorted (bm_put k v m)"
  unfolding bm_sorted_def
proof (induction m)
  case (Cons e m)
  obtain k' v' where e: "e = (k', v')" by (cases e)
  have "k' < x" if "x \<in> fst ` set (bm_put k v m)" "k' < k" for x
    using that Cons.prems e by auto
  with Cons e show ?case by auto
qed simp

lemma bm_sorted_distinct: "bm_sorted m \<Longrightarrow> distinct (map fst m)"
  unfolding bm_sorted_def by (induction m) auto

subsection \<open>Data\<close>

datatype resource_protocol = RTcp | RUdp | RIcmp

datatype resource_kind = KCidr | KDns

record resource_access =
  ra_roles :: "role list"
  ra_tags :: "device_tag list"
  ra_groups :: "string list"

definition access_matches :: "resource_access \<Rightarrow> subject \<Rightarrow> groups \<Rightarrow> bool" where
  "access_matches a s gs \<longleftrightarrow>
     sj_role s \<in> set (ra_roles a)
     \<or> list_ex (\<lambda>tag. tag \<in> set (sj_tags s)) (ra_tags a)
     \<or> list_ex (\<lambda>name. case map_of gs name of None \<Rightarrow> False | Some members \<Rightarrow> subject_in_group s members) (ra_groups a)"

record routing_peer =
  rp_node_id :: uuid
  rp_metric :: u16

record network_resource =
  nr_id :: uuid
  nr_name :: string
  nr_description :: string
  nr_kind :: resource_kind
  nr_cidr :: "string option"
  nr_dns_target :: "string option"
  nr_family :: "string option"
  nr_dns_resolution :: "string option"
  nr_ports :: "string list"
  nr_protocols :: "resource_protocol list"
  nr_port_enforcement :: string
  nr_routing_peers :: "routing_peer list"
  nr_access :: resource_access
  nr_enabled :: bool
  nr_allow_nested_overlap :: bool
  nr_public_route_confirmed_by :: "string option"
  nr_masquerade :: string
  nr_revision :: int
  nr_etag :: string
  nr_created_at :: int
  nr_updated_at :: int

record routing_peer_health =
  ph_node_id :: uuid
  ph_name :: "string option"
  ph_metric :: u16
  ph_state :: string
  ph_online :: bool
  ph_last_seen_at :: "int option"
  ph_covering_route :: "string option"
  ph_forwarding :: string

record org_node =
  on_id :: uuid
  on_name :: string
  on_display_name :: "string option"
  on_advertised :: "string list"
  on_approved :: "string list"
  on_last_seen_at :: "int option"
  on_credential_expires_at :: int
  on_subject :: subject
  on_capabilities :: "string list"
  on_app_connector :: bool

definition NODE_ONLINE_SECS :: int where "NODE_ONLINE_SECS = 90"

definition node_online :: "org_node \<Rightarrow> int \<Rightarrow> bool" where
  "node_online n at_time = (case on_last_seen_at n of None \<Rightarrow> False | Some seen \<Rightarrow> at_time - seen \<le> NODE_ONLINE_SECS)"

definition node_label :: "org_node \<Rightarrow> string" where
  "node_label n =
     (case on_display_name n of
        Some name \<Rightarrow> if str_trim name \<noteq> [] then name else on_name n
      | None \<Rightarrow> on_name n)"

subsection \<open>Prefixes\<close>

definition is_default_route :: "string \<Rightarrow> bool" where
  "is_default_route cidr \<longleftrightarrow> cidr = ''0.0.0.0/0'' \<or> cidr = ''::/0''"

definition cidrs_overlap :: "string \<Rightarrow> string \<Rightarrow> bool" where
  "cidrs_overlap l r = (case pools_overlap l r of Inr b \<Rightarrow> b | Inl _ \<Rightarrow> False)"

definition cidr_within :: "string \<Rightarrow> string \<Rightarrow> bool" where
  "cidr_within inner outer =
     (case (parse_cidr inner, parse_cidr outer) of
        (Inr (inner_net, inner_prefix), Inr (outer_net, outer_prefix)) \<Rightarrow>
          same_family inner_net outer_net \<and> inner_prefix \<ge> outer_prefix \<and> cidrs_overlap inner outer
      | _ \<Rightarrow> False)"

subsection \<open>Choosing the routing peer\<close>

definition CAP_FORWARD_FILTER :: string where "CAP_FORWARD_FILTER = ''forward-filter''"

definition enforces :: "string list \<Rightarrow> bool" where
  "enforces capabilities \<longleftrightarrow> CAP_FORWARD_FILTER \<in> set capabilities"

definition forwarding_state :: "org_node option \<Rightarrow> string" where
  "forwarding_state n =
     (case n of
        None \<Rightarrow> ''not_enforced''
      | Some n \<Rightarrow> if enforces (on_capabilities n) then ''enforced'' else ''not_enforced'')"

definition node_of :: "org_node list \<Rightarrow> uuid \<Rightarrow> org_node option" where
  "node_of nodes nid = find (\<lambda>n. on_id n = nid) nodes"

definition covering_route :: "network_resource \<Rightarrow> org_node option \<Rightarrow> string option" where
  "covering_route res n =
     (case (n, nr_cidr res) of
        (Some n, Some cidr) \<Rightarrow>
          find (\<lambda>route. if is_default_route cidr then route = cidr else cidr_within cidr route) (on_advertised n)
      | _ \<Rightarrow> None)"

text \<open>The state of a routing peer before the selection, and whether it is a candidate.\<close>

definition peer_state :: "network_resource \<Rightarrow> org_node option \<Rightarrow> int \<Rightarrow> string \<times> bool" where
  "peer_state res n at_time =
     (case n of
        None \<Rightarrow> (''missing'', False)
      | Some node \<Rightarrow>
          if on_credential_expires_at node \<le> at_time then (''expired'', False)
          else if nr_kind res = KCidr \<and> covering_route res n = None then (''not_advertising'', False)
          else if nr_kind res = KDns \<and> \<not> on_app_connector node then (''not_connector'', False)
          else (if node_online node at_time then ''standby'' else ''offline'', True))"

definition peer_health :: "network_resource \<Rightarrow> org_node list \<Rightarrow> int \<Rightarrow> routing_peer \<Rightarrow> routing_peer_health" where
  "peer_health res nodes at_time peer =
     (let n = node_of nodes (rp_node_id peer)
      in \<lparr>ph_node_id = rp_node_id peer, ph_name = map_option node_label n, ph_metric = rp_metric peer,
          ph_state = fst (peer_state res n at_time),
          ph_online = (case n of None \<Rightarrow> False | Some n \<Rightarrow> node_online n at_time),
          ph_last_seen_at = Option.bind n on_last_seen_at, ph_covering_route = covering_route res n,
          ph_forwarding = forwarding_state n\<rparr>)"

fun mark_primary :: "uuid option \<Rightarrow> routing_peer_health list \<Rightarrow> routing_peer_health list" where
  "mark_primary selected [] = []"
| "mark_primary selected (h # hs) =
     (if Some (ph_node_id h) = selected then h\<lparr>ph_state := ''primary''\<rparr> # hs else h # mark_primary selected hs)"

definition evaluate_peers :: "network_resource \<Rightarrow> org_node list \<Rightarrow> int \<Rightarrow> uuid option \<times> routing_peer_health list" where
  "evaluate_peers res nodes at_time =
     (let ordered = sort_key (\<lambda>p. (rp_metric p, rp_node_id p)) (nr_routing_peers res);
          candidates = filter (\<lambda>h. snd (peer_state res (node_of nodes (ph_node_id h)) at_time))
                         (map (peer_health res nodes at_time) ordered);
          selected = (case find ph_online candidates of
                        Some h \<Rightarrow> Some (ph_node_id h)
                      | None \<Rightarrow> (case candidates of [] \<Rightarrow> None | h # _ \<Rightarrow> Some (ph_node_id h)))
      in (selected, mark_primary selected (map (peer_health res nodes at_time) ordered)))"

subsection \<open>What is distributed\<close>

record forward_service =
  fs_all :: bool
  fs_tcp :: "string list"
  fs_udp :: "string list"
  fs_icmp :: bool

definition fs_everything :: forward_service where
  "fs_everything = \<lparr>fs_all = True, fs_tcp = [], fs_udp = [], fs_icmp = False\<rparr>"

definition fs_default :: forward_service where
  "fs_default = \<lparr>fs_all = False, fs_tcp = [], fs_udp = [], fs_icmp = False\<rparr>"

definition resource_service :: "string list \<Rightarrow> resource_protocol list \<Rightarrow> forward_service" where
  "resource_service ports protocols =
     (if ports = [] \<and> protocols = [] then fs_everything
      else let any = (protocols = []);
               specs = (if ports = [] then [''1-65535''] else ports)
           in \<lparr>fs_all = False,
               fs_tcp = (if any \<or> RTcp \<in> set protocols then specs else []),
               fs_udp = (if any \<or> RUdp \<in> set protocols then specs else []),
               fs_icmp = (ports = [] \<and> RIcmp \<in> set protocols)\<rparr>)"

record active_route =
  rt_cidr :: string
  rt_router :: uuid
  rt_routing_peers :: "uuid list"
  rt_access :: resource_access
  rt_service :: forward_service

record distribution =
  di_routes :: "active_route list"
  di_reserved :: "(string \<times> uuid list) list"

text \<open>The routes of the unexpired leases, per resource and connector.\<close>

type_synonym lease_routes = "((uuid \<times> uuid) \<times> string list) list"

definition leases_of :: "lease_routes \<Rightarrow> uuid \<Rightarrow> uuid \<Rightarrow> string list" where
  "leases_of leases res node = (case map_of leases (res, node) of None \<Rightarrow> [] | Some rs \<Rightarrow> rs)"

definition active_route_of :: "network_resource \<Rightarrow> uuid \<Rightarrow> string \<Rightarrow> active_route" where
  "active_route_of res router cidr =
     \<lparr>rt_cidr = cidr, rt_router = router, rt_routing_peers = map rp_node_id (nr_routing_peers res),
      rt_access = nr_access res, rt_service = resource_service (nr_ports res) (nr_protocols res)\<rparr>"

text \<open>One resource adds prefix routes and, for DNS targets, host routes.\<close>

definition resource_routes ::
  "org_node list \<Rightarrow> lease_routes \<Rightarrow> int \<Rightarrow> network_resource \<Rightarrow> active_route list \<times> active_route list" where
  "resource_routes nodes leases at_time res =
     (case fst (evaluate_peers res nodes at_time) of
        None \<Rightarrow> ([], [])
      | Some router \<Rightarrow>
          (case nr_kind res of
             KCidr \<Rightarrow> ((case nr_cidr res of None \<Rightarrow> [] | Some cidr \<Rightarrow> [active_route_of res router cidr]), [])
           | KDns \<Rightarrow> ([], map (active_route_of res router) (leases_of leases (nr_id res) router))))"

text \<open>Host routes inside a protected prefix, or claimed by another router, are dropped.\<close>

fun claim_routes :: "string list \<Rightarrow> uuid bmap \<Rightarrow> active_route list \<Rightarrow> active_route list" where
  "claim_routes protected_prefixes claimed [] = []"
| "claim_routes protected_prefixes claimed (route # routes) =
     (if list_ex (cidr_within (rt_cidr route)) protected_prefixes
      then claim_routes protected_prefixes claimed routes
      else let (owner, claimed) =
             (case map_of claimed (rt_cidr route) of
                Some owner \<Rightarrow> (owner, claimed)
              | None \<Rightarrow> (rt_router route, bm_put (rt_cidr route) (rt_router route) claimed))
           in if owner = rt_router route then route # claim_routes protected_prefixes claimed routes
              else claim_routes protected_prefixes claimed routes)"

definition load_distribution ::
  "network_resource list \<Rightarrow> org_node list \<Rightarrow> lease_routes \<Rightarrow> int \<Rightarrow> distribution" where
  "load_distribution resources nodes leases at_time =
     (let reserved = List.map_filter (\<lambda>res. case nr_cidr res of
                       None \<Rightarrow> None | Some cidr \<Rightarrow> Some (cidr, map rp_node_id (nr_routing_peers res))) resources;
          enabled = filter nr_enabled resources
      in if enabled = [] then \<lparr>di_routes = [], di_reserved = reserved\<rparr>
         else let enabled_prefixes = List.map_filter nr_cidr enabled;
                  parts = map (resource_routes nodes leases at_time) enabled;
                  protected_prefixes = filter (\<lambda>prefix. \<not> is_default_route prefix)
                    (enabled_prefixes @ concat (map on_approved nodes))
              in \<lparr>di_routes = concat (map fst parts) @ claim_routes protected_prefixes [] (concat (map snd parts)),
                  di_reserved = reserved\<rparr>)"

definition grants_via :: "distribution \<Rightarrow> uuid \<Rightarrow> uuid \<Rightarrow> subject \<Rightarrow> acl \<Rightarrow> bool \<Rightarrow> (string \<times> forward_service) list" where
  "grants_via dist router source_id src acl exit_selected =
     map (\<lambda>route. (rt_cidr route, rt_service route))
       (filter (\<lambda>route. rt_router route = router
                  \<and> source_id \<notin> set (rt_routing_peers route)
                  \<and> (\<not> is_default_route (rt_cidr route) \<or> exit_selected)
                  \<and> access_matches (rt_access route) src (ac_groups acl)) (di_routes dist))"

definition routes_via :: "distribution \<Rightarrow> uuid \<Rightarrow> uuid \<Rightarrow> subject \<Rightarrow> acl \<Rightarrow> bool \<Rightarrow> string list" where
  "routes_via dist router source_id src acl exit_selected =
     map fst (grants_via dist router source_id src acl exit_selected)"

definition carried_by :: "distribution \<Rightarrow> uuid \<Rightarrow> string list" where
  "carried_by dist router = map rt_cidr (filter (\<lambda>route. rt_router route = router) (di_routes dist))"

definition reserved_for :: "distribution \<Rightarrow> uuid \<Rightarrow> string list" where
  "reserved_for dist router =
     carried_by dist router @ map fst (filter (\<lambda>(_, peers). router \<in> set peers) (di_reserved dist))"

subsection \<open>Inclusion of prefixes\<close>

lemma cidr_within_parse:
  assumes "cidr_within inner outer"
  obtains a p b q where "parse_cidr inner = Inr (a, p)" "parse_cidr outer = Inr (b, q)" "same_family a b" "q \<le> p"
    "cidr_contains b q a"
proof -
  obtain a p b q where parse: "parse_cidr inner = Inr (a, p)" "parse_cidr outer = Inr (b, q)"
    and fam: "same_family a b" "q \<le> p" and overlap: "cidrs_overlap inner outer"
  proof (cases "parse_cidr inner"; cases "parse_cidr outer")
    fix x y assume "parse_cidr inner = Inr x" "parse_cidr outer = Inr y"
    then show thesis using assms that by (cases x; cases y) (simp add: cidr_within_def)
  qed (use assms in \<open>simp_all add: cidr_within_def split: prod.splits\<close>)
  have c: "cidr_contains a p b \<or> cidr_contains b q a"
    using overlap parse fam by (auto simp: cidrs_overlap_def pools_overlap_def)
  have "cidr_contains b q a"
  proof (rule ccontr)
    assume "\<not> cidr_contains b q a"
    with c have "cidr_contains a p b" by blast
    moreover have "same_family b a" using fam by (simp add: same_family_def)
    ultimately show False
      using aligned_nested [of b a q p b] parse_cidr_ok [OF parse(1)] parse_cidr_ok [OF parse(2)] fam
        contains_self [of b q] \<open>\<not> cidr_contains b q a\<close>
      by (simp add: word_le_nat_alt)
  qed
  with parse fam show ?thesis using that by blast
qed

lemma cidr_within_contains:
  assumes "cidr_within inner outer" "parse_cidr inner = Inr (a, p)" "parse_cidr outer = Inr (b, q)" "cidr_contains a p ip"
  shows "cidr_contains b q ip"
proof -
  have within: "same_family a b" "q \<le> p" "cidr_contains b q a"
    using assms(1-3) by (auto elim!: cidr_within_parse)
  have ok: "prefix_ok a p" "prefix_ok b q" using parse_cidr_ok assms(2,3) by auto
  have k: "host_bits b q = host_bits a p + (unat p - unat q)"
    using within(1,2) ok by (auto simp: host_bits_def prefix_ok_def same_family_def word_le_nat_alt)
  have "ip_value a div 2 ^ host_bits a p = ip_value ip div 2 ^ host_bits a p" "same_family a ip"
    using assms(4) ok by (simp_all add: contains_iff)
  moreover have "ip_value b div 2 ^ host_bits b q = ip_value a div 2 ^ host_bits b q"
    using within(3) ok by (simp add: contains_iff)
  ultimately have "ip_value b div 2 ^ host_bits b q = ip_value ip div 2 ^ host_bits b q"
    unfolding k power_add by (metis div_mult2_eq)
  with within(1) \<open>same_family a ip\<close> ok show ?thesis
    by (simp add: contains_iff same_family_def)
qed

subsection \<open>The selected routing peer\<close>

definition carries :: "network_resource \<Rightarrow> org_node list \<Rightarrow> int \<Rightarrow> routing_peer \<Rightarrow> bool" where
  "carries res nodes at_time peer = snd (peer_state res (node_of nodes (rp_node_id peer)) at_time)"

definition peer_online :: "org_node list \<Rightarrow> int \<Rightarrow> routing_peer \<Rightarrow> bool" where
  "peer_online nodes at_time peer =
     (case node_of nodes (rp_node_id peer) of None \<Rightarrow> False | Some n \<Rightarrow> node_online n at_time)"

lemma peer_health_fields [simp]:
  "ph_node_id (peer_health res nodes at_time peer) = rp_node_id peer"
  "ph_online (peer_health res nodes at_time peer) = peer_online nodes at_time peer"
  by (simp_all add: peer_health_def peer_online_def Let_def)

definition preferred :: "org_node list \<Rightarrow> int \<Rightarrow> routing_peer \<Rightarrow> routing_peer \<Rightarrow> bool" where
  "preferred nodes at_time peer other \<longleftrightarrow>
     (if peer_online nodes at_time peer = peer_online nodes at_time other
      then (rp_metric peer, rp_node_id peer) \<le> (rp_metric other, rp_node_id other)
      else peer_online nodes at_time peer)"

lemma find_first_sorted:
  assumes "sorted (map f xs)" "find P xs = Some x"
  shows "x \<in> set xs \<and> P x \<and> (\<forall>y\<in>set xs. P y \<longrightarrow> f x \<le> f y)"
  using assms by (induction xs) (auto split: if_splits)

lemma select_filtered:
  assumes "sorted (map f xs)" and R: "\<And>x y. R x y \<longleftrightarrow> (if P x = P y then f x \<le> f y else P x)"
  shows "case (case find P (filter Q xs) of Some x \<Rightarrow> Some x | None \<Rightarrow> (case filter Q xs of [] \<Rightarrow> None | x # _ \<Rightarrow> Some x)) of
      None \<Rightarrow> \<forall>x\<in>set xs. \<not> Q x
    | Some x \<Rightarrow> x \<in> set xs \<and> Q x \<and> (\<forall>y\<in>set xs. Q y \<longrightarrow> R x y)"
proof -
  have sorted: "sorted (map f (filter Q xs))" using assms(1) by (rule sorted_filter)
  show ?thesis
  proof (cases "find P (filter Q xs)")
    case None
    then have no: "\<forall>y\<in>set xs. Q y \<longrightarrow> \<not> P y" by (auto simp: find_None_iff)
    show ?thesis
    proof (cases "filter Q xs")
      case Nil
      with None show ?thesis by (simp add: filter_empty_conv)
    next
      case (Cons x rest)
      have mem: "set (x # rest) = {y \<in> set xs. Q y}" using Cons by (metis set_filter)
      have "f x \<le> f y" if "y \<in> set xs" "Q y" for y
        using that mem sorted Cons by auto
      moreover have "x \<in> set xs \<and> Q x" using mem by auto
      ultimately show ?thesis using None Cons no by (simp add: R)
    qed
  next
    case (Some x)
    then show ?thesis using find_first_sorted [OF sorted Some] by (auto simp: R)
  qed
qed

lemma find_map: "find P (map f xs) = map_option f (find (\<lambda>x. P (f x)) xs)"
  by (induction xs) auto

lemma evaluate_peers_select:
  "fst (evaluate_peers res nodes at_time) =
     (let ordered = sort_key (\<lambda>p. (rp_metric p, rp_node_id p)) (nr_routing_peers res);
          candidates = filter (carries res nodes at_time) ordered
      in map_option rp_node_id
           (case find (peer_online nodes at_time) candidates of
              Some x \<Rightarrow> Some x
            | None \<Rightarrow> (case candidates of [] \<Rightarrow> None | x # _ \<Rightarrow> Some x)))"
proof -
  have "filter (\<lambda>h. snd (peer_state res (node_of nodes (ph_node_id h)) at_time))
      (map (peer_health res nodes at_time) ps) = map (peer_health res nodes at_time) (filter (carries res nodes at_time) ps)" for ps
    by (induction ps) (simp_all add: carries_def)
  then show ?thesis
    by (auto simp: evaluate_peers_def Let_def find_map split: option.splits list.splits)
qed


subsection \<open>The distribution\<close>

lemma claim_routes_step:
  "claim_routes ps claimed (route # routes) =
     (if list_ex (cidr_within (rt_cidr route)) ps then claim_routes ps claimed routes
      else case map_of claimed (rt_cidr route) of
             None \<Rightarrow> route # claim_routes ps (bm_put (rt_cidr route) (rt_router route) claimed) routes
           | Some owner \<Rightarrow>
               if owner = rt_router route then route # claim_routes ps claimed routes else claim_routes ps claimed routes)"
  by (simp split: option.splits)

declare claim_routes.simps(2) [simp del]

lemma claim_routes_subset: "r \<in> set (claim_routes ps claimed routes) \<Longrightarrow> r \<in> set routes \<and> \<not> list_ex (cidr_within (rt_cidr r)) ps"
  by (induction routes arbitrary: claimed) (auto simp: claim_routes_step split: option.splits if_splits)

lemma claim_routes_owner:
  "r \<in> set (claim_routes ps claimed routes) \<Longrightarrow> map_of claimed (rt_cidr r) = Some router \<Longrightarrow> rt_router r = router"
  by (induction routes arbitrary: claimed) (fastforce simp: claim_routes_step split: option.splits if_splits)+

lemma claim_routes_unique:
  "r \<in> set (claim_routes ps claimed routes) \<Longrightarrow> r' \<in> set (claim_routes ps claimed routes) \<Longrightarrow>
    rt_cidr r = rt_cidr r' \<Longrightarrow> rt_router r = rt_router r'"
proof (induction routes arbitrary: claimed)
  case (Cons route routes)
  have here: "rt_router x = rt_router route"
    if "x \<in> set (claim_routes ps (bm_put (rt_cidr route) (rt_router route) claimed) routes)" "rt_cidr x = rt_cidr route" for x
    using claim_routes_owner [OF that(1)] that(2) by simp
  show ?case
  proof (cases "map_of claimed (rt_cidr r)")
    case (Some owner)
    with Cons.prems show ?thesis using claim_routes_owner by metis
  next
    case None
    with Cons here show ?thesis
      by (auto simp: claim_routes_step split: option.splits if_splits)
  qed
qed simp

definition enabled_prefixes :: "network_resource list \<Rightarrow> string list" where
  "enabled_prefixes resources = List.map_filter nr_cidr (filter nr_enabled resources)"

definition protected_by :: "network_resource list \<Rightarrow> org_node list \<Rightarrow> string list" where
  "protected_by resources nodes =
     filter (\<lambda>prefix. \<not> is_default_route prefix) (enabled_prefixes resources @ concat (map on_approved nodes))"

definition prefix_routes :: "network_resource list \<Rightarrow> org_node list \<Rightarrow> lease_routes \<Rightarrow> int \<Rightarrow> active_route list" where
  "prefix_routes resources nodes leases at_time =
     concat (map (\<lambda>res. fst (resource_routes nodes leases at_time res)) (filter nr_enabled resources))"

definition host_routes_of :: "network_resource list \<Rightarrow> org_node list \<Rightarrow> lease_routes \<Rightarrow> int \<Rightarrow> active_route list" where
  "host_routes_of resources nodes leases at_time =
     concat (map (\<lambda>res. snd (resource_routes nodes leases at_time res)) (filter nr_enabled resources))"

lemma load_distribution_routes:
  "di_routes (load_distribution resources nodes leases at_time) =
     prefix_routes resources nodes leases at_time
     @ claim_routes (protected_by resources nodes) [] (host_routes_of resources nodes leases at_time)"
  by (simp add: load_distribution_def Let_def prefix_routes_def host_routes_of_def protected_by_def
      enabled_prefixes_def comp_def)

lemma active_route_fields [simp]:
  "rt_cidr (active_route_of res router cidr) = cidr" "rt_router (active_route_of res router cidr) = router"
  by (simp_all add: active_route_of_def)

lemma resource_routes_mem:
  "route \<in> set (fst (resource_routes nodes leases at_time res)) \<longleftrightarrow>
     nr_kind res = KCidr \<and> nr_cidr res = Some (rt_cidr route)
     \<and> fst (evaluate_peers res nodes at_time) = Some (rt_router route)
     \<and> route = active_route_of res (rt_router route) (rt_cidr route)"
  "route \<in> set (snd (resource_routes nodes leases at_time res)) \<longleftrightarrow>
     nr_kind res = KDns \<and> rt_cidr route \<in> set (leases_of leases (nr_id res) (rt_router route))
     \<and> fst (evaluate_peers res nodes at_time) = Some (rt_router route)
     \<and> route = active_route_of res (rt_router route) (rt_cidr route)"
  by (cases "nr_kind res"; cases "nr_cidr res"; cases "fst (evaluate_peers res nodes at_time)";
      auto simp: resource_routes_def)+

lemma prefix_routes_mem:
  "route \<in> set (prefix_routes resources nodes leases at_time) \<longleftrightarrow>
     (\<exists>res\<in>set resources. nr_enabled res \<and> nr_kind res = KCidr \<and> nr_cidr res = Some (rt_cidr route)
        \<and> fst (evaluate_peers res nodes at_time) = Some (rt_router route)
        \<and> route = active_route_of res (rt_router route) (rt_cidr route))"
  using resource_routes_mem(1) by (fastforce simp: prefix_routes_def)

lemma host_routes_mem:
  "route \<in> set (host_routes_of resources nodes leases at_time) \<longleftrightarrow>
     (\<exists>res\<in>set resources. nr_enabled res \<and> nr_kind res = KDns
        \<and> rt_cidr route \<in> set (leases_of leases (nr_id res) (rt_router route))
        \<and> fst (evaluate_peers res nodes at_time) = Some (rt_router route)
        \<and> route = active_route_of res (rt_router route) (rt_cidr route))"
  using resource_routes_mem(2) by (fastforce simp: host_routes_of_def)


subsection \<open>A name behind one connector\<close>

definition wiki :: network_resource where
  "wiki =
     \<lparr>nr_id = 1, nr_name = ''wiki'', nr_description = [], nr_kind = KDns, nr_cidr = None,
      nr_dns_target = Some ''wiki.example.org'', nr_family = None, nr_dns_resolution = None, nr_ports = [''443''],
      nr_protocols = [RTcp], nr_port_enforcement = ''enforced'',
      nr_routing_peers = [\<lparr>rp_node_id = 7, rp_metric = 100\<rparr>],
      nr_access = \<lparr>ra_roles = [Member], ra_tags = [], ra_groups = []\<rparr>, nr_enabled = True,
      nr_allow_nested_overlap = False, nr_public_route_confirmed_by = None, nr_masquerade = ''always'',
      nr_revision = 1, nr_etag = [], nr_created_at = 0, nr_updated_at = 0\<rparr>"

definition connector :: org_node where
  "connector =
     \<lparr>on_id = 7, on_name = ''gw'', on_display_name = None, on_advertised = [], on_approved = [],
      on_last_seen_at = Some 100, on_credential_expires_at = 1000, on_subject = subject_new Member [],
      on_capabilities = [CAP_FORWARD_FILTER], on_app_connector = True\<rparr>"

lemma wiki_peer: "fst (evaluate_peers wiki [connector] 120) = Some 7"
  by (simp add: evaluate_peers_select wiki_def carries_def peer_state_def node_of_def connector_def peer_online_def
      node_online_def NODE_ONLINE_SECS_def)

lemma wiki_routes:
  "di_routes (load_distribution [wiki] [connector] [((1, 7), [''203.0.113.9/32''])] 120) =
     [active_route_of wiki 7 ''203.0.113.9/32'']"
proof -
  have w: "nr_kind wiki = KDns" "nr_cidr wiki = None" "nr_id wiki = 1" "nr_enabled wiki" "on_approved connector = []"
    by (simp_all add: wiki_def connector_def)
  then show ?thesis
    by (simp add: load_distribution_routes prefix_routes_def host_routes_of_def resource_routes_def wiki_peer
        leases_of_def protected_by_def enabled_prefixes_def map_filter_simps claim_routes_step)
qed


end
