(* ===== verification/Forwarding.thy ===== *)
theory Forwarding
  imports Net_Resources
begin

section \<open>Forward allow-lists (\<open>blaktail-coord/src/forwarding.rs\<close>)\<close>

text \<open>
  A routing peer forwards only what the coordinator compiles for it: per client a list of denied and
  a list of allowed destinations with services (\<open>compile_client\<close>). The default route of an
  exit node is allowed as its complement around every prefix the router carries
  (\<open>complement\<close>, \<open>split\<close>). The textual form of an identifier comes from the
  \<open>uuid\<close> library and is the parameter \<open>uuid_text\<close>. The subtraction inside
  \<open>split\<close> would underflow at full length, so the recursion returns an option with
  \<open>None\<close> for that case.
\<close>

unbundle bit_operations_syntax

definition fs_is_empty :: "forward_service \<Rightarrow> bool" where
  "fs_is_empty s \<longleftrightarrow> \<not> fs_all s \<and> \<not> fs_icmp s \<and> fs_tcp s = [] \<and> fs_udp s = []"

definition fs_merge :: "forward_service \<Rightarrow> forward_service \<Rightarrow> forward_service" where
  "fs_merge s other =
     (if fs_all s \<or> fs_all other then fs_everything
      else s\<lparr>fs_tcp := bs_extend [] (fs_tcp s @ fs_tcp other), fs_udp := bs_extend [] (fs_udp s @ fs_udp other),
             fs_icmp := fs_icmp s \<or> fs_icmp other\<rparr>)"

definition fs_covers :: "string list \<Rightarrow> u16 option \<Rightarrow> bool" where
  "fs_covers specs port \<longleftrightarrow>
     list_ex (\<lambda>spec. case port of
                None \<Rightarrow> True
              | Some port \<Rightarrow> (case parse_acl_port_spec spec of Inr (start, stop) \<Rightarrow> start \<le> port \<and> port \<le> stop | Inl _ \<Rightarrow> False)) specs"

definition fs_admits :: "forward_service \<Rightarrow> acl_protocol option \<Rightarrow> u16 option \<Rightarrow> bool" where
  "fs_admits s protocol port \<longleftrightarrow>
     (if fs_all s then True
      else case protocol of
             Some Tcp \<Rightarrow> fs_covers (fs_tcp s) port
           | Some Udp \<Rightarrow> fs_covers (fs_udp s) port
           | Some Icmp \<Rightarrow> fs_icmp s
           | None \<Rightarrow> fs_covers (fs_tcp s) port \<or> fs_covers (fs_udp s) port \<or> (port = None \<and> fs_icmp s))"

definition rule_service :: "acl_rule \<Rightarrow> forward_service" where
  "rule_service r =
     (let (tcp, udp, icmp) = collect_service_specs r ([], [], False)
      in \<lparr>fs_all = False, fs_tcp = tcp, fs_udp = udp, fs_icmp = icmp\<rparr>)"

record forward_rule =
  fr_client :: uuid
  fr_sources :: "string list"
  fr_destination :: string
  fr_service :: forward_service

record forward_filter =
  ff_deny :: "forward_rule list"
  ff_allow :: "forward_rule list"

record router_view =
  rv_id :: uuid
  rv_name :: string
  rv_dns_name :: string
  rv_subject :: subject
  rv_approved :: "string list"
  rv_advertised :: "string list"

definition selected_by :: "(uuid \<Rightarrow> string) \<Rightarrow> router_view \<Rightarrow> string option \<Rightarrow> bool" where
  "selected_by uuid_text router requested =
     (case requested of
        None \<Rightarrow> False
      | Some requested \<Rightarrow>
          requested = uuid_text (rv_id router) \<or> requested = rv_name router \<or> requested = rv_dns_name router)"

record client_view =
  cv_id :: uuid
  cv_subject :: subject
  cv_overlay :: "string list"
  cv_exit_request :: "string option"

definition host_addresses :: "string list \<Rightarrow> string list" where
  "host_addresses allowed_ips =
     filter (\<lambda>route. case parse_cidr route of
               Inr (address, prefix) \<Rightarrow> (is_ipv4 address \<and> prefix = 32) \<or> (is_ipv6 address \<and> prefix = 128)
             | Inl _ \<Rightarrow> False) allowed_ips"

definition host_cidr :: "string \<Rightarrow> string option" where
  "host_cidr value =
     (let value = to_ascii_lowercase (trim_end_char (CHR ''.'') (str_trim value))
      in case parse_ip value of
           Some address \<Rightarrow> Some (show_ip address @ (if is_ipv4 address then ''/32'' else ''/128''))
         | None \<Rightarrow> (case parse_cidr value of Inr _ \<Rightarrow> Some value | Inl _ \<Rightarrow> None))"

subsection \<open>The complement of prefixes\<close>

definition address_bits :: "ip_addr \<Rightarrow> u128" where
  "address_bits address = (case address of V4 a \<Rightarrow> ucast a | V6 a \<Rightarrow> a)"

definition prefix_in :: "nat \<Rightarrow> u128 \<Rightarrow> nat \<Rightarrow> u128 \<Rightarrow> nat \<Rightarrow> bool" where
  "prefix_in bits a alen b blen \<longleftrightarrow> blen \<ge> alen \<and> (alen = 0 \<or> drop_bit (bits - alen) (a XOR b) = 0)"

definition show_block :: "bool \<Rightarrow> u128 \<Rightarrow> nat \<Rightarrow> string" where
  "show_block ipv4 net len = (if ipv4 then show_ipv4 (ucast net) else show_ipv6 net) @ ''/'' @ show_nat 10 len"

function fwd_split :: "bool \<Rightarrow> nat \<Rightarrow> u128 \<Rightarrow> nat \<Rightarrow> (u128 \<times> u8) list \<Rightarrow> string list option" where
  "fwd_split ipv4 bits net len excl =
     (if list_ex (\<lambda>(p, plen). prefix_in bits p (unat plen) net len) excl then Some []
      else if \<not> list_ex (\<lambda>(p, plen). prefix_in bits net len p (unat plen)) excl then Some [show_block ipv4 net len]
      else if len \<ge> bits then None
      else let half = push_bit (bits - len - 1) 1
           in case fwd_split ipv4 bits net (len + 1) excl of
                None \<Rightarrow> None
              | Some out \<Rightarrow> map_option (\<lambda>more. out @ more) (fwd_split ipv4 bits (net OR half) (len + 1) excl))"
  by pat_completeness auto
termination by (relation "measure (\<lambda>(_, bits, _, len, _). bits - len)") auto

declare fwd_split.simps [simp del]

definition complement :: "string \<Rightarrow> string list \<Rightarrow> string list option" where
  "complement universe prefixes =
     (case parse_cidr universe of
        Inl _ \<Rightarrow> Some []
      | Inr (network, _) \<Rightarrow>
          (let ipv4 = is_ipv4 network;
               excl = map (\<lambda>(address, prefix). (address_bits address, prefix))
                 (filter (\<lambda>(address, _). is_ipv4 address = ipv4)
                   (List.map_filter (\<lambda>prefix. case parse_cidr prefix of Inr r \<Rightarrow> Some r | Inl _ \<Rightarrow> None) prefixes))
           in fwd_split ipv4 (if ipv4 then 32 else 128) 0 0 excl))"

subsection \<open>Compiling a client\<close>

definition host_subject :: subject where
  "host_subject = subject_new Member []"

definition fwd_grants ::
  "(uuid \<Rightarrow> string) \<Rightarrow> acl \<Rightarrow> distribution \<Rightarrow> router_view \<Rightarrow> client_view \<Rightarrow> forward_service bmap" where
  "fwd_grants uuid_text acl dist router client =
     (let exits = selected_by uuid_text router (cv_exit_request client);
          own = foldl (\<lambda>m route. if \<not> is_default_route route \<or> exits then bm_put route fs_everything m else m)
                  [] (rv_approved router)
      in foldl (\<lambda>m (cidr, service).
                  bm_put cidr (fs_merge (case map_of m cidr of None \<Rightarrow> fs_default | Some s \<Rightarrow> s) service) m)
           own (grants_via dist (rv_id router) (cv_id client) (cv_subject client) acl exits))"

definition carried_prefixes :: "distribution \<Rightarrow> router_view \<Rightarrow> string list" where
  "carried_prefixes dist router =
     bs_extend [] (filter (\<lambda>prefix. \<not> is_default_route prefix)
       (rv_approved router @ rv_advertised router @ reserved_for dist (rv_id router)))"

text \<open>What the policy's rules say about one named host.\<close>

definition host_services :: "acl \<Rightarrow> subject \<Rightarrow> string \<Rightarrow> forward_service \<times> forward_service" where
  "host_services acl src name =
     foldl (\<lambda>(denied, allowed) r.
              if ar_action r = Deny then (fs_merge denied (rule_service r), allowed)
              else if ar_dst_hosts r \<noteq> [] then (denied, fs_merge allowed (rule_service r))
              else (denied, allowed))
       (fs_default, fs_default)
       (filter (\<lambda>r. acl_rule_matches acl r src host_subject None None (Some name)) (ac_rules acl))"

definition host_entries ::
  "acl \<Rightarrow> subject \<Rightarrow> forward_service bmap \<Rightarrow> (string \<Rightarrow> forward_service \<Rightarrow> forward_rule) \<Rightarrow> string \<times> string
   \<Rightarrow> forward_rule list \<times> forward_rule list" where
  "host_entries acl src gs entry = (\<lambda>(name, value).
     case host_cidr value of
       None \<Rightarrow> ([], [])
     | Some host \<Rightarrow>
         if \<not> list_ex (cidr_within host) (map fst gs) then ([], [])
         else let (denied, allowed) = host_services acl src name;
                  routed_privately = list_ex (\<lambda>prefix. \<not> is_default_route prefix \<and> cidr_within host prefix) (map fst gs)
              in (if \<not> fs_is_empty denied then [entry host denied] else [],
                  if \<not> fs_is_empty allowed \<and> routed_privately then [entry host allowed] else []))"

definition grant_entries ::
  "string list \<Rightarrow> (string \<Rightarrow> forward_service \<Rightarrow> forward_rule) \<Rightarrow> string \<times> forward_service \<Rightarrow> forward_rule list option" where
  "grant_entries carried entry = (\<lambda>(prefix, service).
     if is_default_route prefix then map_option (map (\<lambda>part. entry part service)) (complement prefix carried)
     else Some [entry prefix service])"

definition client_entry :: "client_view \<Rightarrow> string \<Rightarrow> forward_service \<Rightarrow> forward_rule" where
  "client_entry client destination service =
     \<lparr>fr_client = cv_id client, fr_sources = host_addresses (cv_overlay client), fr_destination = destination,
      fr_service = service\<rparr>"

definition compile_client ::
  "(uuid \<Rightarrow> string) \<Rightarrow> acl \<Rightarrow> int \<Rightarrow> distribution \<Rightarrow> router_view \<Rightarrow> client_view \<Rightarrow> forward_filter \<Rightarrow> forward_filter option" where
  "compile_client uuid_text acl now dist router client flt =
     (if cv_id client = rv_id router \<or> \<not> allows acl now (cv_subject client) (rv_subject router) then Some flt
      else if host_addresses (cv_overlay client) = [] then Some flt
      else let gs = fwd_grants uuid_text acl dist router client
           in if gs = [] then Some flt
              else let entry = client_entry client;
                       carried = carried_prefixes dist router;
                       exits = list_ex is_default_route (map fst gs);
                       deny = (if exits
                               then map (\<lambda>prefix. entry prefix fs_everything)
                                      (filter (\<lambda>prefix. \<not> has_key gs prefix) carried)
                               else []);
                       hosts = map (host_entries acl (cv_subject client) gs entry) (ac_hosts acl)
                   in map_option (\<lambda>granted.
                        flt\<lparr>ff_deny := ff_deny flt @ deny @ concat (map fst hosts),
                            ff_allow := ff_allow flt @ concat (map snd hosts) @ concat granted\<rparr>)
                        (those (map (grant_entries carried entry) gs)))"

definition permits :: "forward_filter \<Rightarrow> string \<Rightarrow> acl_protocol option \<Rightarrow> u16 option \<Rightarrow> bool" where
  "permits flt host protocol port \<longleftrightarrow>
     (if list_ex (\<lambda>r. cidr_within host (fr_destination r) \<and> fs_admits (fr_service r) protocol port) (ff_deny flt)
      then False
      else list_ex (\<lambda>r. cidr_within host (fr_destination r) \<and> fs_admits (fr_service r) protocol port) (ff_allow flt))"

subsection \<open>The complement is exact\<close>

lemma xor_zero_iff: "(a :: 'a::len word) XOR b = 0 \<longleftrightarrow> a = b"
  by (metis xor.left_neutral xor.right_neutral xor_self_eq xor.assoc)

lemma unat_drop: "unat (drop_bit k (a :: u128)) = unat a div 2 ^ k"
proof -
  have "take_bit 128 (unat a) = unat a"
    using unsigned_less [of a, where ?'a = nat] by (simp add: take_bit_nat_eq_self_iff)
  then show ?thesis using unsigned_drop_bit_eq [of k a, where ?'a = nat] by (simp add: drop_bit_eq_div)
qed

lemma prefix_in_iff:
  assumes "alen \<le> bits" "unat a < 2 ^ bits" "unat b < 2 ^ bits"
  shows "prefix_in bits a alen b blen \<longleftrightarrow> alen \<le> blen \<and> unat a div 2 ^ (bits - alen) = unat b div 2 ^ (bits - alen)"
proof -
  have drop: "drop_bit k (a XOR b) = 0 \<longleftrightarrow> unat a div 2 ^ k = unat b div 2 ^ k" for k
  proof -
    have "drop_bit k (a XOR b) = 0 \<longleftrightarrow> drop_bit k a = drop_bit k b" by (simp add: xor_zero_iff)
    also have "\<dots> \<longleftrightarrow> unat (drop_bit k a) = unat (drop_bit k b)" by (simp add: word_unat_eq_iff)
    finally show ?thesis by (simp only: unat_drop)
  qed
  show ?thesis
  proof (cases "alen = 0")
    case True
    with assms show ?thesis by (simp add: prefix_in_def)
  next
    case False
    then show ?thesis unfolding prefix_in_def drop by simp
  qed
qed

definition in_block :: "nat \<Rightarrow> u128 \<Rightarrow> nat \<Rightarrow> nat \<Rightarrow> bool" where
  "in_block bits net len v \<longleftrightarrow> unat net div 2 ^ (bits - len) = v div 2 ^ (bits - len)"

definition block_ok :: "nat \<Rightarrow> u128 \<Rightarrow> nat \<Rightarrow> bool" where
  "block_ok bits net len \<longleftrightarrow> len \<le> bits \<and> unat net < 2 ^ bits \<and> unat net mod 2 ^ (bits - len) = 0"

lemma in_block_shorter: "l \<le> k \<Longrightarrow> k \<le> bits \<Longrightarrow> a div 2 ^ (bits - k) = b div 2 ^ (bits - k) \<Longrightarrow>
    a div 2 ^ (bits - l) = b div (2 ^ (bits - l) :: nat)"
proof -
  assume "l \<le> k" "k \<le> bits" and eq: "a div 2 ^ (bits - k) = b div 2 ^ (bits - k)"
  then have "bits - l = (bits - k) + (k - l)" by simp
  then show ?thesis using eq by (simp add: power_add div_mult2_eq)
qed

lemma half_sum:
  assumes "unat (net :: u128) mod 2 ^ Suc k = 0" "Suc k \<le> 128"
  shows "unat (net OR push_bit k 1) = unat net + 2 ^ k"
proof -
  have pow: "unat (push_bit k 1 :: u128) = 2 ^ k"
  proof -
    have "(2 :: nat) ^ k < 2 ^ 128" using assms(2) by (intro power_strict_increasing) simp_all
    then have "unat (word_of_nat (2 ^ k) :: u128) = 2 ^ k" unfolding unat_of_nat by simp
    moreover have "push_bit k 1 = (word_of_nat (2 ^ k) :: u128)" by (simp add: push_bit_eq_mult)
    ultimately show ?thesis by (simp only:)
  qed
  have take: "take_bit (Suc k) (unat net) = 0" using assms(1) by (simp add: take_bit_eq_mod)
  have "\<not> bit (unat net) k"
    using take by (metis bit_0_eq bit_take_bit_iff bot_apply bot_bool_def lessI)
  then have "\<not> bit net k" by (simp add: bit_unsigned_iff assms(2) less_le_trans)
  then have "net AND push_bit k 1 = 0"
    by (auto intro!: bit_word_eqI simp: bit_simps)
  then have "net OR push_bit k 1 = net + push_bit k 1"
    by (simp add: disjunctive_add_eq_or)
  moreover have "unat net + 2 ^ k < 2 ^ 128"
  proof -
    have less: "unat net < 2 ^ 128" using unsigned_less [of net, where ?'a = nat] by simp
    obtain q where q: "unat net = 2 ^ Suc k * q" using assms(1) by (auto simp: mod_eq_0_iff_dvd)
    have r: "(2 :: nat) ^ 128 = 2 ^ Suc k * 2 ^ (128 - Suc k)"
      using assms(2) by (simp only: le_add_diff_inverse flip: power_add)
    have "q < 2 ^ (128 - Suc k)" using less unfolding q r by (simp only: mult_less_cancel1)
    then have "2 ^ Suc k * Suc q \<le> 2 ^ Suc k * 2 ^ (128 - Suc k)" by (intro mult_le_mono2) simp
    then have "unat net + 2 ^ Suc k \<le> 2 ^ 128" unfolding q r by (simp only: mult_Suc_right add.commute)
    moreover have "m > 0 \<Longrightarrow> n + 2 * m \<le> top \<Longrightarrow> n + m < top" for m n top :: nat by simp
    ultimately show ?thesis by (simp only: power_Suc zero_less_power zero_less_numeral)
  qed
  ultimately show ?thesis using pow by (simp add: unat_word_ariths)
qed

lemma child_blocks:
  assumes "block_ok bits net len" "len < bits" "bits \<le> 128"
  defines "half \<equiv> push_bit (bits - len - 1) 1"
  shows "block_ok bits net (len + 1)" "block_ok bits (net OR half) (len + 1)"
    and "in_block bits net len v \<longleftrightarrow> in_block bits net (len + 1) v \<or> in_block bits (net OR half) (len + 1) v"
proof -
  define k where "k = bits - len - 1"
  have k: "bits - len = Suc k" "bits - (len + 1) = k" "Suc k \<le> 128" using assms(2,3) by (simp_all add: k_def)
  have net: "unat net < 2 ^ bits" "unat net mod 2 ^ Suc k = 0" using assms(1) k by (simp_all add: block_ok_def)
  obtain q where q: "unat net = 2 ^ Suc k * q" using net(2) by (auto simp: mod_eq_0_iff_dvd)
  have half: "unat (net OR half) = unat net + 2 ^ k"
    using half_sum [OF net(2) k(3)] by (simp add: half_def k_def)
  have q0: "unat net = 2 ^ k * (2 * q)" and q1: "unat (net OR half) = 2 ^ k * (2 * q + 1)"
    unfolding half q by simp_all
  have "2 ^ Suc k * q < 2 ^ Suc k * 2 ^ len"
    using net(1) k(1) assms(2) unfolding q by (metis le_add_diff_inverse2 less_imp_le power_add)
  then have "q < 2 ^ len" by (simp only: mult_less_cancel1)
  then have "2 * q + 1 < 2 * 2 ^ len" by simp
  then have "2 ^ k * (2 * q + 1) < 2 ^ k * (2 * 2 ^ len)" by (simp only: mult_less_cancel1 zero_less_power zero_less_numeral simp_thms)
  also have "\<dots> = 2 ^ bits"
    using k(1) assms(2) by (metis le_add_diff_inverse2 less_imp_le mult.assoc mult.commute power_Suc power_add)
  finally have "unat (net OR half) < 2 ^ bits" unfolding q1 .
  then show "block_ok bits net (len + 1)" "block_ok bits (net OR half) (len + 1)"
    using assms(2) net(1) q0 q1 k(2) by (simp_all add: block_ok_def)
  have halves: "q = w div 2 \<longleftrightarrow> 2 * q = w \<or> 2 * q + 1 = w" for w :: nat by presburger
  have "v div 2 ^ Suc k = v div 2 ^ k div 2" by (simp only: power_Suc mult.commute [of 2] div_mult2_eq)
  moreover have "unat net div 2 ^ Suc k = q" "unat net div 2 ^ k = 2 * q" "unat (net OR half) div 2 ^ k = 2 * q + 1"
    using q q0 q1 by simp_all
  ultimately show "in_block bits net len v \<longleftrightarrow> in_block bits net (len + 1) v \<or> in_block bits (net OR half) (len + 1) v"
    unfolding in_block_def k using halves by (simp only:)
qed

definition excl_ok :: "nat \<Rightarrow> (u128 \<times> u8) list \<Rightarrow> bool" where
  "excl_ok bits excl \<longleftrightarrow> (\<forall>(p, plen)\<in>set excl. unat plen \<le> bits \<and> unat p < 2 ^ bits)"

definition excluded_value :: "nat \<Rightarrow> (u128 \<times> u8) list \<Rightarrow> nat \<Rightarrow> bool" where
  "excluded_value bits excl v \<longleftrightarrow> (\<exists>(p, plen)\<in>set excl. in_block bits p (unat plen) v)"

text \<open>The blocks found below one node of the search.\<close>

definition covers_rest :: "nat \<Rightarrow> u128 \<Rightarrow> nat \<Rightarrow> (u128 \<times> u8) list \<Rightarrow> (u128 \<times> nat) list \<Rightarrow> bool" where
  "covers_rest bits net len excl blocks \<longleftrightarrow>
     (\<forall>(n, l)\<in>set blocks. block_ok bits n l)
     \<and> (\<forall>v < 2 ^ bits. (\<exists>(n, l)\<in>set blocks. in_block bits n l v) \<longleftrightarrow> in_block bits net len v \<and> \<not> excluded_value bits excl v)"

lemma covers_whole:
  assumes "block_ok bits net len" "excl_ok bits excl"
    and "\<not> list_ex (\<lambda>(p, plen). prefix_in bits p (unat plen) net len) excl"
    and "\<not> list_ex (\<lambda>(p, plen). prefix_in bits net len p (unat plen)) excl"
  shows "covers_rest bits net len excl [(net, len)]"
proof -
  have "\<not> in_block bits p (unat plen) v" if "(p, plen) \<in> set excl" "in_block bits net len v" for p plen v
  proof
    assume "in_block bits p (unat plen) v"
    with that(2) have eq: "unat net div 2 ^ (bits - len) = v div 2 ^ (bits - len)"
      "unat p div 2 ^ (bits - unat plen) = v div 2 ^ (bits - unat plen)" by (simp_all add: in_block_def)
    have b: "unat plen \<le> bits" "unat p < 2 ^ bits" "len \<le> bits" "unat net < 2 ^ bits"
      using assms(1,2) that(1) by (auto simp: excl_ok_def block_ok_def)
    show False
    proof (cases "unat plen \<le> len")
      case True
      then have "prefix_in bits p (unat plen) net len"
        using b eq in_block_shorter [OF True b(3) eq(1)] by (simp add: prefix_in_iff)
      with assms(3) that(1) show False by (auto simp: list_ex_iff)
    next
      case False
      then have le: "len \<le> unat plen" by simp
      then have "prefix_in bits net len p (unat plen)"
        using b eq in_block_shorter [OF le b(1) eq(2)] by (simp add: prefix_in_iff)
      with assms(4) that(1) show False by (auto simp: list_ex_iff)
    qed
  qed
  with assms(1) show ?thesis by (auto simp: covers_rest_def excluded_value_def)
qed

lemma covers_none:
  assumes "block_ok bits net len" "excl_ok bits excl"
    and "list_ex (\<lambda>(p, plen). prefix_in bits p (unat plen) net len) excl"
  shows "covers_rest bits net len excl []"
proof -
  obtain p plen where p: "(p, plen) \<in> set excl" "prefix_in bits p (unat plen) net len"
    using assms(3) by (auto simp: list_ex_iff)
  have b: "unat plen \<le> bits" "unat p < 2 ^ bits" "len \<le> bits" "unat net < 2 ^ bits"
    using assms(1,2) p(1) by (auto simp: excl_ok_def block_ok_def)
  with p(2) have eq: "unat plen \<le> len" "unat p div 2 ^ (bits - unat plen) = unat net div 2 ^ (bits - unat plen)"
    by (simp_all add: prefix_in_iff)
  have "in_block bits p (unat plen) v" if "in_block bits net len v" for v
    using that eq in_block_shorter [OF eq(1) b(3), of "unat net" v] by (simp add: in_block_def)
  then show ?thesis using p(1) by (auto simp: covers_rest_def excluded_value_def)
qed

lemma fwd_split_covers:
  "block_ok bits net len \<Longrightarrow> bits \<le> 128 \<Longrightarrow> excl_ok bits excl \<Longrightarrow>
    \<exists>blocks. fwd_split ipv4 bits net len excl = Some (map (\<lambda>(n, l). show_block ipv4 n l) blocks)
      \<and> covers_rest bits net len excl blocks"
proof (induction ipv4 bits net len excl rule: fwd_split.induct)
  case (1 ipv4 bits net len excl)
  let ?inside = "list_ex (\<lambda>(p, plen). prefix_in bits p (unat plen) net len) excl"
  let ?below = "list_ex (\<lambda>(p, plen). prefix_in bits net len p (unat plen)) excl"
  consider "?inside" | "\<not> ?inside" "\<not> ?below" | "\<not> ?inside" "?below" by blast
  then show ?case
  proof cases
    case 1
    then show ?thesis
      using covers_none [OF "1.prems"(1,3)] by (intro exI [of _ "[]"]) (simp add: fwd_split.simps [of ipv4 bits net len excl])
  next
    case 2
    then show ?thesis
      using covers_whole [OF "1.prems"(1,3)]
      by (intro exI [of _ "[(net, len)]"]) (simp add: fwd_split.simps [of ipv4 bits net len excl])
  next
    case 3
    obtain p plen where p: "(p, plen) \<in> set excl" "prefix_in bits net len p (unat plen)"
      using 3(2) by (auto simp: list_ex_iff)
    have b: "unat plen \<le> bits" "unat p < 2 ^ bits" "len \<le> bits" "unat net < 2 ^ bits"
      using "1.prems" p(1) by (auto simp: excl_ok_def block_ok_def)
    have len: "len < bits"
    proof (rule ccontr)
      assume "\<not> len < bits"
      with b p(2) have "prefix_in bits p (unat plen) net len" by (auto simp: prefix_in_iff)
      with 3(1) p(1) show False by (auto simp: list_ex_iff)
    qed
    let ?half = "push_bit (bits - len - 1) 1"
    note kids = child_blocks [OF "1.prems"(1) len "1.prems"(2)]
    obtain bl where bl: "fwd_split ipv4 bits net (len + 1) excl = Some (map (\<lambda>(n, l). show_block ipv4 n l) bl)"
      "covers_rest bits net (len + 1) excl bl"
      using "1.IH"(1) [OF 3(1) _ _ refl kids(1) "1.prems"(2,3)] 3(2) len by (auto simp: not_le)
    obtain br where br: "fwd_split ipv4 bits (net OR ?half) (len + 1) excl = Some (map (\<lambda>(n, l). show_block ipv4 n l) br)"
      "covers_rest bits (net OR ?half) (len + 1) excl br"
      using "1.IH"(2) [OF 3(1) _ _ refl bl(1) kids(2) "1.prems"(2,3)] 3(2) len by (auto simp: not_le)
    have "fwd_split ipv4 bits net len excl = Some (map (\<lambda>(n, l). show_block ipv4 n l) (bl @ br))"
      using 3 len bl(1) br(1) by (simp add: fwd_split.simps [of ipv4 bits net len excl] Let_def not_le)
    moreover have "covers_rest bits net len excl (bl @ br)"
      using bl(2) br(2) kids(3) unfolding covers_rest_def by (auto simp: ball_Un bex_Un)
    ultimately show ?thesis by blast
  qed
qed

definition text_contains :: "string \<Rightarrow> ip_addr \<Rightarrow> bool" where
  "text_contains cidr ip = (case parse_cidr cidr of Inr (net, prefix) \<Rightarrow> cidr_contains net prefix ip | Inl _ \<Rightarrow> False)"

definition family_bits :: "bool \<Rightarrow> nat" where
  "family_bits ipv4 = (if ipv4 then 32 else 128)"

definition block_net :: "bool \<Rightarrow> u128 \<Rightarrow> ip_addr" where
  "block_net ipv4 net = (if ipv4 then V4 (ucast net) else V6 net)"

lemma contains_mask: "cidr_contains (mask_addr a p) p ip = cidr_contains a p ip"
  by (cases a; cases ip) (simp_all add: cidr_contains_def mask_addr_def and.assoc)

lemma block_net_value: "unat n < 2 ^ family_bits ipv4 \<Longrightarrow> ip_value (block_net ipv4 n) = unat n"
  by (simp add: ip_value_def block_net_def family_bits_def unsigned_ucast_eq take_bit_nat_eq_self_iff split: if_splits)

lemma show_block_show: "show_block ipv4 n l = show_ip (block_net ipv4 n) @ ''/'' @ show_nat 10 l"
  by (simp add: show_block_def block_net_def show_ip_def)

lemma show_block_contains:
  assumes "block_ok (family_bits ipv4) n l"
  shows "text_contains (show_block ipv4 n l) ip \<longleftrightarrow> is_ipv4 ip = ipv4 \<and> in_block (family_bits ipv4) n l (ip_value ip)"
proof -
  have l: "l \<le> family_bits ipv4" "unat n < 2 ^ family_bits ipv4" using assms by (simp_all add: block_ok_def)
  have fam: "is_ipv4 (block_net ipv4 n) = ipv4" by (simp add: block_net_def)
  have "l < 256" using l(1) by (simp add: family_bits_def split: if_splits)
  then have len: "unat (word_of_nat l :: u8) = l" by (simp add: unat_of_nat)
  have "prefix_ok (block_net ipv4 n) (word_of_nat l)" "host_bits (block_net ipv4 n) (word_of_nat l) = family_bits ipv4 - l"
    using l fam len by (simp_all add: prefix_ok_def host_bits_def family_bits_def split: if_splits)
  moreover have "parse_cidr (show_block ipv4 n l) = Inr (mask_addr (block_net ipv4 n) (word_of_nat l), word_of_nat l)"
    unfolding show_block_show using l(1) fam by (intro parse_cidr_show) (simp add: family_bits_def)
  ultimately show ?thesis
    using fam l(2)
    by (auto simp: text_contains_def contains_mask contains_iff in_block_def block_net_value same_family_def)
qed

lemma zero_digits: "be_encode k 0 = replicate k 0" "be_groups k 0 = replicate k 0"
  by (induction k) (simp_all add: replicate_append_same)

lemma show_zero: "show_ip (V4 0) @ ''/'' @ show_nat 10 0 = ''0.0.0.0/0''" "show_ip (V6 0) @ ''/'' @ show_nat 10 0 = ''::/0''"
proof -
  have n: "show_nat 10 0 = ''0''" "show_nat 16 0 = ''0''" by (simp_all add: show_nat.simps digit_char_0)
  have "v4_octets 0 = [0, 0, 0, 0]" unfolding v4_octets_def unsigned_0 zero_digits(1) by (simp add: numeral_eq_Suc)
  then show "show_ip (V4 0) @ ''/'' @ show_nat 10 0 = ''0.0.0.0/0''"
    by (simp add: show_ip_def show_ipv4_def join_def n)
  have "to_ipv4_mapped 0 = None"
  proof (rule ccontr)
    assume "to_ipv4_mapped 0 \<noteq> None"
    then obtain a where h: "to_ipv6_mapped a = 0" by (metis not_None_eq to_ipv4_mapped_iff)
    have "v6_octets 0 = mapped_prefix @ v4_octets a" using v6_octets_mapped [of a] unfolding h .
    moreover have "v6_octets 0 = replicate 16 0" unfolding v6_octets_def unsigned_0 zero_digits(1) ..
    ultimately have "set (mapped_prefix @ v4_octets a) = set (replicate 16 0)" by (simp only:)
    moreover have "(0xFF :: u8) \<in> set (mapped_prefix @ v4_octets a)" by (simp add: mapped_prefix_def)
    ultimately have "(0xFF :: u8) \<in> set (replicate 16 0)" by (simp only:)
    then show False by simp
  qed
  moreover have "v6_groups 0 = [0, 0, 0, 0, 0, 0, 0, 0]" unfolding v6_groups_def unsigned_0 zero_digits(2) by (simp add: numeral_eq_Suc)
  moreover have "zero_span 0 (0, 0) (0, 0) [0, 0, 0, 0, 0, 0, 0, 0] = (0, 8)" by code_simp
  ultimately show "show_ip (V6 0) @ ''/'' @ show_nat 10 0 = ''::/0''"
    by (simp add: show_ip_def show_ipv6_def join_def n del: zero_span.simps)
qed

lemma default_routes_parse: "parse_cidr ''0.0.0.0/0'' = Inr (V4 0, 0)" "parse_cidr ''::/0'' = Inr (V6 0, 0)"
  using parse_cidr_show [of 0 "V4 0"] parse_cidr_show [of 0 "V6 0"] unfolding show_zero
  by (simp_all add: mask_addr_def)

definition excl_of :: "bool \<Rightarrow> string list \<Rightarrow> (u128 \<times> u8) list" where
  "excl_of ipv4 prefixes =
     map (\<lambda>(address, prefix). (address_bits address, prefix))
       (filter (\<lambda>(address, _). is_ipv4 address = ipv4)
         (List.map_filter (\<lambda>prefix. case parse_cidr prefix of Inr r \<Rightarrow> Some r | Inl _ \<Rightarrow> None) prefixes))"

lemma excl_of_mem:
  "e \<in> set (excl_of ipv4 prefixes) \<longleftrightarrow>
     (\<exists>c\<in>set prefixes. \<exists>a p. parse_cidr c = Inr (a, p) \<and> is_ipv4 a = ipv4 \<and> e = (address_bits a, p))"
proof -
  have "(case s of Inr r \<Rightarrow> Some r | Inl _ \<Rightarrow> None) = Some x \<longleftrightarrow> s = Inr x" for s :: "ipam_error + (ip_addr \<times> u8)" and x
    by (cases s) simp_all
  then have "x \<in> set (List.map_filter (\<lambda>prefix. case parse_cidr prefix of Inr r \<Rightarrow> Some r | Inl _ \<Rightarrow> None) prefixes)
      \<longleftrightarrow> (\<exists>c\<in>set prefixes. parse_cidr c = Inr x)" for x
    by (simp only: map_filter_mem)
  then show ?thesis
    unfolding excl_of_def set_map set_filter by (auto simp: image_iff case_prod_beta)
qed

lemma address_bits_value: "unat (address_bits a) = ip_value a"
  by (cases a) (simp_all add: address_bits_def ip_value_def unsigned_ucast_eq take_bit_nat_eq_self_iff
      unsigned_less [where ?'a = nat, THEN less_trans])

lemma ip_value_less: "ip_value ip < 2 ^ family_bits (is_ipv4 ip)"
proof (cases ip)
  case (V4 a)
  then show ?thesis using unsigned_less [of a, where ?'a = nat] by (simp add: ip_value_def family_bits_def)
next
  case (V6 a)
  then show ?thesis using unsigned_less [of a, where ?'a = nat] by (simp add: ip_value_def family_bits_def)
qed

lemma excl_of_ok: "excl_ok (family_bits ipv4) (excl_of ipv4 prefixes)"
proof -
  have "unat p \<le> family_bits ipv4 \<and> unat (address_bits a) < 2 ^ family_bits ipv4"
    if "parse_cidr c = Inr (a, p)" "is_ipv4 a = ipv4" for c a p
    using parse_cidr_ok [OF that(1)] ip_value_less [of a] that(2)
    by (simp add: prefix_ok_def family_bits_def address_bits_value split: if_splits)
  then show ?thesis unfolding excl_ok_def by (metis (no_types, lifting) case_prodI2 excl_of_mem prod.inject)
qed

lemma excl_of_contains:
  "excluded_value (family_bits (is_ipv4 ip)) (excl_of (is_ipv4 ip) prefixes) (ip_value ip) \<longleftrightarrow>
     (\<exists>prefix\<in>set prefixes. text_contains prefix ip)"
proof -
  have "text_contains c ip \<longleftrightarrow>
      (\<exists>a p. parse_cidr c = Inr (a, p) \<and> is_ipv4 a = is_ipv4 ip
        \<and> in_block (family_bits (is_ipv4 ip)) (address_bits a) (unat p) (ip_value ip))" for c
  proof (cases "parse_cidr c")
    case (Inr r)
    obtain a p where r: "r = (a, p)" by (cases r)
    have "prefix_ok a p" using parse_cidr_ok Inr r by blast
    then show ?thesis
      using Inr r by (auto simp: text_contains_def contains_iff same_family_def in_block_def address_bits_value
          host_bits_def family_bits_def)
  qed (simp add: text_contains_def)
  then show ?thesis by (fastforce simp: excluded_value_def excl_of_mem)
qed

lemma complement_split:
  assumes "is_default_route universe"
  shows "complement universe prefixes =
      fwd_split (universe = ''0.0.0.0/0'') (family_bits (universe = ''0.0.0.0/0'')) 0 0 (excl_of (universe = ''0.0.0.0/0'') prefixes)"
    and "text_contains universe ip \<longleftrightarrow> is_ipv4 ip = (universe = ''0.0.0.0/0'')"
proof -
  show "complement universe prefixes =
      fwd_split (universe = ''0.0.0.0/0'') (family_bits (universe = ''0.0.0.0/0'')) 0 0 (excl_of (universe = ''0.0.0.0/0'') prefixes)"
    using assms by (auto simp: is_default_route_def complement_def default_routes_parse excl_of_def family_bits_def Let_def)
  have "cidr_contains (V4 0) 0 ip = is_ipv4 ip" "cidr_contains (V6 0) 0 ip = (\<not> is_ipv4 ip)"
    by (cases ip; simp add: cidr_contains_def mask32_def mask128_def)+
  then show "text_contains universe ip \<longleftrightarrow> is_ipv4 ip = (universe = ''0.0.0.0/0'')"
    using assms by (auto simp: is_default_route_def text_contains_def default_routes_parse)
qed

lemma covers_rest_ok: "covers_rest bits net len excl blocks \<Longrightarrow> e \<in> set blocks \<Longrightarrow> block_ok bits (fst e) (snd e)"
  by (cases e) (auto simp: covers_rest_def)

lemma shown_blocks:
  assumes "covers_rest (family_bits ipv4) net len excl blocks"
  shows "(\<exists>part\<in>set (map (\<lambda>(n, l). show_block ipv4 n l) blocks). text_contains part ip) \<longleftrightarrow>
      is_ipv4 ip = ipv4 \<and> (\<exists>(n, l)\<in>set blocks. in_block (family_bits ipv4) n l (ip_value ip))"
proof -
  have "(\<exists>part\<in>set (map (\<lambda>(n, l). show_block ipv4 n l) blocks). text_contains part ip) \<longleftrightarrow>
      (\<exists>e\<in>set blocks. text_contains (show_block ipv4 (fst e) (snd e)) ip)"
    by (simp only: set_map bex_simps case_prod_beta)
  also have "\<dots> \<longleftrightarrow> (\<exists>e\<in>set blocks. is_ipv4 ip = ipv4 \<and> in_block (family_bits ipv4) (fst e) (snd e) (ip_value ip))"
    by (rule bex_cong [OF refl]) (rule show_block_contains [OF covers_rest_ok [OF assms]])
  also have "\<dots> \<longleftrightarrow> is_ipv4 ip = ipv4 \<and> (\<exists>(n, l)\<in>set blocks. in_block (family_bits ipv4) n l (ip_value ip))"
    unfolding case_prod_unfold by (simp only: bex_simps)
  finally show ?thesis .
qed

lemma covers_rest_top:
  assumes "covers_rest (family_bits ipv4) 0 0 (excl_of ipv4 prefixes) blocks" "is_ipv4 ip = ipv4"
  shows "(\<exists>(n, l)\<in>set blocks. in_block (family_bits ipv4) n l (ip_value ip)) \<longleftrightarrow>
      \<not> (\<exists>prefix\<in>set prefixes. text_contains prefix ip)"
proof -
  have lt: "ip_value ip < 2 ^ family_bits ipv4" using ip_value_less [of ip] assms(2) by simp
  then have "in_block (family_bits ipv4) 0 0 (ip_value ip)" by (simp add: in_block_def)
  moreover have "excluded_value (family_bits ipv4) (excl_of ipv4 prefixes) (ip_value ip) \<longleftrightarrow>
      (\<exists>prefix\<in>set prefixes. text_contains prefix ip)"
    using excl_of_contains [of ip prefixes] unfolding assms(2) .
  ultimately show ?thesis using assms(1) lt unfolding covers_rest_def by (simp only: simp_thms)
qed

lemma complement_covers:
  assumes "is_default_route universe"
  shows "\<exists>parts. complement universe prefixes = Some parts
    \<and> (\<forall>ip. (\<exists>part\<in>set parts. text_contains part ip) \<longleftrightarrow>
          text_contains universe ip \<and> \<not> (\<exists>prefix\<in>set prefixes. text_contains prefix ip))"
proof -
  let ?v4 = "universe = ''0.0.0.0/0''"
  let ?excl = "excl_of ?v4 prefixes"
  have "block_ok (family_bits ?v4) 0 0" "family_bits ?v4 \<le> 128" by (simp_all add: block_ok_def family_bits_def)
  then have "\<exists>blocks. complement universe prefixes = Some (map (\<lambda>(n, l). show_block ?v4 n l) blocks)
      \<and> covers_rest (family_bits ?v4) 0 0 ?excl blocks"
    unfolding complement_split(1) [OF assms] by (rule fwd_split_covers) (rule excl_of_ok)
  then obtain blocks where b: "complement universe prefixes = Some (map (\<lambda>(n, l). show_block ?v4 n l) blocks)"
      "covers_rest (family_bits ?v4) 0 0 ?excl blocks"
    by (elim exE conjE) (rule that)
  have "(\<exists>part\<in>set (map (\<lambda>(n, l). show_block ?v4 n l) blocks). text_contains part ip) \<longleftrightarrow>
      text_contains universe ip \<and> \<not> (\<exists>prefix\<in>set prefixes. text_contains prefix ip)" for ip
    unfolding shown_blocks [OF b(2)] complement_split(2) [OF assms]
    by (rule conj_cong [OF refl]) (rule covers_rest_top [OF b(2)])
  then show ?thesis unfolding b(1) by blast
qed

text \<open>
  C19. The exit route around the carried prefixes is computed exactly. For a default route and any
  list of prefixes the recursion ends without underflow, and the blocks it returns cover precisely
  the addresses of that family that lie in none of the prefixes (unreadable prefixes exclude
  nothing).
\<close>

theorem complement_exact:
  assumes "is_default_route universe"
  shows "\<exists>parts. complement universe prefixes = Some parts
    \<and> (\<forall>ip. (\<exists>part\<in>set parts. text_contains part ip) \<longleftrightarrow>
          text_contains universe ip \<and> \<not> (\<exists>prefix\<in>set prefixes. text_contains prefix ip))"
  by (rule complement_covers [OF assms])

theorem complement_exact_witness:
  "\<exists>parts. complement ''0.0.0.0/0'' [''0.0.0.0/0''] = Some parts \<and> \<not> (\<exists>part\<in>set parts. text_contains part (V4 1))"
  using complement_exact [of "''0.0.0.0/0''" "[''0.0.0.0/0'']"] by (auto simp: is_default_route_def)

subsection \<open>What a compiled filter says\<close>

definition matched :: "forward_rule list \<Rightarrow> string \<Rightarrow> ip_addr \<Rightarrow> acl_protocol option \<Rightarrow> u16 option \<Rightarrow> bool" where
  "matched rules src ip protocol port \<longleftrightarrow>
     (\<exists>r\<in>set rules. src \<in> set (fr_sources r) \<and> text_contains (fr_destination r) ip \<and> fs_admits (fr_service r) protocol port)"

text \<open>The default route is granted only around the prefixes the router carries.\<close>

definition route_granted ::
  "forward_service bmap \<Rightarrow> string list \<Rightarrow> ip_addr \<Rightarrow> acl_protocol option \<Rightarrow> u16 option \<Rightarrow> bool" where
  "route_granted gs carried ip protocol port \<longleftrightarrow>
     (\<exists>(prefix, service)\<in>set gs. text_contains prefix ip \<and> fs_admits service protocol port
        \<and> \<not> (is_default_route prefix \<and> (\<exists>c\<in>set carried. text_contains c ip)))"

definition route_reserved :: "forward_service bmap \<Rightarrow> string list \<Rightarrow> ip_addr \<Rightarrow> bool" where
  "route_reserved gs carried ip \<longleftrightarrow>
     list_ex is_default_route (map fst gs) \<and> (\<exists>c\<in>set carried. \<not> has_key gs c \<and> text_contains c ip)"

definition host_opened ::
  "acl \<Rightarrow> subject \<Rightarrow> forward_service bmap \<Rightarrow> ip_addr \<Rightarrow> acl_protocol option \<Rightarrow> u16 option \<Rightarrow> bool" where
  "host_opened acl src gs ip protocol port \<longleftrightarrow>
     (\<exists>(name, value)\<in>set (ac_hosts acl). \<exists>host. host_cidr value = Some host \<and> text_contains host ip
        \<and> fs_admits (snd (host_services acl src name)) protocol port
        \<and> (\<exists>prefix\<in>fst ` set gs. \<not> is_default_route prefix \<and> cidr_within host prefix))"

definition host_closed ::
  "acl \<Rightarrow> subject \<Rightarrow> forward_service bmap \<Rightarrow> ip_addr \<Rightarrow> acl_protocol option \<Rightarrow> u16 option \<Rightarrow> bool" where
  "host_closed acl src gs ip protocol port \<longleftrightarrow>
     (\<exists>(name, value)\<in>set (ac_hosts acl). \<exists>host. host_cidr value = Some host \<and> text_contains host ip
        \<and> fs_admits (fst (host_services acl src name)) protocol port
        \<and> (\<exists>prefix\<in>fst ` set gs. cidr_within host prefix))"

definition may_forward :: "acl \<Rightarrow> int \<Rightarrow> router_view \<Rightarrow> client_view \<Rightarrow> bool" where
  "may_forward acl now router client \<longleftrightarrow>
     cv_id client \<noteq> rv_id router \<and> allows acl now (cv_subject client) (rv_subject router)"

lemma matched_simps [simp]:
  "\<not> matched [] src ip protocol port"
  "matched (xs @ ys) src ip protocol port \<longleftrightarrow> matched xs src ip protocol port \<or> matched ys src ip protocol port"
  "matched [r] src ip protocol port \<longleftrightarrow>
     src \<in> set (fr_sources r) \<and> text_contains (fr_destination r) ip \<and> fs_admits (fr_service r) protocol port"
  by (auto simp: matched_def)

lemma matched_concat: "matched (concat rss) src ip protocol port \<longleftrightarrow> (\<exists>rs\<in>set rss. matched rs src ip protocol port)"
  by (auto simp: matched_def)

lemma empty_admits_nothing: "fs_is_empty s \<Longrightarrow> \<not> fs_admits s protocol port"
  by (auto simp: fs_is_empty_def fs_admits_def fs_covers_def split: option.splits acl_protocol.splits)

lemma fs_everything_admits [simp]: "fs_admits fs_everything protocol port"
  by (simp add: fs_admits_def fs_everything_def fs_default_def)

lemma those_map_all:
  assumes "\<And>x. x \<in> set xs \<Longrightarrow> \<exists>y. f x = Some y \<and> P x y"
  shows "\<exists>ys. those (map f xs) = Some ys \<and> list_all2 P xs ys"
  using assms
proof (induction xs)
  case (Cons x xs)
  obtain y where "f x = Some y" "P x y" using Cons.prems [of x] by auto
  moreover obtain ys where "those (map f xs) = Some ys" "list_all2 P xs ys" using Cons.IH Cons.prems by auto
  ultimately show ?case by auto
qed simp

lemma client_entry_simps [simp]:
  "fr_sources (client_entry client d s) = host_addresses (cv_overlay client)"
  "fr_destination (client_entry client d s) = d" "fr_service (client_entry client d s) = s"
  by (simp_all add: client_entry_def)

lemma grant_entries_match:
  "\<exists>rs. grant_entries carried (client_entry client) (prefix, service) = Some rs
     \<and> (\<forall>src ip protocol port. matched rs src ip protocol port \<longleftrightarrow>
          src \<in> set (host_addresses (cv_overlay client)) \<and> route_granted [(prefix, service)] carried ip protocol port)"
proof (cases "is_default_route prefix")
  case True
  from complement_covers [OF this, of carried] obtain parts where parts: "complement prefix carried = Some parts"
    "\<And>ip. (\<exists>part\<in>set parts. text_contains part ip) \<longleftrightarrow>
       text_contains prefix ip \<and> \<not> (\<exists>c\<in>set carried. text_contains c ip)"
    by blast
  have "matched (map (\<lambda>part. client_entry client part service) parts) src ip protocol port \<longleftrightarrow>
      src \<in> set (host_addresses (cv_overlay client)) \<and> (\<exists>part\<in>set parts. text_contains part ip) \<and> fs_admits service protocol port"
    for src ip protocol port
    by (auto simp: matched_def)
  then show ?thesis
    using True unfolding grant_entries_def parts(2) by (auto simp: parts(1) route_granted_def)
next
  case False
  then show ?thesis by (auto simp: grant_entries_def route_granted_def)
qed

lemma host_entries_match:
  fixes acl src gs client
  defines "es \<equiv> map (host_entries acl src gs (client_entry client)) (ac_hosts acl)"
  shows "matched (concat (map fst es)) who ip protocol port \<longleftrightarrow>
      who \<in> set (host_addresses (cv_overlay client)) \<and> host_closed acl src gs ip protocol port"
    and "matched (concat (map snd es)) who ip protocol port \<longleftrightarrow>
      who \<in> set (host_addresses (cv_overlay client)) \<and> host_opened acl src gs ip protocol port"
proof -
  have closed: "matched (fst (host_entries acl src gs (client_entry client) e)) who ip protocol port \<longleftrightarrow>
      who \<in> set (host_addresses (cv_overlay client))
      \<and> (\<exists>host. host_cidr (snd e) = Some host \<and> text_contains host ip
          \<and> fs_admits (fst (host_services acl src (fst e))) protocol port \<and> (\<exists>prefix\<in>fst ` set gs. cidr_within host prefix))"
    for e
    using empty_admits_nothing [of "fst (host_services acl src (fst e))"]
    by (auto simp: host_entries_def Let_def list_ex_iff case_prod_beta split: option.splits prod.splits)
  have opened: "matched (snd (host_entries acl src gs (client_entry client) e)) who ip protocol port \<longleftrightarrow>
      who \<in> set (host_addresses (cv_overlay client))
      \<and> (\<exists>host. host_cidr (snd e) = Some host \<and> text_contains host ip
          \<and> fs_admits (snd (host_services acl src (fst e))) protocol port
          \<and> (\<exists>prefix\<in>fst ` set gs. \<not> is_default_route prefix \<and> cidr_within host prefix))"
    for e
    using empty_admits_nothing [of "snd (host_services acl src (fst e))"]
    by (auto simp: host_entries_def Let_def list_ex_iff case_prod_beta split: option.splits prod.splits)
  show "matched (concat (map fst es)) who ip protocol port \<longleftrightarrow>
      who \<in> set (host_addresses (cv_overlay client)) \<and> host_closed acl src gs ip protocol port"
    unfolding es_def host_closed_def matched_concat set_map bex_simps closed case_prod_unfold by blast
  show "matched (concat (map snd es)) who ip protocol port \<longleftrightarrow>
      who \<in> set (host_addresses (cv_overlay client)) \<and> host_opened acl src gs ip protocol port"
    unfolding es_def host_opened_def matched_concat set_map bex_simps opened case_prod_unfold by blast
qed

lemma granted_entries_match:
  "\<exists>granted. those (map (grant_entries carried (client_entry client)) gs) = Some granted
     \<and> (\<forall>src ip protocol port. matched (concat granted) src ip protocol port \<longleftrightarrow>
          src \<in> set (host_addresses (cv_overlay client)) \<and> route_granted gs carried ip protocol port)"
proof -
  let ?P = "\<lambda>e rs. \<forall>src ip protocol port. matched rs src ip protocol port \<longleftrightarrow>
      src \<in> set (host_addresses (cv_overlay client)) \<and> route_granted [e] carried ip protocol port"
  have "\<exists>granted. those (map (grant_entries carried (client_entry client)) gs) = Some granted \<and> list_all2 ?P gs granted"
    by (rule those_map_all) (metis grant_entries_match prod.collapse)
  then obtain granted where g: "those (map (grant_entries carried (client_entry client)) gs) = Some granted"
    "list_all2 ?P gs granted"
    by (elim exE conjE) (rule that)
  have "matched (concat granted) src ip protocol port \<longleftrightarrow>
      src \<in> set (host_addresses (cv_overlay client)) \<and> route_granted gs carried ip protocol port" for src ip protocol port
    using g(2)
  proof (induction gs granted rule: list_all2_induct)
    case (Cons e gs rs granted)
    have "route_granted (e # gs) carried ip protocol port \<longleftrightarrow>
        route_granted [e] carried ip protocol port \<or> route_granted gs carried ip protocol port"
      by (simp add: route_granted_def)
    with Cons show ?case by auto
  qed (simp add: route_granted_def)
  with g(1) show ?thesis by blast
qed

lemma reserved_entries_match:
  "matched (if list_ex is_default_route (map fst gs)
            then map (\<lambda>prefix. client_entry client prefix fs_everything) (filter (\<lambda>prefix. \<not> has_key gs prefix) carried)
            else []) src ip protocol port \<longleftrightarrow>
     src \<in> set (host_addresses (cv_overlay client)) \<and> route_reserved gs carried ip"
  by (auto simp: matched_def route_reserved_def)

lemma compile_client_matched:
  assumes gs_def: "gs = fwd_grants uuid_text acl dist router client" and carried_def: "carried = carried_prefixes dist router"
  shows "\<exists>flt'. compile_client uuid_text acl now dist router client flt = Some flt'
    \<and> (\<forall>src ip protocol port.
         (matched (ff_allow flt') src ip protocol port \<longleftrightarrow> matched (ff_allow flt) src ip protocol port
            \<or> may_forward acl now router client \<and> src \<in> set (host_addresses (cv_overlay client))
              \<and> (route_granted gs carried ip protocol port \<or> host_opened acl (cv_subject client) gs ip protocol port))
         \<and> (matched (ff_deny flt') src ip protocol port \<longleftrightarrow> matched (ff_deny flt) src ip protocol port
            \<or> may_forward acl now router client \<and> src \<in> set (host_addresses (cv_overlay client))
              \<and> (route_reserved gs carried ip \<or> host_closed acl (cv_subject client) gs ip protocol port)))"
proof (cases "may_forward acl now router client \<and> host_addresses (cv_overlay client) \<noteq> [] \<and> gs \<noteq> []")
  case True
  let ?hosts = "map (host_entries acl (cv_subject client) gs (client_entry client)) (ac_hosts acl)"
  let ?deny = "if list_ex is_default_route (map fst gs)
      then map (\<lambda>prefix. client_entry client prefix fs_everything) (filter (\<lambda>prefix. \<not> has_key gs prefix) carried) else []"
  obtain granted where g: "those (map (grant_entries carried (client_entry client)) gs) = Some granted"
    and m: "\<And>src ip protocol port. matched (concat granted) src ip protocol port \<longleftrightarrow>
          src \<in> set (host_addresses (cv_overlay client)) \<and> route_granted gs carried ip protocol port"
    using granted_entries_match by metis
  have "compile_client uuid_text acl now dist router client flt =
      Some (flt\<lparr>ff_deny := ff_deny flt @ ?deny @ concat (map fst ?hosts),
                ff_allow := ff_allow flt @ concat (map snd ?hosts) @ concat granted\<rparr>)"
    using True g by (simp add: compile_client_def may_forward_def gs_def carried_def Let_def)
  moreover have f: "ff_deny (flt\<lparr>ff_deny := d, ff_allow := a\<rparr>) = d" "ff_allow (flt\<lparr>ff_deny := d, ff_allow := a\<rparr>) = a" for d a
    by simp_all
  ultimately show ?thesis
    using True by (simp only: f reserved_entries_match host_entries_match m matched_simps option.inject simp_thms) blast
next
  case False
  then have "compile_client uuid_text acl now dist router client flt = Some flt"
    by (auto simp: compile_client_def may_forward_def gs_def Let_def)
  moreover have "\<not> route_granted [] carried ip protocol port" "\<not> route_reserved [] carried ip"
    "\<not> host_opened acl s [] ip protocol port" "\<not> host_closed acl s [] ip protocol port" for ip protocol port s
    by (simp_all add: route_granted_def route_reserved_def host_opened_def host_closed_def case_prod_beta)
  ultimately show ?thesis using False by auto
qed

text \<open>
  C8. A client's part of the forward filter means what the comments promise. Compiling a client
  always ends and only adds entries; afterwards an address of the client is allowed to an address
  and service exactly when policy lets the client reach the router and either a granted prefix
  contains the address (the default route only around every carried prefix) or a rule that names a
  host opens it inside a privately granted prefix; it is denied exactly when a rule closes a named
  host inside a granted prefix, or when the client uses the router as its exit and the address lies
  in a carried prefix it was not granted.
\<close>

theorem compile_client_exact:
  "let gs = fwd_grants uuid_text acl dist router client; carried = carried_prefixes dist router in
   \<exists>flt'. compile_client uuid_text acl now dist router client flt = Some flt'
    \<and> (\<forall>src ip protocol port.
         (matched (ff_allow flt') src ip protocol port \<longleftrightarrow> matched (ff_allow flt) src ip protocol port
            \<or> may_forward acl now router client \<and> src \<in> set (host_addresses (cv_overlay client))
              \<and> (route_granted gs carried ip protocol port \<or> host_opened acl (cv_subject client) gs ip protocol port))
         \<and> (matched (ff_deny flt') src ip protocol port \<longleftrightarrow> matched (ff_deny flt) src ip protocol port
            \<or> may_forward acl now router client \<and> src \<in> set (host_addresses (cv_overlay client))
              \<and> (route_reserved gs carried ip \<or> host_closed acl (cv_subject client) gs ip protocol port)))"
  unfolding Let_def by (rule compile_client_matched [OF refl refl])

subsection \<open>An exit router that is also a resource's routing peer\<close>

lemma has_key_keys: "has_key m k \<longleftrightarrow> k \<in> fst ` set m"
  unfolding has_key_def by (simp add: map_of_eq_None_iff)

lemma fwd_grants_keys:
  "fst ` set (fwd_grants u acl dist router client) =
     {route \<in> set (rv_approved router). \<not> is_default_route route \<or> selected_by u router (cv_exit_request client)}
     \<union> set (routes_via dist (rv_id router) (cv_id client) (cv_subject client) acl (selected_by u router (cv_exit_request client)))"
proof -
  have own: "fst ` set (foldl (\<lambda>m route. if P route then bm_put route v m else m) m rs) =
      fst ` set m \<union> {route \<in> set rs. P route}" for P v rs and m :: "forward_service bmap"
  proof (induction rs arbitrary: m)
    case (Cons r rs)
    show ?case unfolding foldl_Cons Cons.IH by auto
  qed simp
  have more: "fst ` set (foldl (\<lambda>m (cidr, service). bm_put cidr (f m cidr service) m) m gs) = fst ` set m \<union> fst ` set gs"
    for f gs and m :: "forward_service bmap"
    by (induction gs arbitrary: m) (simp_all add: case_prod_beta)
  show ?thesis unfolding fwd_grants_def Let_def own more routes_via_def by simp
qed

definition cidr_text :: "ip_addr \<Rightarrow> nat \<Rightarrow> string" where
  "cidr_text ip n = show_ip ip @ ''/'' @ show_nat 10 n"

definition site_router :: router_view where
  "site_router = \<lparr>rv_id = 7, rv_name = ''gw'', rv_dns_name = ''gw.example'', rv_subject = subject_new Member [],
     rv_approved = [''0.0.0.0/0''], rv_advertised = [''0.0.0.0/0'', cidr_text (V4 0x0A010000) 16]\<rparr>"

definition site_dist :: distribution where
  "site_dist = \<lparr>di_routes = [\<lparr>rt_cidr = cidr_text (V4 0x0A010200) 24, rt_router = 7, rt_routing_peers = [7],
       rt_access = \<lparr>ra_roles = [Member], ra_tags = [], ra_groups = []\<rparr>, rt_service = fs_everything\<rparr>],
     di_reserved = [(cidr_text (V4 0x0A010200) 24, [7])]\<rparr>"

definition site_client :: "string option \<Rightarrow> client_view" where
  "site_client exit = \<lparr>cv_id = 9, cv_subject = subject_new Member [], cv_overlay = [cidr_text (V4 0x64400009) 32],
     cv_exit_request = exit\<rparr>"

lemma site_texts:
  "parse_cidr (cidr_text (V4 0x0A010000) 16) = Inr (V4 0x0A010000, 16)"
  "parse_cidr (cidr_text (V4 0x0A010200) 24) = Inr (V4 0x0A010200, 24)"
  "parse_cidr (cidr_text (V4 0x64400009) 32) = Inr (V4 0x64400009, 32)"
proof -
  have "(0x0A010000 :: u32) AND NOT (mask 16) = 0x0A010000" "(0x0A010200 :: u32) AND NOT (mask 8) = 0x0A010200"
    by code_simp+
  then show "parse_cidr (cidr_text (V4 0x0A010000) 16) = Inr (V4 0x0A010000, 16)"
    "parse_cidr (cidr_text (V4 0x0A010200) 24) = Inr (V4 0x0A010200, 24)"
    "parse_cidr (cidr_text (V4 0x64400009) 32) = Inr (V4 0x64400009, 32)"
    using parse_cidr_show [of 16 "V4 0x0A010000"] parse_cidr_show [of 24 "V4 0x0A010200"] parse_cidr_show [of 32 "V4 0x64400009"]
    by (simp_all add: mask_addr_def mask32_def cidr_text_def)
qed

lemma site_distinct:
  "cidr_text (V4 0x0A010000) 16 \<noteq> cidr_text (V4 0x0A010200) 24"
  "cidr_text (V4 0x0A010000) 16 \<noteq> ''0.0.0.0/0''" "cidr_text (V4 0x0A010200) 24 \<noteq> ''0.0.0.0/0''"
  "cidr_text (V4 0x0A010000) 16 \<noteq> ''::/0''" "cidr_text (V4 0x0A010200) 24 \<noteq> ''::/0''"
  using site_texts default_routes_parse by auto

lemma site_keys:
  "fst ` set (fwd_grants u acl_default site_dist site_router (site_client None)) = {cidr_text (V4 0x0A010200) 24}"
  "fst ` set (fwd_grants u acl_default site_dist site_router (site_client (Some ''gw''))) =
     {cidr_text (V4 0x0A010200) 24, ''0.0.0.0/0''}"
  using site_distinct
  by (auto simp: fwd_grants_keys routes_via_def grants_via_def site_dist_def site_router_def site_client_def selected_by_def
      is_default_route_def access_matches_def subject_new_def)

lemma site_carried:
  "set (carried_prefixes site_dist site_router) = {cidr_text (V4 0x0A010000) 16, cidr_text (V4 0x0A010200) 24}"
  using site_distinct
  by (auto simp: carried_prefixes_def site_router_def site_dist_def reserved_for_def carried_by_def is_default_route_def)

lemma default_allows: "allows acl_default now (subject_new Member []) (subject_new Member [])"
  by (simp add: allows_def peer_ingress_for_def ssh_grant_def ssh_scan_all_def ssh_open_def ssh_governed_def policy_eval
      implicit_default_allows_def ingress_default_def)

lemma site_contains:
  "text_contains (cidr_text (V4 0x0A010000) 16) (V4 0x0A010205)" "text_contains (cidr_text (V4 0x0A010200) 24) (V4 0x0A010205)"
proof -
  have "(0x0A010205 :: u32) AND NOT (mask 16) = 0x0A010000" "(0x0A010000 :: u32) AND NOT (mask 16) = 0x0A010000"
    "(0x0A010205 :: u32) AND NOT (mask 8) = 0x0A010200" "(0x0A010200 :: u32) AND NOT (mask 8) = 0x0A010200"
    by code_simp+
  then show "text_contains (cidr_text (V4 0x0A010000) 16) (V4 0x0A010205)"
    "text_contains (cidr_text (V4 0x0A010200) 24) (V4 0x0A010205)"
    by (simp_all add: text_contains_def site_texts cidr_contains_def mask32_def)
qed

lemma site_forwards:
  "may_forward acl_default now site_router (site_client exit)"
  "host_addresses (cv_overlay (site_client exit)) = [cidr_text (V4 0x64400009) 32]"
  "cv_subject (site_client exit) = subject_new Member []" "ac_hosts acl_default = []"
  using default_allows
  by (simp_all add: may_forward_def site_router_def site_client_def host_addresses_def site_texts acl_default_def)

lemma site_grant_service:
  "fwd_grants u acl_default site_dist site_router (site_client None) = [(cidr_text (V4 0x0A010200) 24, fs_everything)]"
  using site_distinct
  by (simp add: fwd_grants_def site_dist_def site_router_def site_client_def selected_by_def is_default_route_def
      grants_via_def access_matches_def subject_new_def fs_merge_def fs_everything_def fs_default_def)


end
