(* ===== verification/Forward_Plan.thy ===== *)
theory Forward_Plan
  imports Agent_Filter Forwarding
begin

section \<open>The router's forward chain (\<open>blaktaild/src/forward_filter.rs\<close>)\<close>

text \<open>
  A Linux router turns the coordinator's forward filter into rule bodies for two address families
  (\<open>plan\<close>) and swaps them in under a staging name (\<open>install\<close>). The reader of the rules is the
  parameter \<open>reads\<close> of the overlay chain; the program that runs a command is the parameter
  \<open>run\<close>, a function from the state of the host's tables. The lemmas show what the plan lets
  through, and that the swap never leaves the forward hook without one of the two rule sets.
\<close>

record fwd_entry =
  fe_client :: string
  fe_sources :: "string list"
  fe_destination :: string
  fe_all :: bool
  fe_tcp :: "string list"
  fe_udp :: "string list"
  fe_icmp :: bool

record agent_forward =
  af_deny :: "fwd_entry list"
  af_allow :: "fwd_entry list"

definition adopt :: "agent_forward option \<Rightarrow> agent_forward option \<Rightarrow> agent_forward option" where
  "adopt current incoming = (if incoming \<noteq> None then incoming else current)"

record forward_plan =
  pl_ipv4 :: "ipt_rule list"
  pl_ipv6 :: "ipt_rule list"

definition fwd_parse :: "string \<Rightarrow> bool \<Rightarrow> (ip_addr \<times> u8) option" where
  "fwd_parse text_form host_only =
     (let parsed =
        (case split_once (CHR ''/'') text_form of
           Some (address, prefix) \<Rightarrow>
             (case parse_ip address of
                None \<Rightarrow> None
              | Some address \<Rightarrow> map_option (\<lambda>prefix. (address, prefix)) (parse_u8 prefix))
         | None \<Rightarrow> map_option (\<lambda>address. (address, if is_ipv4 address then 32 else 128)) (parse_ip text_form))
      in case parsed of
           None \<Rightarrow> None
         | Some (address, prefix) \<Rightarrow>
             (let top = (if is_ipv4 address then 32 else 128)
              in if prefix > top \<or> (host_only \<and> prefix \<noteq> top) then None else Some (address, prefix)))"

definition fwd_reject_with :: "bool \<Rightarrow> bool \<Rightarrow> string" where
  "fwd_reject_with ipv6 tcp =
     (if tcp then ''tcp-reset'' else if ipv6 then ''icmp6-port-unreachable'' else ''icmp-port-unreachable'')"

text \<open>The words \<open>verdict\<close> adds to a rule.\<close>

definition fwd_verdict :: "bool \<Rightarrow> bool \<Rightarrow> bool \<Rightarrow> ipt_rule" where
  "fwd_verdict accept ipv6 tcp =
     [''-j'', if accept then ''ACCEPT'' else ''REJECT'']
     @ (if \<not> accept then [''--reject-with'', fwd_reject_with ipv6 tcp] else [])"

definition fwd_port :: "bool \<Rightarrow> string \<Rightarrow> string option" where
  "fwd_port accept spec =
     (case iptables_port spec of Some port \<Rightarrow> Some port | None \<Rightarrow> if accept then None else Some ''1:65535'')"

definition service_rules :: "fwd_entry \<Rightarrow> bool \<Rightarrow> bool \<Rightarrow> ipt_rule \<Rightarrow> ipt_rule list" where
  "service_rules entry accept ipv6 base =
     (if fe_all entry then [base @ fwd_verdict accept ipv6 False]
      else concat (map (\<lambda>(protocol, specs).
             map (\<lambda>port. base @ [''-p'', protocol, ''--dport'', port] @ fwd_verdict accept ipv6 (protocol = ''tcp''))
               (List.map_filter (fwd_port accept) specs))
             [(''tcp'', fe_tcp entry), (''udp'', fe_udp entry)])
           @ (if fe_icmp entry
              then [base @ [''-p'', if ipv6 then ''icmpv6'' else ''icmp''] @ fwd_verdict accept ipv6 False] else []))"

definition append_source :: "fwd_entry \<Rightarrow> bool \<Rightarrow> ip_addr \<times> u8 \<Rightarrow> forward_plan \<Rightarrow> string \<Rightarrow> forward_plan" where
  "append_source entry accept = (\<lambda>(network, prefix) out source.
     case fwd_parse (str_trim source) True of
       None \<Rightarrow> out
     | Some (address, _) \<Rightarrow>
         if is_ipv4 address \<noteq> is_ipv4 network then out
         else let rules = service_rules entry accept (is_ipv6 address)
                [''-s'', show_ip address, ''-d'', show_ip network @ ''/'' @ show_nat 10 (unat prefix)]
              in if is_ipv6 address then out\<lparr>pl_ipv6 := pl_ipv6 out @ rules\<rparr> else out\<lparr>pl_ipv4 := pl_ipv4 out @ rules\<rparr>)"

definition append_rules :: "forward_plan \<Rightarrow> fwd_entry \<Rightarrow> bool \<Rightarrow> forward_plan" where
  "append_rules out entry accept =
     (case fwd_parse (str_trim (fe_destination entry)) False of
        None \<Rightarrow> out
      | Some destination \<Rightarrow> foldl (append_source entry accept destination) out (fe_sources entry))"

definition fwd_established :: ipt_rule where
  "fwd_established = [''-m'', ''conntrack'', ''--ctstate'', ''RELATED,ESTABLISHED'', ''-j'', ''ACCEPT'']"

definition fwd_final :: "bool \<Rightarrow> ipt_rule list" where
  "fwd_final ipv6 =
     [[''-p'', ''tcp'', ''-j'', ''REJECT'', ''--reject-with'', ''tcp-reset''],
      [''-j'', ''REJECT'', ''--reject-with'', fwd_reject_with ipv6 False]]"

definition plan :: "agent_forward \<Rightarrow> forward_plan" where
  "plan flt =
     (let out = \<lparr>pl_ipv4 = [fwd_established], pl_ipv6 = [fwd_established]\<rparr>;
          out = foldl (\<lambda>out entry. append_rules out entry False) out (af_deny flt);
          out = foldl (\<lambda>out entry. append_rules out entry True) out (af_allow flt)
      in \<lparr>pl_ipv4 = pl_ipv4 out @ fwd_final False, pl_ipv6 = pl_ipv6 out @ fwd_final True\<rparr>)"

subsection \<open>What one entry's rules read\<close>

text \<open>The service an entry names; an unreadable port of a denial stands for every port.\<close>

definition entry_ports :: "bool \<Rightarrow> string list \<Rightarrow> u16 \<Rightarrow> bool" where
  "entry_ports accept specs port \<longleftrightarrow>
     listed specs port \<or> \<not> accept \<and> port \<noteq> 0 \<and> (\<exists>spec\<in>set specs. port_range spec = None)"

definition entry_service :: "bool \<Rightarrow> fwd_entry \<Rightarrow> u8 \<Rightarrow> u16 \<Rightarrow> bool" where
  "entry_service accept e p port \<longleftrightarrow>
     fe_all e \<or> p = TCP \<and> entry_ports accept (fe_tcp e) port \<or> p = UDP \<and> entry_ports accept (fe_udp e) port
     \<or> is_icmp p \<and> fe_icmp e"

definition entry_from :: "fwd_entry \<Rightarrow> ip_addr \<Rightarrow> bool" where
  "entry_from e src \<longleftrightarrow> (\<exists>source\<in>set (fe_sources e). map_option fst (fwd_parse (str_trim source) True) = Some src)"

definition entry_to :: "fwd_entry \<Rightarrow> ip_addr \<Rightarrow> bool" where
  "entry_to e dst =
     (case fwd_parse (str_trim (fe_destination e)) False of
        None \<Rightarrow> False | Some (network, prefix) \<Rightarrow> prefix_contains \<lparr>px_network = network, px_bits = prefix\<rparr> dst)"

definition entry_matches :: "bool \<Rightarrow> fwd_entry \<Rightarrow> ct_packet \<Rightarrow> bool" where
  "entry_matches accept e p \<longleftrightarrow>
     entry_from e (ct_src p) \<and> entry_to e (ct_dst p) \<and> entry_service accept e (ct_proto p) (ct_dport p)"

lemma fwd_parse_bound: "fwd_parse s h = Some (ip, n) \<Longrightarrow> unat n \<le> (if is_ipv4 ip then 32 else 128)"
  by (auto simp: fwd_parse_def Let_def word_less_nat_alt split: option.splits prod.splits if_splits)

lemma fwd_port_range: "fwd_port accept spec = map_option port_arg
    (case port_range spec of Some rg \<Rightarrow> Some rg | None \<Rightarrow> if accept then None else Some (1, 65535))"
  by (auto simp: fwd_port_def iptables_port_range show_all_ports split: option.splits)

lemma fwd_ports_read:
  assumes "\<And>a b. a \<le> b \<Longrightarrow> M (port_arg (a, b)) \<longleftrightarrow> C \<and> in_range (a, b) port"
  shows "(\<exists>arg\<in>set (List.map_filter (fwd_port accept) specs). M arg) \<longleftrightarrow> C \<and> entry_ports accept specs port"
proof -
  have all: "in_range (1, 65535) port \<longleftrightarrow> port \<noteq> 0"
    using word_le_nat_alt [of port 65535] unsigned_less [of port, where ?'a = nat]
    by (auto simp: in_range_def word_le_nat_alt unat_eq_0 Suc_le_eq unat_gt_0)
  have one: "M arg \<longleftrightarrow> C \<and> in_range rg port" if "port_range spec = Some rg" "arg = port_arg rg" for spec arg rg
    using that assms port_range_bounds [of spec] by (cases rg) auto
  have every: "M (port_arg (1, 65535)) \<longleftrightarrow> C \<and> port \<noteq> 0" using assms [of 1 65535] all by (simp add: word_le_nat_alt)
  have spec: "(\<exists>arg. fwd_port accept spec = Some arg \<and> M arg) \<longleftrightarrow>
      C \<and> (case port_range spec of Some rg \<Rightarrow> in_range rg port | None \<Rightarrow> \<not> accept \<and> port \<noteq> 0)" for spec
    unfolding fwd_port_range using one [of spec] every by (cases "port_range spec") auto
  have "entry_ports accept specs port \<longleftrightarrow>
      (\<exists>spec\<in>set specs. case port_range spec of Some rg \<Rightarrow> in_range rg port | None \<Rightarrow> \<not> accept \<and> port \<noteq> 0)"
  proof -
    have "(case port_range spec of Some rg \<Rightarrow> in_range rg port | None \<Rightarrow> \<not> accept \<and> port \<noteq> 0) \<longleftrightarrow>
        (\<exists>rg. port_range spec = Some rg \<and> in_range rg port) \<or> \<not> accept \<and> port \<noteq> 0 \<and> port_range spec = None" for spec
      by (cases "port_range spec") simp_all
    moreover have "listed specs port \<longleftrightarrow> (\<exists>spec\<in>set specs. \<exists>rg. port_range spec = Some rg \<and> in_range rg port)"
      unfolding listed_def Bex_def map_filter_mem by blast
    ultimately show ?thesis unfolding entry_ports_def by blast
  qed
  moreover have "(\<exists>arg\<in>set (List.map_filter (fwd_port accept) specs). M arg) \<longleftrightarrow>
      (\<exists>spec\<in>set specs. \<exists>arg. fwd_port accept spec = Some arg \<and> M arg)"
    unfolding Bex_def map_filter_mem by blast
  ultimately show ?thesis unfolding spec by simp
qed

lemma fwd_verdict_read:
  assumes "documented_reads reads"
  shows "reads (fwd_verdict accept ipv6 tcp) p" "jump_target (fwd_verdict accept ipv6 tcp) = Some (target_word accept)"
  using documented_readsD(1) [OF assms] by (simp_all add: fwd_verdict_def target_word_def)

text \<open>The common head of the rules of one source and destination.\<close>

definition rule_head :: "ip_addr \<Rightarrow> ip_addr \<Rightarrow> nat \<Rightarrow> ipt_rule" where
  "rule_head address network n = [''-s'', show_ip address, ''-d'', show_ip network @ ''/'' @ show_nat 10 n]"

lemma rule_head_read:
  assumes "documented_reads reads" "n \<le> (if is_ipv4 network then 32 else 128)"
  shows "reads (rule_head address network n @ r) p \<longleftrightarrow>
      ct_src p = address \<and> prefix_contains \<lparr>px_network = network, px_bits = word_of_nat n\<rparr> (ct_dst p) \<and> reads r p"
  using documented_readsD(3) [OF assms(1)] documented_readsD(4) [OF assms(1,2)] by (simp add: rule_head_def)

lemma text_not_jump: "show_ip ip @ ''/'' @ s \<noteq> ''-j''"
proof
  assume "show_ip ip @ ''/'' @ s = ''-j''"
  then have "CHR ''/'' \<in> set ''-j''" by (metis in_set_conv_decomp append.assoc append_Cons append_Nil)
  then show False by simp
qed

lemma rule_head_jump: "jump_target (rule_head address network n @ r) = jump_target r" if "r \<noteq> []"
  using that text_not_jump [of network] show_not_jump(1) [of address] by (cases r) (simp_all add: rule_head_def)

lemma service_rules_targets:
  assumes "documented_reads reads" "rule \<in> set (service_rules e accept ipv6 (rule_head address network n))"
  shows "jump_target rule = Some (target_word accept)"
proof -
  note v = fwd_verdict_read(2) [OF assms(1)]
  have ne: "fwd_verdict accept v t \<noteq> []" for v t by (simp add: fwd_verdict_def)
  have step: "jump_target (''-p'' # q # w # port # fwd_verdict accept v t) = Some (target_word accept)"
    if "q \<noteq> ''-j''" "w \<noteq> ''-j''" "port \<noteq> ''-j''" for q w port v t
    using that v [of accept v t] ne [of v t] by (cases "fwd_verdict accept v t") auto
  have icmp: "jump_target (''-p'' # q # fwd_verdict accept v t) = Some (target_word accept)" if "q \<noteq> ''-j''" for q v t
    using that v [of accept v t] ne [of v t] by (cases "fwd_verdict accept v t") auto
  have port: "arg \<noteq> ''-j''" if "arg \<in> set (List.map_filter (fwd_port accept) specs)" for arg specs
    using that show_not_jump(2) unfolding map_filter_mem fwd_port_range by auto
  from assms(2) consider
      "rule = rule_head address network n @ fwd_verdict accept ipv6 False"
    | q arg specs t where "q \<in> {''tcp'', ''udp''}" "arg \<in> set (List.map_filter (fwd_port accept) specs)"
        "rule = rule_head address network n @ [''-p'', q, ''--dport'', arg] @ fwd_verdict accept ipv6 t"
    | q where "q \<in> {''icmp'', ''icmpv6''}" "rule = rule_head address network n @ [''-p'', q] @ fwd_verdict accept ipv6 False"
    unfolding service_rules_def by (auto split: if_splits)
  then show ?thesis
  proof cases
    case 1
    then show ?thesis using rule_head_jump ne v by simp
  next
    case 2
    then show ?thesis using rule_head_jump step [of q "''--dport''" arg] port by auto
  next
    case 3
    then show ?thesis using rule_head_jump icmp [of q] by auto
  qed
qed

lemma service_rules_read:
  assumes d: "documented_reads reads" and fam: "family_ok p"
    and n: "n \<le> (if is_ipv4 network then 32 else 128)"
  shows "(\<exists>rule\<in>set (service_rules e accept (is_ipv6 address) (rule_head address network n)). reads rule p) \<longleftrightarrow>
    ct_src p = address \<and> prefix_contains \<lparr>px_network = network, px_bits = word_of_nat n\<rparr> (ct_dst p)
      \<and> entry_service accept e (ct_proto p) (ct_dport p)"
proof -
  let ?head = "rule_head address network n"
  define H where "H \<longleftrightarrow> ct_src p = address \<and> prefix_contains \<lparr>px_network = network, px_bits = word_of_nat n\<rparr> (ct_dst p)"
  have head: "reads (?head @ r) p \<longleftrightarrow> H \<and> reads r p" for r using rule_head_read [OF d n] by (simp add: H_def)
  note v = fwd_verdict_read(1) [OF d] and r = documented_readsD [OF d]
  have ports: "(\<exists>arg\<in>set (List.map_filter (fwd_port accept) specs).
        reads (?head @ [''-p'', q, ''--dport'', arg] @ fwd_verdict accept v6 t) p) \<longleftrightarrow>
      H \<and> ct_proto p = k \<and> entry_ports accept specs (ct_dport p)"
    if "q = ''tcp'' \<and> k = TCP \<or> q = ''udp'' \<and> k = UDP" for q k specs v6 t
  proof -
    have "reads (?head @ [''-p'', q, ''--dport'', port_arg (a, b)] @ fwd_verdict accept v6 t) p \<longleftrightarrow>
        (H \<and> ct_proto p = k) \<and> in_range (a, b) (ct_dport p)" if "a \<le> b" for a b
      using \<open>q = ''tcp'' \<and> k = TCP \<or> q = ''udp'' \<and> k = UDP\<close> that v r(5,6,9) by (auto simp: head)
    from fwd_ports_read [OF this] show ?thesis by simp
  qed
  have icmp: "reads (?head @ [''-p'', if is_ipv6 address then ''icmpv6'' else ''icmp''] @ fwd_verdict accept v6 t) p \<longleftrightarrow>
      H \<and> is_icmp (ct_proto p)" for v6 t
    using fam v r(7,8) by (auto simp: head family_ok_def is_icmp_def H_def)
  have every: "reads (?head @ fwd_verdict accept v6 t) p \<longleftrightarrow> H" for v6 t using v by (simp add: head)
  show ?thesis
  proof (cases "fe_all e")
    case True
    then show ?thesis using every by (simp add: service_rules_def entry_service_def H_def)
  next
    case False
    have "(\<exists>rule\<in>set (service_rules e accept (is_ipv6 address) ?head). reads rule p) \<longleftrightarrow>
        (\<exists>arg\<in>set (List.map_filter (fwd_port accept) (fe_tcp e)).
           reads (?head @ [''-p'', ''tcp'', ''--dport'', arg] @ fwd_verdict accept (is_ipv6 address) True) p)
        \<or> (\<exists>arg\<in>set (List.map_filter (fwd_port accept) (fe_udp e)).
           reads (?head @ [''-p'', ''udp'', ''--dport'', arg] @ fwd_verdict accept (is_ipv6 address) False) p)
        \<or> fe_icmp e \<and> reads (?head @ [''-p'', if is_ipv6 address then ''icmpv6'' else ''icmp'']
             @ fwd_verdict accept (is_ipv6 address) False) p"
      using False unfolding service_rules_def by (simp add: bex_Un image_iff)
    then show ?thesis
      unfolding ports [OF disjI1, OF conjI, OF refl refl] ports [OF disjI2, OF conjI, OF refl refl] icmp
      using False by (auto simp: entry_service_def H_def)
  qed
qed

subsection \<open>What the plan lets through\<close>

definition source_block :: "fwd_entry \<Rightarrow> bool \<Rightarrow> bool \<Rightarrow> ip_addr \<times> u8 \<Rightarrow> string \<Rightarrow> ipt_rule list" where
  "source_block e accept ipv6 = (\<lambda>(network, prefix) source.
     case fwd_parse (str_trim source) True of
       None \<Rightarrow> []
     | Some (address, _) \<Rightarrow>
         if is_ipv6 address = ipv6 \<and> is_ipv4 address = is_ipv4 network
         then service_rules e accept (is_ipv6 address) (rule_head address network (unat prefix)) else [])"

definition entry_block :: "bool \<Rightarrow> bool \<Rightarrow> fwd_entry \<Rightarrow> ipt_rule list" where
  "entry_block accept ipv6 e =
     (case fwd_parse (str_trim (fe_destination e)) False of
        None \<Rightarrow> [] | Some destination \<Rightarrow> concat (map (source_block e accept ipv6 destination) (fe_sources e)))"

lemma append_sources_block:
  "foldl (append_source e accept destination) out sources =
     \<lparr>pl_ipv4 = pl_ipv4 out @ concat (map (source_block e accept False destination) sources),
      pl_ipv6 = pl_ipv6 out @ concat (map (source_block e accept True destination) sources)\<rparr>"
proof (induction sources arbitrary: out)
  case (Cons source sources)
  have "append_source e accept destination out source =
     \<lparr>pl_ipv4 = pl_ipv4 out @ source_block e accept False destination source,
      pl_ipv6 = pl_ipv6 out @ source_block e accept True destination source\<rparr>"
    by (auto simp: append_source_def source_block_def rule_head_def split: option.splits prod.splits)
  then show ?case by (simp add: Cons)
qed simp

lemma append_rules_block:
  "append_rules out e accept =
     \<lparr>pl_ipv4 = pl_ipv4 out @ entry_block accept False e, pl_ipv6 = pl_ipv6 out @ entry_block accept True e\<rparr>"
  by (cases "fwd_parse (str_trim (fe_destination e)) False")
     (simp_all add: append_rules_def entry_block_def append_sources_block)

lemma append_entries_blocks:
  "foldl (\<lambda>out e. append_rules out e accept) out es =
     \<lparr>pl_ipv4 = pl_ipv4 out @ concat (map (entry_block accept False) es),
      pl_ipv6 = pl_ipv6 out @ concat (map (entry_block accept True) es)\<rparr>"
  by (induction es arbitrary: out) (simp_all add: append_rules_block)

lemma entry_block_read:
  assumes d: "documented_reads reads" and "family_ok p" and same: "is_ipv4 (ct_src p) = is_ipv4 (ct_dst p)"
  shows "(\<exists>rule\<in>set (entry_block accept (is_ipv6 (ct_src p)) e). reads rule p) \<longleftrightarrow> entry_matches accept e p"
proof (cases "fwd_parse (str_trim (fe_destination e)) False")
  case (Some destination)
  obtain network prefix where dest: "destination = (network, prefix)" by (cases destination)
  have bound: "unat prefix \<le> (if is_ipv4 network then 32 else 128)" using fwd_parse_bound Some dest by blast
  have fam: "prefix_contains \<lparr>px_network = network, px_bits = prefix\<rparr> (ct_dst p) \<Longrightarrow> is_ipv4 (ct_src p) = is_ipv4 network"
    using same by (auto simp: prefix_contains_def split: ip_addr.splits)
  have "(\<exists>rule\<in>set (source_block e accept (is_ipv6 (ct_src p)) destination source). reads rule p) \<longleftrightarrow>
      map_option fst (fwd_parse (str_trim source) True) = Some (ct_src p)
      \<and> prefix_contains \<lparr>px_network = network, px_bits = prefix\<rparr> (ct_dst p)
      \<and> entry_service accept e (ct_proto p) (ct_dport p)" for source
  proof (cases "fwd_parse (str_trim source) True")
    case (Some parsed)
    then show ?thesis
      using service_rules_read [OF d assms(2) bound, of e accept "fst parsed"] fam
      by (cases parsed) (auto simp: source_block_def dest)
  qed (simp add: source_block_def dest)
  then show ?thesis
    using Some by (auto simp: entry_block_def entry_matches_def entry_from_def entry_to_def dest)
qed (simp add: entry_block_def entry_matches_def entry_to_def)

lemma entry_block_targets:
  assumes "documented_reads reads" "rule \<in> set (entry_block accept ipv6 e)"
  shows "jump_target rule = Some (target_word accept)"
  using assms(2) service_rules_targets [OF assms(1)]
  by (fastforce simp: entry_block_def source_block_def split: option.splits if_splits)

definition forward_chain :: "forward_plan \<Rightarrow> ct_packet \<Rightarrow> ipt_rule list" where
  "forward_chain pl p = (if is_ipv6 (ct_src p) then pl_ipv6 pl else pl_ipv4 pl)"

lemma chain_verdict_uniform:
  assumes "\<And>rule. rule \<in> set rules \<Longrightarrow> jump_target rule = Some t"
  shows "chain_verdict reads (rules @ rest) p =
    (if \<exists>rule\<in>set rules. reads rule p then Some t else chain_verdict reads rest p)"
  using assms by (induction rules) auto

lemma forward_plan_verdict:
  assumes d: "documented_reads reads" and "family_ok p" "is_ipv4 (ct_src p) = is_ipv4 (ct_dst p)"
  shows "chain_verdict reads (forward_chain (plan flt) p) p =
    Some (target_word (ct_established p
      \<or> (\<exists>e\<in>set (af_allow flt). entry_matches True e p) \<and> \<not> (\<exists>e\<in>set (af_deny flt). entry_matches False e p)))"
proof -
  let ?v6 = "is_ipv6 (ct_src p)"
  let ?blocks = "\<lambda>accept es. concat (map (entry_block accept ?v6) es)"
  have chain: "forward_chain (plan flt) p =
      [fwd_established] @ ?blocks False (af_deny flt) @ ?blocks True (af_allow flt) @ fwd_final ?v6"
    by (cases "ct_src p") (simp_all add: forward_chain_def plan_def append_entries_blocks)
  have block: "chain_verdict reads (?blocks accept es @ rest) p =
      (if \<exists>e\<in>set es. entry_matches accept e p then Some (target_word accept) else chain_verdict reads rest p)" for accept es rest
  proof -
    have "(\<exists>rule\<in>set (?blocks accept es). reads rule p) \<longleftrightarrow> (\<exists>e\<in>set es. entry_matches accept e p)"
      using entry_block_read [OF assms] by auto
    moreover have "jump_target rule = Some (target_word accept)" if "rule \<in> set (?blocks accept es)" for rule
      using that entry_block_targets [OF d] by auto
    ultimately show ?thesis using chain_verdict_uniform [of "?blocks accept es"] by simp
  qed
  have "chain_verdict reads (fwd_final v6) p = Some ''REJECT''" "reads fwd_established p \<longleftrightarrow> ct_established p"
    "jump_target fwd_established = Some ''ACCEPT''" for v6
    using documented_readsD [OF d] by (simp_all add: fwd_final_def fwd_established_def)
  then show ?thesis unfolding chain by (simp add: block target_word_def)
qed

subsection \<open>The coordinator's filter on the router\<close>

text \<open>The entry as it arrives: the same fields, the identifier as text.\<close>

definition wire_entry :: "(uuid \<Rightarrow> string) \<Rightarrow> forward_rule \<Rightarrow> fwd_entry" where
  "wire_entry uuid_text r =
     \<lparr>fe_client = uuid_text (fr_client r), fe_sources = fr_sources r, fe_destination = fr_destination r,
      fe_all = fs_all (fr_service r), fe_tcp = fs_tcp (fr_service r), fe_udp = fs_udp (fr_service r),
      fe_icmp = fs_icmp (fr_service r)\<rparr>"

definition wire_filter :: "(uuid \<Rightarrow> string) \<Rightarrow> forward_filter \<Rightarrow> agent_forward" where
  "wire_filter uuid_text flt =
     \<lparr>af_deny = map (wire_entry uuid_text) (ff_deny flt), af_allow = map (wire_entry uuid_text) (ff_allow flt)\<rparr>"

definition host_text :: "ip_addr \<Rightarrow> string" where
  "host_text ip = cidr_text ip (family_bits (is_ipv4 ip))"

definition canonical_text :: "string \<Rightarrow> bool" where
  "canonical_text t \<longleftrightarrow> (\<exists>ip n. n \<le> family_bits (is_ipv4 ip) \<and> t = cidr_text ip n)"

text \<open>Texts as the coordinator prints them, and port lists it has validated.\<close>

definition rule_wf :: "forward_rule \<Rightarrow> bool" where
  "rule_wf r \<longleftrightarrow>
     canonical_text (fr_destination r) \<and> (\<forall>source\<in>set (fr_sources r). (\<exists>ip. source = host_text ip))
     \<and> (\<forall>spec\<in>set (fs_tcp (fr_service r) @ fs_udp (fr_service r)). port_range spec \<noteq> None)"

definition flow_of :: "ct_packet \<Rightarrow> (acl_protocol option \<times> u16 option) option" where
  "flow_of p =
     (if ct_proto p = TCP then Some (Some Tcp, Some (ct_dport p))
      else if ct_proto p = UDP then Some (Some Udp, Some (ct_dport p))
      else if is_icmp (ct_proto p) then Some (Some Icmp, None) else None)"

lemma cidr_text_trim: "str_trim (cidr_text ip n) = cidr_text ip n"
proof (rule str_trim_id)
  have "last (cidr_text ip n) = last (show_nat 10 n)" "hd (cidr_text ip n) = hd (show_ip ip)"
    using show_ip_nonempty [of ip] by (simp_all add: cidr_text_def last_append)
  then show "cidr_text ip n = [] \<or> printing (hd (cidr_text ip n)) \<and> printing (last (cidr_text ip n))"
    using show_ip_chars [of "hd (show_ip ip)" ip] show_ip_nonempty [of ip] show_decimal_chars [of "last (show_nat 10 n)" n]
    by simp
qed

lemma fwd_parse_cidr:
  assumes "n \<le> family_bits (is_ipv4 ip)"
  shows "fwd_parse (cidr_text ip n) h = (if h \<and> n \<noteq> family_bits (is_ipv4 ip) then None else Some (ip, word_of_nat n))"
proof -
  have "CHR ''/'' \<notin> set (show_ip ip)" using show_ip_chars by blast
  then have split: "split_once (CHR ''/'') (cidr_text ip n) = Some (show_ip ip, show_nat 10 n)"
    using split_once_append by (simp add: cidr_text_def)
  have n: "n < 256" using assms by (simp add: family_bits_def split: if_splits)
  then have "parse_u8 (show_nat 10 n) = Some (word_of_nat n)" by (simp add: parse_u8_def from_str_radix_show)
  moreover have u: "unat (word_of_nat n :: u8) = n" using n by (simp add: unat_of_nat)
  moreover have "word_of_nat n = (32 :: u8) \<longleftrightarrow> n = 32" "word_of_nat n = (128 :: u8) \<longleftrightarrow> n = 128"
    using u by (metis of_nat_numeral unat_numeral_32, metis of_nat_numeral unat_numeral_128)
  ultimately show ?thesis
    using assms by (auto simp: fwd_parse_def split parse_show_ip Let_def family_bits_def word_less_nat_alt)
qed

lemma wire_to:
  assumes "canonical_text (fr_destination r)"
  shows "entry_to (wire_entry u r) dst \<longleftrightarrow> text_contains (fr_destination r) dst"
proof -
  obtain ip n where d: "n \<le> family_bits (is_ipv4 ip)" "fr_destination r = cidr_text ip n"
    using assms by (auto simp: canonical_text_def)
  have "parse_cidr (cidr_text ip n) = Inr (mask_addr ip (word_of_nat n), word_of_nat n)"
    unfolding cidr_text_def using d(1) by (intro parse_cidr_show) (simp add: family_bits_def)
  moreover have "prefix_contains \<lparr>px_network = ip, px_bits = word_of_nat n\<rparr> dst = cidr_contains ip (word_of_nat n) dst"
    by (cases ip; cases dst) (simp_all add: prefix_contains_def cidr_contains_def mask32_def mask128_def Let_def)
  ultimately show ?thesis
    using d by (simp add: entry_to_def wire_entry_def cidr_text_trim fwd_parse_cidr text_contains_def contains_mask)
qed

lemma host_text_read: "map_option fst (fwd_parse (str_trim (host_text ip)) True) = Some ip"
  by (simp add: host_text_def cidr_text_trim fwd_parse_cidr)

lemma wire_from:
  assumes "\<forall>source\<in>set (fr_sources r). (\<exists>ip. source = host_text ip)"
  shows "entry_from (wire_entry u r) src \<longleftrightarrow> host_text src \<in> set (fr_sources r)"
proof -
  have "map_option fst (fwd_parse (str_trim s) True) = Some src \<longleftrightarrow> s = host_text src" if mem: "s \<in> set (fr_sources r)" for s
  proof -
    obtain ip where s: "s = host_text ip" using assms mem by auto
    show ?thesis
    proof
      assume "map_option fst (fwd_parse (str_trim s) True) = Some src"
      then have "Some ip = Some src" unfolding s host_text_read .
      then show "s = host_text src" unfolding s option.inject by (rule arg_cong)
    next
      assume "s = host_text src"
      then show "map_option fst (fwd_parse (str_trim s) True) = Some src" by (simp only: host_text_read)
    qed
  qed
  moreover have "fe_sources (wire_entry u r) = fr_sources r" by (simp add: wire_entry_def)
  ultimately show ?thesis unfolding entry_from_def by (simp only:) blast
qed

lemma wire_service:
  assumes "\<forall>spec\<in>set (fs_tcp (fr_service r) @ fs_udp (fr_service r)). port_range spec \<noteq> None"
    and "flow_of p = Some (protocol, port)"
  shows "entry_service accept (wire_entry u r) (ct_proto p) (ct_dport p) \<longleftrightarrow> fs_admits (fr_service r) protocol port"
proof -
  have covers: "fs_covers specs (Some n) \<longleftrightarrow> listed specs n" for specs n
    using specs_cover_listed [of specs n]
    by (simp add: fs_covers_def specs_cover_def spec_covers_def case_prod_beta list_ex_iff)
  have readable: "entry_ports accept specs n \<longleftrightarrow> listed specs n" if "\<forall>spec\<in>set specs. port_range spec \<noteq> None" for specs n
    using that by (auto simp: entry_ports_def)
  have "entry_ports accept (fs_tcp (fr_service r)) n = listed (fs_tcp (fr_service r)) n"
    "entry_ports accept (fs_udp (fr_service r)) n = listed (fs_udp (fr_service r)) n" for n
    by (rule readable; use assms(1) in auto)+
  then show ?thesis
    using assms(2)
    by (auto simp: entry_service_def wire_entry_def fs_admits_def covers flow_of_def is_icmp_def split: if_splits)
qed

lemma wire_matches:
  assumes "\<forall>r\<in>set rules. rule_wf r" "flow_of p = Some (protocol, port)"
  shows "(\<exists>e\<in>set (map (wire_entry u) rules). entry_matches accept e p) \<longleftrightarrow>
    matched rules (host_text (ct_src p)) (ct_dst p) protocol port"
proof -
  have "entry_matches accept (wire_entry u r) p \<longleftrightarrow> host_text (ct_src p) \<in> set (fr_sources r)
      \<and> text_contains (fr_destination r) (ct_dst p) \<and> fs_admits (fr_service r) protocol port" if "r \<in> set rules" for r
    using assms(1) that wire_to [of r] wire_from [of r] wire_service [OF _ assms(2), of r]
    unfolding entry_matches_def rule_wf_def by blast
  then show ?thesis by (auto simp: matched_def)
qed

lemma forward_plan_matched:
  assumes "documented_reads reads" "family_ok p" "is_ipv4 (ct_src p) = is_ipv4 (ct_dst p)"
    and "flow_of p = Some (protocol, port)" "\<forall>r\<in>set (ff_deny flt @ ff_allow flt). rule_wf r"
  shows "chain_verdict reads (forward_chain (plan (wire_filter uuid_text flt)) p) p =
    Some (if ct_established p
             \<or> matched (ff_allow flt) (host_text (ct_src p)) (ct_dst p) protocol port
               \<and> \<not> matched (ff_deny flt) (host_text (ct_src p)) (ct_dst p) protocol port
          then ''ACCEPT'' else ''REJECT'')"
proof -
  have wf: "\<forall>r\<in>set (ff_allow flt). rule_wf r" "\<forall>r\<in>set (ff_deny flt). rule_wf r" using assms(5) by auto
  have parts: "af_allow (wire_filter uuid_text flt) = map (wire_entry uuid_text) (ff_allow flt)"
    "af_deny (wire_filter uuid_text flt) = map (wire_entry uuid_text) (ff_deny flt)"
    by (simp_all add: wire_filter_def)
  show ?thesis
    unfolding forward_plan_verdict [OF assms(1-3)] parts wire_matches [OF wf(1) assms(4)] wire_matches [OF wf(2) assms(4)]
      target_word_def ..
qed

definition site_packet :: ct_packet where
  "site_packet = \<lparr>ct_src = V4 0x64400009, ct_dst = V4 0x0A010205, ct_proto = TCP, ct_dport = 443, ct_established = False\<rparr>"

end
