(* ===== verification/Peer_Map.thy ===== *)
theory Peer_Map
  imports Agent_Filter Forwarding
begin

section \<open>A device's peer map (\<open>blaktail-coord/src/lib.rs\<close>, \<open>list_peers\<close>)\<close>

text \<open>
  The coordinator answers a device with the peers it may reach, each with its overlay addresses, the
  routes it carries for the device, the services it may use towards the device and the pair's
  post-quantum policy (\<open>post_quantum.rs\<close>). The rows of the database query are the list of
  candidates; the time, the identifier texts and the recorded exit selections are arguments. The
  forward filter of a device that routes for others is compiled in the same loop, which is modelled
  as a second pass over the candidates because the two results do not depend on each other.
\<close>

subsection \<open>Post-quantum pairs\<close>

definition mode_rank :: "pq_setting \<Rightarrow> nat" where
  "mode_rank m = (case m of PqOff \<Rightarrow> 0 | PqPrefer \<Rightarrow> 1 | PqRequire \<Rightarrow> 2)"

instantiation pq_setting :: linorder
begin

definition less_eq_pq_setting :: "pq_setting \<Rightarrow> pq_setting \<Rightarrow> bool" where
  "less_eq_pq_setting a b \<longleftrightarrow> mode_rank a \<le> mode_rank b"

definition less_pq_setting :: "pq_setting \<Rightarrow> pq_setting \<Rightarrow> bool" where
  "less_pq_setting a b \<longleftrightarrow> mode_rank a < mode_rank b"

instance
  by intro_classes
     (auto simp: less_eq_pq_setting_def less_pq_setting_def mode_rank_def split: pq_setting.splits)

end

record pair_rule =
  pr_tags :: "device_tag \<times> device_tag"
  pr_mode :: pq_setting

record pq_policy =
  po_default_mode :: pq_setting
  po_block_unestablished :: bool
  po_rules :: "pair_rule list"

definition rule_pairs :: "pair_rule \<Rightarrow> device_tag list \<Rightarrow> device_tag list \<Rightarrow> bool" where
  "rule_pairs r a b \<longleftrightarrow>
     (let (x, y) = pr_tags r in (x \<in> set a \<and> y \<in> set b) \<or> (y \<in> set a \<and> x \<in> set b))"

definition mode_for :: "pq_policy \<Rightarrow> device_tag list \<Rightarrow> device_tag list \<Rightarrow> pq_setting" where
  "mode_for policy a b =
     (case map pr_mode (filter (\<lambda>r. rule_pairs r a b) (po_rules policy)) of
        [] \<Rightarrow> po_default_mode policy | m # ms \<Rightarrow> foldl max m ms)"

definition is_inert :: "pq_policy \<Rightarrow> bool" where
  "is_inert policy \<longleftrightarrow> po_default_mode policy = PqOff \<and> list_all (\<lambda>r. pr_mode r = PqOff) (po_rules policy)"

subsection \<open>Peers\<close>

record coord_peer =
  pe_id :: uuid
  pe_name :: string
  pe_wg_public_key :: string
  pe_endpoint :: "string option"
  pe_allowed_ips :: "string list"
  pe_dns_name :: string
  pe_tags :: "device_tag list"
  pe_relay_endpoint :: "string option"
  pe_kind :: string
  pe_ingress :: "peer_ingress option"
  pe_pq :: "peer_pq option"

definition annotate_peers :: "pq_policy \<Rightarrow> uuid list \<Rightarrow> device_tag list \<Rightarrow> coord_peer list \<Rightarrow> coord_peer list" where
  "annotate_peers policy capable source_tags peers =
     (if is_inert policy then peers
      else map (\<lambda>peer. let mode = mode_for policy source_tags (pe_tags peer)
                       in peer\<lparr>pe_pq := if mode = PqOff then None
                            else Some \<lparr>pp_mode = mode, pp_capable = pe_id peer \<in> set capable,
                                       pp_block = po_block_unestablished policy\<rparr>\<rparr>) peers)"

text \<open>A row of the query: the peer, its subject, its approved routes and its shares.\<close>

type_synonym candidate = "coord_peer \<times> subject \<times> string list \<times> node_share list"

record map_request =
  mr_id :: uuid
  mr_subject :: subject
  mr_exit :: "string option"
  mr_ipv6 :: bool
  mr_ssh_users_enforced :: bool

definition exit_matches :: "(uuid \<Rightarrow> string) \<Rightarrow> string option \<Rightarrow> coord_peer \<Rightarrow> bool" where
  "exit_matches uuid_text requested peer =
     (case requested of
        None \<Rightarrow> False
      | Some requested \<Rightarrow>
          requested = uuid_text (pe_id peer) \<or> requested = pe_name peer \<or> requested = pe_dns_name peer)"

definition route_active :: "bool \<Rightarrow> string \<Rightarrow> bool" where
  "route_active ipv6 route \<longleftrightarrow> ipv6 \<or> CHR '':'' \<notin> set route"

definition push_approved :: "bool \<Rightarrow> bool \<Rightarrow> string list \<times> bool \<Rightarrow> string \<Rightarrow> string list \<times> bool" where
  "push_approved ipv6 exits = (\<lambda>(ips, active) route.
     if is_default_route route
     then (if exits then (ips @ [route], active \<or> route_active ipv6 route) else (ips, active))
     else (ips @ [route], active))"

definition push_resource :: "bool \<Rightarrow> string list \<times> bool \<Rightarrow> string \<Rightarrow> string list \<times> bool" where
  "push_resource ipv6 = (\<lambda>(ips, active) route.
     (if route \<in> set ips then ips else ips @ [route],
      if is_default_route route then active \<or> route_active ipv6 route else active))"

definition map_candidate ::
  "(uuid \<Rightarrow> string) \<Rightarrow> acl \<Rightarrow> int \<Rightarrow> distribution \<Rightarrow> map_request \<Rightarrow> bool \<Rightarrow> candidate \<Rightarrow> coord_peer option \<times> bool" where
  "map_candidate uuid_text acl now dist req active = (\<lambda>(peer, destination, approved, dest_shares).
     case peer_map_ingress acl now (mr_subject req) destination dest_shares (mr_ssh_users_enforced req) of
       None \<Rightarrow> (None, active)
     | Some i \<Rightarrow>
         (let exits = exit_matches uuid_text (mr_exit req) peer;
              (ips, active) = foldl (push_approved (mr_ipv6 req) exits) (pe_allowed_ips peer, active) approved;
              (ips, active) = foldl (push_resource (mr_ipv6 req)) (ips, active)
                (routes_via dist (pe_id peer) (mr_id req) (mr_subject req) acl exits);
              ips = (if mr_ipv6 req then ips else filter (\<lambda>route. CHR '':'' \<notin> set route) ips)
          in (Some (peer\<lparr>pe_ingress := Some i, pe_allowed_ips := ips\<rparr>), active)))"

fun map_candidates ::
  "(uuid \<Rightarrow> string) \<Rightarrow> acl \<Rightarrow> int \<Rightarrow> distribution \<Rightarrow> map_request \<Rightarrow> bool \<Rightarrow> candidate list \<Rightarrow> coord_peer list \<times> bool" where
  "map_candidates uuid_text acl now dist req active [] = ([], active)"
| "map_candidates uuid_text acl now dist req active (c # cs) =
     (let (peer, active) = map_candidate uuid_text acl now dist req active c;
          (peers, active) = map_candidates uuid_text acl now dist req active cs
      in (case peer of None \<Rightarrow> peers | Some p \<Rightarrow> p # peers, active))"

definition client_of :: "(uuid \<Rightarrow> string option) \<Rightarrow> candidate \<Rightarrow> client_view" where
  "client_of exit_selections = (\<lambda>(peer, destination, _, _).
     \<lparr>cv_id = pe_id peer, cv_subject = destination, cv_overlay = pe_allowed_ips peer,
      cv_exit_request = exit_selections (pe_id peer)\<rparr>)"

fun compile_candidates ::
  "(uuid \<Rightarrow> string) \<Rightarrow> acl \<Rightarrow> int \<Rightarrow> distribution \<Rightarrow> router_view \<Rightarrow> (uuid \<Rightarrow> string option) \<Rightarrow> candidate list \<Rightarrow>
   forward_filter \<Rightarrow> forward_filter option" where
  "compile_candidates uuid_text acl now dist router exit_selections [] flt = Some flt"
| "compile_candidates uuid_text acl now dist router exit_selections (c # cs) flt =
     (if \<not> allows acl now (rv_subject router) (cv_subject (client_of exit_selections c))
      then compile_candidates uuid_text acl now dist router exit_selections cs flt
      else case compile_client uuid_text acl now dist router (client_of exit_selections c) flt of
             None \<Rightarrow> None
           | Some flt \<Rightarrow> compile_candidates uuid_text acl now dist router exit_selections cs flt)"

subsection \<open>The pair's mode\<close>

text \<open>
  Both ends of a pair resolve the same post-quantum mode: the strongest mode among the tag-pair
  rules that match the two devices, and the organisation's default when none does.
\<close>

theorem pair_mode_exact:
  "mode_for policy a b = mode_for policy b a
   \<and> mode_for policy a b =
       (if {r \<in> set (po_rules policy). rule_pairs r a b} = {} then po_default_mode policy
        else Max (pr_mode ` {r \<in> set (po_rules policy). rule_pairs r a b}))"
proof -
  have sym: "rule_pairs r a b = rule_pairs r b a" for r by (auto simp: rule_pairs_def split: prod.splits)
  have fold: "foldl max m ms = Max (set (m # ms))" for m :: pq_setting and ms
  proof -
    have "(\<lambda>x s. max s x) = (max :: pq_setting \<Rightarrow> _)" by (intro ext) (rule max.commute)
    then show ?thesis unfolding Max.set_eq_fold foldl_conv_fold by simp
  qed
  have "mode_for policy a b = mode_for policy b a" by (simp add: mode_for_def sym)
  moreover have "mode_for policy a b =
       (if {r \<in> set (po_rules policy). rule_pairs r a b} = {} then po_default_mode policy
        else Max (pr_mode ` {r \<in> set (po_rules policy). rule_pairs r a b}))"
  proof (cases "map pr_mode (filter (\<lambda>r. rule_pairs r a b) (po_rules policy))")
    case Nil
    then show ?thesis by (auto simp: mode_for_def filter_empty_conv)
  next
    case (Cons m ms)
    then have eq: "set (m # ms) = pr_mode ` {r \<in> set (po_rules policy). rule_pairs r a b}" by (metis set_filter set_map)
    then have "{r \<in> set (po_rules policy). rule_pairs r a b} \<noteq> {}" by (metis image_empty list.distinct(1) set_empty)
    then show ?thesis unfolding mode_for_def Cons fold list.case eq by (simp only: if_False)
  qed
  ultimately show ?thesis by blast
qed

subsection \<open>Routes on both sides\<close>

definition as_router :: "candidate \<Rightarrow> string list \<Rightarrow> router_view" where
  "as_router = (\<lambda>(peer, destination, approved, _) advertised.
     \<lparr>rv_id = pe_id peer, rv_name = pe_name peer, rv_dns_name = pe_dns_name peer, rv_subject = destination,
      rv_approved = approved, rv_advertised = advertised\<rparr>)"

definition as_client :: "map_request \<Rightarrow> string list \<Rightarrow> client_view" where
  "as_client req overlay =
     \<lparr>cv_id = mr_id req, cv_subject = mr_subject req, cv_overlay = overlay, cv_exit_request = mr_exit req\<rparr>"

lemma push_approved_all:
  "foldl (push_approved ipv6 exits) (ips, active) routes =
     (ips @ filter (\<lambda>route. \<not> is_default_route route \<or> exits) routes,
      active \<or> exits \<and> list_ex (\<lambda>route. is_default_route route \<and> route_active ipv6 route) routes)"
  by (induction routes arbitrary: ips active) (auto simp: push_approved_def)

lemma push_resource_all:
  "set (fst (foldl (push_resource ipv6) (ips, active) routes)) = set ips \<union> set routes"
  "snd (foldl (push_resource ipv6) (ips, active) routes) =
     (active \<or> list_ex (\<lambda>route. is_default_route route \<and> route_active ipv6 route) routes)"
  by (induction routes arbitrary: ips active) (auto simp: push_resource_def)

text \<open>The prefixes a peer is given, and the exit flag, as one set and one condition.\<close>

lemma map_candidate_routes:
  fixes uuid_text :: "uuid \<Rightarrow> string" and dist :: distribution
  assumes c: "c = (peer, destination, approved, shares)" and "allows acl now (mr_subject req) destination"
  defines "exits \<equiv> exit_matches uuid_text (mr_exit req) peer"
  defines "via \<equiv> routes_via dist (pe_id peer) (mr_id req) (mr_subject req) acl exits"
  obtains p active' where "map_candidate uuid_text acl now dist req active c = (Some p, active')"
    "set (pe_allowed_ips p) = {route \<in> set (pe_allowed_ips peer) \<union> ({route \<in> set approved. \<not> is_default_route route \<or> exits} \<union> set via).
       route_active (mr_ipv6 req) route}"
    "active' = (active \<or> exits \<and> list_ex (\<lambda>route. is_default_route route \<and> route_active (mr_ipv6 req) route) approved
       \<or> list_ex (\<lambda>route. is_default_route route \<and> route_active (mr_ipv6 req) route) via)"
proof -
  let ?usable = "\<lambda>route. is_default_route route \<and> route_active (mr_ipv6 req) route"
  obtain ips active' where r: "foldl (push_resource (mr_ipv6 req))
      (pe_allowed_ips peer @ filter (\<lambda>route. \<not> is_default_route route \<or> exits) approved,
       active \<or> exits \<and> list_ex ?usable approved) via = (ips, active')" by fastforce
  have ips: "set ips = set (pe_allowed_ips peer) \<union> {route \<in> set approved. \<not> is_default_route route \<or> exits} \<union> set via"
    and act: "active' = (active \<or> exits \<and> list_ex ?usable approved \<or> list_ex ?usable via)"
    using push_resource_all [of "mr_ipv6 req" "pe_allowed_ips peer @ filter (\<lambda>route. \<not> is_default_route route \<or> exits) approved"
        "active \<or> exits \<and> list_ex ?usable approved" via]
    unfolding r by auto
  obtain i where i: "peer_map_ingress acl now (mr_subject req) destination shares (mr_ssh_users_enforced req) = Some i"
    using assms(2) by (simp add: peer_map_ingress_def Let_def)
  have eq: "map_candidate uuid_text acl now dist req active c =
      (Some (peer\<lparr>pe_ingress := Some i,
         pe_allowed_ips := if mr_ipv6 req then ips else filter (\<lambda>route. CHR '':'' \<notin> set route) ips\<rparr>), active')"
    by (simp only: map_candidate_def c split_conv i option.case exits_def [symmetric] push_approved_all Let_def
        via_def [symmetric] r)
  show thesis by (rule that [OF eq]) (auto simp: ips act route_active_def)
qed

text \<open>
  C10. A device routes through a peer exactly what that peer will forward for it. A peer is in the
  map when policy lets the device reach it; its addresses are then its overlay addresses together
  with the prefixes for which the peer's own forward filter holds a grant for this device (the
  default route only when the device selected this peer as exit), without the IPv6 ones for a device
  that did not ask for them; and the exit counts as active when such a default route is usable.
\<close>

theorem map_matches_forwarding:
  "let gs = fwd_grants uuid_text acl dist (as_router c advertised) (as_client req overlay);
       (peer, destination, approved, shares) = c
   in (case map_candidate uuid_text acl now dist req active c of
         (None, active') \<Rightarrow> \<not> allows acl now (mr_subject req) destination \<and> active' = active
       | (Some p, active') \<Rightarrow>
           allows acl now (mr_subject req) destination
           \<and> set (pe_allowed_ips p) =
               {route \<in> set (pe_allowed_ips peer) \<union> fst ` set gs. route_active (mr_ipv6 req) route}
           \<and> active' = (active \<or> (\<exists>route\<in>fst ` set gs. is_default_route route \<and> route_active (mr_ipv6 req) route)))"
proof -
  obtain peer destination approved shares where c: "c = (peer, destination, approved, shares)" by (metis prod_cases4)
  define exits where "exits = exit_matches uuid_text (mr_exit req) peer"
  have sel: "selected_by uuid_text (as_router c advertised) (cv_exit_request (as_client req overlay)) = exits"
    by (simp add: selected_by_def as_router_def as_client_def exits_def exit_matches_def c split: option.splits)
  let ?via = "routes_via dist (pe_id peer) (mr_id req) (mr_subject req) acl exits"
  have keys: "fst ` set (fwd_grants uuid_text acl dist (as_router c advertised) (as_client req overlay)) =
      {route \<in> set approved. \<not> is_default_route route \<or> exits} \<union> set ?via"
    unfolding fwd_grants_keys sel by (simp add: as_router_def as_client_def c)
  have via: "is_default_route route \<Longrightarrow> route \<in> set ?via \<Longrightarrow> exits" for route
    by (auto simp: routes_via_def grants_via_def)
  show ?thesis
  proof (cases "allows acl now (mr_subject req) destination")
    case False
    then have "map_candidate uuid_text acl now dist req active c = (None, active)"
      by (simp add: map_candidate_def c peer_map_ingress_def)
    with False show ?thesis by (simp add: c)
  next
    case True
    obtain p active' where eq: "map_candidate uuid_text acl now dist req active c = (Some p, active')"
      and ips: "set (pe_allowed_ips p) = {route \<in> set (pe_allowed_ips peer)
          \<union> ({route \<in> set approved. \<not> is_default_route route \<or> exits} \<union> set ?via). route_active (mr_ipv6 req) route}"
      and act: "active' = (active \<or> exits \<and> list_ex (\<lambda>route. is_default_route route \<and> route_active (mr_ipv6 req) route) approved
          \<or> list_ex (\<lambda>route. is_default_route route \<and> route_active (mr_ipv6 req) route) ?via)"
      using map_candidate_routes [OF c True, of uuid_text dist active] unfolding exits_def by blast
    have "active' = (active \<or> (\<exists>route\<in>{route \<in> set approved. \<not> is_default_route route \<or> exits} \<union> set ?via.
        is_default_route route \<and> route_active (mr_ipv6 req) route))"
      unfolding act using via by (auto simp: list_ex_iff)
    with True ips show ?thesis
      unfolding c Let_def split_conv keys [unfolded c] eq [unfolded c] by simp
  qed
qed

subsection \<open>The filter of a routing device\<close>

definition opens_for ::
  "(uuid \<Rightarrow> string) \<Rightarrow> acl \<Rightarrow> int \<Rightarrow> distribution \<Rightarrow> router_view \<Rightarrow> client_view \<Rightarrow> string \<Rightarrow> ip_addr \<Rightarrow>
   acl_protocol option \<Rightarrow> u16 option \<Rightarrow> bool" where
  "opens_for uuid_text acl now dist router client src ip protocol port \<longleftrightarrow>
     (let gs = fwd_grants uuid_text acl dist router client
      in may_forward acl now router client \<and> src \<in> set (host_addresses (cv_overlay client))
         \<and> (route_granted gs (carried_prefixes dist router) ip protocol port
            \<or> host_opened acl (cv_subject client) gs ip protocol port))"

definition closes_for ::
  "(uuid \<Rightarrow> string) \<Rightarrow> acl \<Rightarrow> int \<Rightarrow> distribution \<Rightarrow> router_view \<Rightarrow> client_view \<Rightarrow> string \<Rightarrow> ip_addr \<Rightarrow>
   acl_protocol option \<Rightarrow> u16 option \<Rightarrow> bool" where
  "closes_for uuid_text acl now dist router client src ip protocol port \<longleftrightarrow>
     (let gs = fwd_grants uuid_text acl dist router client
      in may_forward acl now router client \<and> src \<in> set (host_addresses (cv_overlay client))
         \<and> (route_reserved gs (carried_prefixes dist router) ip
            \<or> host_closed acl (cv_subject client) gs ip protocol port))"

text \<open>The devices that are in the router's own map.\<close>

definition paired_clients ::
  "acl \<Rightarrow> int \<Rightarrow> router_view \<Rightarrow> (uuid \<Rightarrow> string option) \<Rightarrow> candidate list \<Rightarrow> client_view list" where
  "paired_clients acl now router exits cs =
     filter (\<lambda>client. allows acl now (rv_subject router) (cv_subject client)) (map (client_of exits) cs)"

lemma compile_client_opens:
  "\<exists>flt'. compile_client uuid_text acl now dist router client flt = Some flt'
     \<and> (\<forall>src ip protocol port.
          (matched (ff_allow flt') src ip protocol port \<longleftrightarrow> matched (ff_allow flt) src ip protocol port
             \<or> opens_for uuid_text acl now dist router client src ip protocol port)
          \<and> (matched (ff_deny flt') src ip protocol port \<longleftrightarrow> matched (ff_deny flt) src ip protocol port
             \<or> closes_for uuid_text acl now dist router client src ip protocol port))"
  unfolding opens_for_def closes_for_def Let_def by (rule compile_client_matched [OF refl refl])

lemma compile_candidates_matched:
  "\<exists>flt'. compile_candidates uuid_text acl now dist router exits cs flt = Some flt'
     \<and> (\<forall>src ip protocol port.
          (matched (ff_allow flt') src ip protocol port \<longleftrightarrow> matched (ff_allow flt) src ip protocol port
             \<or> (\<exists>client\<in>set (paired_clients acl now router exits cs). opens_for uuid_text acl now dist router client src ip protocol port))
          \<and> (matched (ff_deny flt') src ip protocol port \<longleftrightarrow> matched (ff_deny flt) src ip protocol port
             \<or> (\<exists>client\<in>set (paired_clients acl now router exits cs). closes_for uuid_text acl now dist router client src ip protocol port)))"
proof (induction cs arbitrary: flt)
  case Nil
  then show ?case by (simp add: paired_clients_def)
next
  case (Cons c cs)
  show ?case
  proof (cases "allows acl now (rv_subject router) (cv_subject (client_of exits c))")
    case False
    then show ?thesis using Cons [of flt] by (simp add: paired_clients_def)
  next
    case True
    then have paired: "paired_clients acl now router exits (c # cs) = client_of exits c # paired_clients acl now router exits cs"
      by (simp add: paired_clients_def)
    obtain f1 where f1: "compile_client uuid_text acl now dist router (client_of exits c) flt = Some f1"
      and m1: "\<And>src ip protocol port.
         (matched (ff_allow f1) src ip protocol port \<longleftrightarrow> matched (ff_allow flt) src ip protocol port
            \<or> opens_for uuid_text acl now dist router (client_of exits c) src ip protocol port)
         \<and> (matched (ff_deny f1) src ip protocol port \<longleftrightarrow> matched (ff_deny flt) src ip protocol port
            \<or> closes_for uuid_text acl now dist router (client_of exits c) src ip protocol port)"
      using compile_client_opens [of uuid_text acl now dist router "client_of exits c" flt] by blast
    from Cons [of f1] obtain f2 where f2: "compile_candidates uuid_text acl now dist router exits cs f1 = Some f2"
      and m2: "\<And>src ip protocol port.
         (matched (ff_allow f2) src ip protocol port \<longleftrightarrow> matched (ff_allow f1) src ip protocol port
            \<or> (\<exists>client\<in>set (paired_clients acl now router exits cs). opens_for uuid_text acl now dist router client src ip protocol port))
         \<and> (matched (ff_deny f2) src ip protocol port \<longleftrightarrow> matched (ff_deny f1) src ip protocol port
            \<or> (\<exists>client\<in>set (paired_clients acl now router exits cs). closes_for uuid_text acl now dist router client src ip protocol port))"
      by blast
    have "compile_candidates uuid_text acl now dist router exits (c # cs) flt = Some f2" using True f1 f2 by simp
    then show ?thesis unfolding paired by (simp add: m1 m2 disj_assoc)
  qed
qed

end
