(* ===== verification/Router_Policy.thy ===== *)
theory Router_Policy
  imports Forward_Plan Peer_Map
begin

section \<open>From the policy to the router's firewall\<close>

text \<open>
  The coordinator compiles a router's forward filter from the policy (\<open>compile_candidates\<close>),
  the agent on the router turns it into iptables rules (\<open>plan\<close>). Here the two are composed:
  inputs in the coordinator's own textual forms give rules the agent reads back exactly, and the
  chain then decides what the policy's grants say.
\<close>

definition service_ok :: "forward_service \<Rightarrow> bool" where
  "service_ok s \<longleftrightarrow> (\<forall>spec\<in>set (fs_tcp s @ fs_udp s). port_range spec \<noteq> None)"

text \<open>
  Validated inputs: routes, overlay addresses and named hosts print as canonical prefixes, and port
  lists parse.
\<close>

definition client_wf :: "client_view \<Rightarrow> bool" where
  "client_wf client \<longleftrightarrow> (\<forall>route\<in>set (cv_overlay client). canonical_text route)"

definition router_wf :: "acl \<Rightarrow> distribution \<Rightarrow> router_view \<Rightarrow> bool" where
  "router_wf acl dist router \<longleftrightarrow>
     (\<forall>route\<in>set (rv_approved router @ rv_advertised router @ reserved_for dist (rv_id router)). canonical_text route)
     \<and> (\<forall>route\<in>set (di_routes dist). service_ok (rt_service route))
     \<and> (\<forall>(name, value)\<in>set (ac_hosts acl). \<forall>host. host_cidr value = Some host \<longrightarrow> canonical_text host)
     \<and> (\<forall>r\<in>set (ac_rules acl). \<forall>spec\<in>set (ar_dst_ports r). port_range spec \<noteq> None)"

lemma service_ok_simps [simp]: "service_ok fs_everything" "service_ok fs_default"
  by (simp_all add: service_ok_def fs_everything_def fs_default_def)

lemma service_ok_merge: "service_ok a \<Longrightarrow> service_ok b \<Longrightarrow> service_ok (fs_merge a b)"
  by (auto simp: service_ok_def fs_merge_def fs_everything_def)

lemma all_ports_range: "port_range ''1-65535'' \<noteq> None"
  using spec_covers_everything [of 1] by (auto simp: spec_covers_range simp del: spec_covers_everything)

lemma service_ok_rule: "\<forall>spec\<in>set (ar_dst_ports r). port_range spec \<noteq> None \<Longrightarrow> service_ok (rule_service r)"
  using all_ports_range
  by (auto simp: service_ok_def rule_service_def collect_service_specs_def Let_def set_insort_insert)

lemma service_ok_hosts:
  assumes "\<forall>r\<in>set (ac_rules acl). \<forall>spec\<in>set (ar_dst_ports r). port_range spec \<noteq> None"
  shows "service_ok (fst (host_services acl src name))" "service_ok (snd (host_services acl src name))"
proof -
  have "service_ok (fst (foldl (\<lambda>(denied, allowed) r.
              if ar_action r = Deny then (fs_merge denied (rule_service r), allowed)
              else if ar_dst_hosts r \<noteq> [] then (denied, fs_merge allowed (rule_service r))
              else (denied, allowed)) sv rs))
      \<and> service_ok (snd (foldl (\<lambda>(denied, allowed) r.
              if ar_action r = Deny then (fs_merge denied (rule_service r), allowed)
              else if ar_dst_hosts r \<noteq> [] then (denied, fs_merge allowed (rule_service r))
              else (denied, allowed)) sv rs))"
    if "\<forall>r\<in>set rs. service_ok (rule_service r)" "service_ok (fst sv)" "service_ok (snd sv)" for rs sv
    using that by (induction rs arbitrary: sv) (auto simp: service_ok_merge split: prod.splits)
  moreover have "\<forall>r\<in>set (ac_rules acl). service_ok (rule_service r)" using assms service_ok_rule by blast
  ultimately show "service_ok (fst (host_services acl src name))" "service_ok (snd (host_services acl src name))"
    unfolding host_services_def by simp_all
qed

lemma bm_put_mem: "e \<in> set (bm_put k v m) \<Longrightarrow> e = (k, v) \<or> e \<in> set m"
  by (induction m) (auto split: if_splits)

lemma service_ok_grants:
  assumes "\<forall>route\<in>set (di_routes dist). service_ok (rt_service route)"
    and "(prefix, service) \<in> set (fwd_grants u acl dist router client)"
  shows "service_ok service"
proof -
  let ?ok = "\<lambda>m :: forward_service bmap. \<forall>e\<in>set m. service_ok (snd e)"
  have own: "?ok m \<Longrightarrow> ?ok (foldl (\<lambda>m route. if P route then bm_put route fs_everything m else m) m rs)" for P m rs
  proof (induction rs arbitrary: m)
    case (Cons r rs)
    show ?case unfolding foldl_Cons by (rule Cons.IH) (use Cons.prems in \<open>auto dest!: bm_put_mem split: if_splits\<close>)
  qed simp
  have more: "?ok m \<Longrightarrow> \<forall>g\<in>set gs. service_ok (snd g) \<Longrightarrow> ?ok (foldl (\<lambda>m (cidr, service).
      bm_put cidr (fs_merge (case map_of m cidr of None \<Rightarrow> fs_default | Some s \<Rightarrow> s) service) m) m gs)" for m gs
  proof (induction gs arbitrary: m)
    case (Cons g gs)
    have "service_ok (case map_of m (fst g) of None \<Rightarrow> fs_default | Some s \<Rightarrow> s)"
      using Cons.prems(1) by (force split: option.splits dest!: map_of_SomeD)
    then have "service_ok (fs_merge (case map_of m (fst g) of None \<Rightarrow> fs_default | Some s \<Rightarrow> s) (snd g))"
      using Cons.prems(2) service_ok_merge by simp
    then show ?case unfolding foldl_Cons case_prod_beta
      by (intro Cons.IH [unfolded case_prod_beta]) (use Cons.prems in \<open>auto dest!: bm_put_mem\<close>)
  qed simp
  have "\<forall>g\<in>set (grants_via dist (rv_id router) (cv_id client) (cv_subject client) acl x). service_ok (snd g)" for x
    using assms(1) by (auto simp: grants_via_def)
  then have "?ok (fwd_grants u acl dist router client)"
    unfolding fwd_grants_def Let_def by (intro more own) simp_all
  with assms(2) show ?thesis by auto
qed

text \<open>The texts of the compiled rules.\<close>

lemma canonical_cidr [intro]: "n \<le> family_bits (is_ipv4 ip) \<Longrightarrow> canonical_text (cidr_text ip n)"
  unfolding canonical_text_def by (intro exI conjI) (assumption, rule refl)

lemma host_addresses_hosts:
  assumes "client_wf client" "source \<in> set (host_addresses (cv_overlay client))"
  shows "\<exists>ip. source = host_text ip"
proof -
  obtain ip n where n: "n \<le> family_bits (is_ipv4 ip)" and source: "source = cidr_text ip n"
    using assms by (auto simp: client_wf_def host_addresses_def canonical_text_def)
  have parse: "parse_cidr (cidr_text ip n) = Inr (mask_addr ip (word_of_nat n), word_of_nat n)"
    using parse_cidr_show [of n ip] n by (simp add: cidr_text_def family_bits_def)
  have "(is_ipv4 (mask_addr ip (word_of_nat n)) \<and> (word_of_nat n :: u8) = 32)
      \<or> (is_ipv6 (mask_addr ip (word_of_nat n)) \<and> (word_of_nat n :: u8) = 128)"
    using assms(2) unfolding host_addresses_def source by (simp add: parse)
  then have "n = family_bits (is_ipv4 ip)"
    using n by (cases ip) (auto simp: mask_addr_def family_bits_def word_unat_eq_iff unat_of_nat)
  then have "source = host_text ip" unfolding source host_text_def by simp
  then show ?thesis by (rule exI)
qed

lemma default_route_canonical: "is_default_route route \<Longrightarrow> canonical_text route"
  using show_zero canonical_cidr [of 0 "V4 0"] canonical_cidr [of 0 "V6 0"]
  by (auto simp: is_default_route_def cidr_text_def)

lemma complement_canonical:
  assumes "is_default_route universe" "complement universe prefixes = Some parts" "part \<in> set parts"
  shows "canonical_text part"
proof -
  let ?v4 = "universe = ''0.0.0.0/0''"
  have "block_ok (family_bits ?v4) 0 0" "family_bits ?v4 \<le> 128" by (simp_all add: block_ok_def family_bits_def)
  then have "\<exists>blocks. complement universe prefixes = Some (map (\<lambda>(n, l). show_block ?v4 n l) blocks)
      \<and> covers_rest (family_bits ?v4) 0 0 (excl_of ?v4 prefixes) blocks"
    unfolding complement_split(1) [OF assms(1)] by (rule fwd_split_covers) (rule excl_of_ok)
  then obtain blocks where b: "complement universe prefixes = Some (map (\<lambda>(n, l). show_block ?v4 n l) blocks)"
      "covers_rest (family_bits ?v4) 0 0 (excl_of ?v4 prefixes) blocks"
    by (elim exE conjE) (rule that)
  then have "parts = map (\<lambda>(n, l). show_block ?v4 n l) blocks" using assms(2) by simp
  then obtain n l where e: "(n, l) \<in> set blocks" "part = show_block ?v4 n l" using assms(3) by auto
  have "block_ok (family_bits ?v4) n l" using covers_rest_ok [OF b(2) e(1)] by simp
  moreover have "is_ipv4 (block_net ?v4 n) = ?v4" by (simp add: block_net_def)
  ultimately have "l \<le> family_bits (is_ipv4 (block_net ?v4 n))" by (simp only: block_ok_def)
  moreover have "part = cidr_text (block_net ?v4 n) l" unfolding e(2) show_block_show cidr_text_def ..
  ultimately show ?thesis by (simp only: canonical_cidr)
qed

lemma client_entry_wf:
  assumes "client_wf client" "canonical_text destination" "service_ok service"
  shows "rule_wf (client_entry client destination service)"
  using assms host_addresses_hosts [OF assms(1)] by (auto simp: rule_wf_def service_ok_def client_entry_def)

lemma host_entries_wf:
  assumes "router_wf acl dist router" "client_wf client" "h \<in> set (ac_hosts acl)"
    and "r \<in> set (fst (host_entries acl src gs (client_entry client) h)) \<union> set (snd (host_entries acl src gs (client_entry client) h))"
  shows "rule_wf r"
proof -
  obtain name val where h: "h = (name, val)" by (cases h)
  then obtain host where host: "host_cidr val = Some host"
    using assms(4) by (auto simp: host_entries_def split: option.splits)
  have canonical: "canonical_text host"
    using assms(1,3) host unfolding router_wf_def h by fastforce
  obtain denied allowed where sv: "host_services acl src name = (denied, allowed)" by fastforce
  have "service_ok denied" "service_ok allowed"
    using service_ok_hosts [of acl src name] assms(1) unfolding router_wf_def sv by auto
  moreover have "r = client_entry client host denied \<or> r = client_entry client host allowed"
    using assms(4) by (auto simp: host_entries_def h host sv Let_def split: if_splits)
  ultimately show ?thesis using client_entry_wf [OF assms(2) canonical] by auto
qed

lemma grant_entries_wf:
  assumes "router_wf acl dist router" "client_wf client" "g \<in> set (fwd_grants u acl dist router client)"
    and "grant_entries carried (client_entry client) g = Some rs" "r \<in> set rs"
  shows "rule_wf r"
proof -
  obtain prefix service where g: "g = (prefix, service)" by (cases g)
  have service: "service_ok service"
    using service_ok_grants [of dist prefix service u acl router client] assms(1,3) unfolding g router_wf_def by blast
  show ?thesis
  proof (cases "is_default_route prefix")
    case True
    with assms(4,5) obtain parts part where "complement prefix carried = Some parts" "part \<in> set parts"
        "r = client_entry client part service"
      by (auto simp: grant_entries_def g)
    then show ?thesis using client_entry_wf [OF assms(2) complement_canonical [OF True] service] by blast
  next
    case False
    have "prefix \<in> fst ` set (fwd_grants u acl dist router client)" using assms(3) g by force
    then have "prefix \<in> set (rv_approved router @ reserved_for dist (rv_id router))"
      unfolding fwd_grants_keys by (auto simp: routes_via_def grants_via_def reserved_for_def carried_by_def)
    then have "canonical_text prefix" using assms(1) unfolding router_wf_def by auto
    with False assms(4,5) show ?thesis using client_entry_wf [OF assms(2) _ service] by (auto simp: grant_entries_def g)
  qed
qed

lemma those_mem: "those xs = Some ys \<Longrightarrow> y \<in> set ys \<Longrightarrow> Some y \<in> set xs"
  by (induction xs arbitrary: ys) (auto split: option.splits)

definition filter_wf :: "forward_filter \<Rightarrow> bool" where
  "filter_wf flt \<longleftrightarrow> (\<forall>r\<in>set (ff_deny flt @ ff_allow flt). rule_wf r)"

lemma compile_client_wf:
  assumes wf: "router_wf acl dist router" "client_wf client" and "filter_wf flt"
    and "compile_client u acl now dist router client flt = Some flt'"
  shows "filter_wf flt'"
proof -
  let ?gs = "fwd_grants u acl dist router client" and ?carried = "carried_prefixes dist router"
  let ?hosts = "map (host_entries acl (cv_subject client) ?gs (client_entry client)) (ac_hosts acl)"
  let ?deny = "if list_ex is_default_route (map fst ?gs) then map (\<lambda>prefix. client_entry client prefix fs_everything)
      (filter (\<lambda>prefix. \<not> has_key ?gs prefix) ?carried) else []"
  consider "flt' = flt"
    | granted where "those (map (grant_entries ?carried (client_entry client)) ?gs) = Some granted"
        "ff_deny flt' = ff_deny flt @ ?deny @ concat (map fst ?hosts)"
        "ff_allow flt' = ff_allow flt @ concat (map snd ?hosts) @ concat granted"
    using assms(4) by (auto simp: compile_client_def Let_def split: if_splits)
  then show ?thesis
  proof cases
    case 1
    with assms(3) show ?thesis by simp
  next
    case 2
    have "rule_wf r" if mem: "r \<in> set (concat granted)" for r
    proof -
      obtain rs where rs: "rs \<in> set granted" "r \<in> set rs" using mem by auto
      then obtain g where "g \<in> set ?gs" "grant_entries ?carried (client_entry client) g = Some rs"
        using those_mem [OF 2(1) rs(1)] by (auto simp: eq_commute [of "Some rs"])
      with rs(2) show ?thesis using grant_entries_wf [OF wf] by blast
    qed
    moreover have "rule_wf r" if "r \<in> set (concat (map fst ?hosts)) \<union> set (concat (map snd ?hosts))" for r
      using that unfolding set_concat set_map by (elim UnE UN_E imageE) (blast intro: host_entries_wf [OF wf])+
    moreover have "rule_wf r" if "r \<in> set ?deny" for r
    proof -
      obtain prefix where "prefix \<in> set ?carried" "r = client_entry client prefix fs_everything"
        using \<open>r \<in> set ?deny\<close> by (auto split: if_splits)
      moreover from this have "canonical_text prefix" using wf(1) by (auto simp: carried_prefixes_def router_wf_def)
      ultimately show ?thesis using client_entry_wf [OF wf(2)] by simp
    qed
    ultimately show ?thesis using assms(3) unfolding filter_wf_def 2(2,3) set_append by blast
  qed
qed

lemma compile_candidates_wf:
  assumes "router_wf acl dist router" "\<forall>c\<in>set cs. client_wf (client_of exits c)" "filter_wf flt"
    and "compile_candidates u acl now dist router exits cs flt = Some flt'"
  shows "filter_wf flt'"
  using assms(2-)
proof (induction cs arbitrary: flt)
  case (Cons c cs)
  then show ?case using compile_client_wf [OF assms(1)] by (fastforce split: if_splits option.splits)
qed simp

text \<open>
  C1. What a routing device forwards is what the policy grants. For validated inputs, the filter the
  coordinator compiles for the router, sent to its agent and turned into firewall rules there, always
  exists, and for a TCP, UDP or ICMP packet its chain accepts exactly when the packet belongs to an
  established connection, or some device that the router is paired with and that owns the source
  address is granted the destination and service (by a route, resource or named-host rule) and no
  such device is denied it.
\<close>

theorem router_enforces_policy:
  assumes "documented_reads reads" "family_ok p" "is_ipv4 (ct_src p) = is_ipv4 (ct_dst p)"
    and "flow_of p = Some (protocol, port)"
    and "router_wf acl dist router" "\<forall>c\<in>set cs. client_wf (client_of exits c)"
  shows "\<exists>flt. compile_candidates uuid_text acl now dist router exits cs \<lparr>ff_deny = [], ff_allow = []\<rparr> = Some flt
    \<and> chain_verdict reads (forward_chain (plan (wire_filter uuid_text flt)) p) p =
        Some (if ct_established p
                 \<or> (\<exists>client\<in>set (paired_clients acl now router exits cs).
                      opens_for uuid_text acl now dist router client (host_text (ct_src p)) (ct_dst p) protocol port)
                   \<and> \<not> (\<exists>client\<in>set (paired_clients acl now router exits cs).
                      closes_for uuid_text acl now dist router client (host_text (ct_src p)) (ct_dst p) protocol port)
              then ''ACCEPT'' else ''REJECT'')"
proof -
  let ?none = "\<lparr>ff_deny = [], ff_allow = []\<rparr>"
  obtain flt where flt: "compile_candidates uuid_text acl now dist router exits cs ?none = Some flt"
    and m: "\<And>src ip protocol port.
      (matched (ff_allow flt) src ip protocol port \<longleftrightarrow>
        (\<exists>client\<in>set (paired_clients acl now router exits cs). opens_for uuid_text acl now dist router client src ip protocol port))
      \<and> (matched (ff_deny flt) src ip protocol port \<longleftrightarrow>
        (\<exists>client\<in>set (paired_clients acl now router exits cs). closes_for uuid_text acl now dist router client src ip protocol port))"
    using compile_candidates_matched [of uuid_text acl now dist router exits cs ?none] by auto
  have "filter_wf flt"
    by (rule compile_candidates_wf [OF assms(5,6) _ flt]) (simp add: filter_wf_def)
  then have "\<forall>r\<in>set (ff_deny flt @ ff_allow flt). rule_wf r" by (simp only: filter_wf_def)
  from forward_plan_matched [OF assms(1-4) this, of uuid_text] show ?thesis
    unfolding m [THEN conjunct1] m [THEN conjunct2] by (intro exI [of _ flt] conjI flt)
qed

definition site_candidate :: candidate where
  "site_candidate =
     (\<lparr>pe_id = cv_id (site_client None), pe_name = ''laptop'', pe_wg_public_key = [], pe_endpoint = None,
       pe_allowed_ips = cv_overlay (site_client None), pe_dns_name = ''laptop'', pe_tags = [],
       pe_relay_endpoint = None, pe_kind = [], pe_ingress = None, pe_pq = None\<rparr>,
      cv_subject (site_client None), [], [])"

lemma site_candidate_client: "client_of (\<lambda>_. None) site_candidate = site_client None"
  by (simp add: client_of_def site_candidate_def site_client_def)

lemma site_router_wf: "router_wf acl_default site_dist site_router" "client_wf (site_client None)"
proof -
  have "canonical_text (cidr_text (V4 0x0A010000) 16)" "canonical_text (cidr_text (V4 0x0A010200) 24)"
    "canonical_text (cidr_text (V4 0x64400009) 32)" "canonical_text ''0.0.0.0/0''"
    by (rule canonical_cidr, simp add: family_bits_def)+ (rule default_route_canonical, simp add: is_default_route_def)
  then show "router_wf acl_default site_dist site_router" "client_wf (site_client None)"
    by (auto simp: router_wf_def client_wf_def site_router_def site_dist_def site_client_def acl_default_def
        reserved_for_def carried_by_def)
qed

lemma site_opens:
  "opens_for u acl_default now site_dist site_router (site_client None) (host_text (ct_src site_packet)) (ct_dst site_packet) protocol port"
  "\<not> closes_for u acl_default now site_dist site_router (site_client None) src ip protocol port"
proof -
  have src: "host_text (ct_src site_packet) = cidr_text (V4 0x64400009) 32"
    by (simp add: host_text_def family_bits_def site_packet_def)
  have plain: "\<not> is_default_route (cidr_text (V4 0x0A010200) 24)" using site_distinct by (simp add: is_default_route_def)
  show "opens_for u acl_default now site_dist site_router (site_client None) (host_text (ct_src site_packet)) (ct_dst site_packet) protocol port"
    using site_contains plain unfolding opens_for_def Let_def src
    by (simp add: site_forwards site_grant_service route_granted_def site_packet_def)
  show "\<not> closes_for u acl_default now site_dist site_router (site_client None) src ip protocol port"
    using plain unfolding closes_for_def Let_def
    by (simp add: site_forwards site_grant_service route_reserved_def host_closed_def)
qed

theorem router_enforces_policy_witness:
  "\<exists>flt. compile_candidates (\<lambda>_. []) acl_default 0 site_dist site_router (\<lambda>_. None) [site_candidate] \<lparr>ff_deny = [], ff_allow = []\<rparr> = Some flt
     \<and> chain_verdict read_options (forward_chain (plan (wire_filter (\<lambda>_. []) flt)) site_packet) site_packet = Some ''ACCEPT''"
proof -
  have "paired_clients acl_default 0 site_router (\<lambda>_. None) [site_candidate] = [site_client None]"
    using default_allows by (simp add: paired_clients_def site_candidate_client site_router_def site_forwards)
  moreover have "documented_reads read_options" "family_ok site_packet" "is_ipv4 (ct_src site_packet) = is_ipv4 (ct_dst site_packet)"
    "flow_of site_packet = Some (Some Tcp, Some 443)" "\<forall>c\<in>set [site_candidate]. client_wf (client_of (\<lambda>_. None) c)"
    using read_options_documented site_router_wf(2)
    by (simp_all add: site_packet_def family_ok_def flow_of_def is_icmp_def site_candidate_client)
  ultimately show ?thesis
    using router_enforces_policy [where reads = read_options and p = site_packet and cs = "[site_candidate]" and exits = "\<lambda>_. None"
        and now = 0 and uuid_text = "\<lambda>_. []", OF _ _ _ _ site_router_wf(1)] site_opens by simp
qed

end
