(* ===== verification/Device_Policy.thy ===== *)
theory Device_Policy
  imports Policy_Explain Router_Policy
begin

section \<open>From the policy to a device's firewall\<close>

text \<open>
  A device polls its peer map from the coordinator (\<open>map_candidates\<close>,
  \<open>annotate_peers\<close>) and the agent turns it into the chain that filters inbound overlay
  traffic (\<open>plan_overlay_filter\<close>). Here the two are composed and compared with what the
  coordinator's explanation tells an operator. The peers of the map are the candidate devices;
  WireGuard-only peers and service gateways, which the coordinator appends afterwards, are left out.
\<close>

text \<open>A peer of the map as the agent reads it.\<close>

definition wire_peer :: "(uuid \<Rightarrow> string) \<Rightarrow> coord_peer \<Rightarrow> agent_peer" where
  "wire_peer uuid_text peer =
     \<lparr>ag_id = uuid_text (pe_id peer), ag_name = pe_name peer, ag_wg_public_key = pe_wg_public_key peer,
      ag_endpoint = pe_endpoint peer, ag_allowed_ips = pe_allowed_ips peer, ag_dns_name = pe_dns_name peer,
      ag_tags = map tag_str (pe_tags peer), ag_relay_endpoint = pe_relay_endpoint peer,
      ag_ingress = pe_ingress peer, ag_pq = pe_pq peer\<rparr>"

text \<open>The entry of one candidate in the map of a device.\<close>

definition mapped ::
  "(uuid \<Rightarrow> string) \<Rightarrow> acl \<Rightarrow> int \<Rightarrow> distribution \<Rightarrow> map_request \<Rightarrow> candidate \<Rightarrow> coord_peer option" where
  "mapped uuid_text acl now dist req c = fst (map_candidate uuid_text acl now dist req False c)"

definition owns :: "(uuid \<Rightarrow> string) \<Rightarrow> coord_peer \<Rightarrow> ip_addr \<Rightarrow> bool" where
  "owns uuid_text peer ip \<longleftrightarrow> ip \<in> set (agent_hosts (wire_peer uuid_text peer))"

text \<open>No other entry of the map claims the address of a candidate.\<close>

definition sole_owner ::
  "(uuid \<Rightarrow> string) \<Rightarrow> acl \<Rightarrow> int \<Rightarrow> distribution \<Rightarrow> map_request \<Rightarrow> candidate list \<Rightarrow> candidate \<Rightarrow> ip_addr \<Rightarrow> bool" where
  "sole_owner uuid_text acl now dist req cs c ip \<longleftrightarrow>
     c \<in> set cs \<and> host_text ip \<in> set (pe_allowed_ips (fst c)) \<and> route_active (mr_ipv6 req) (host_text ip)
     \<and> (\<forall>c'\<in>set cs. case mapped uuid_text acl now dist req c' of None \<Rightarrow> True | Some peer \<Rightarrow> owns uuid_text peer ip \<longrightarrow> c' = c)"

text \<open>The chain of a device.\<close>

definition device_chain ::
  "(uuid \<Rightarrow> string) \<Rightarrow> coord_peer list \<Rightarrow> bool \<Rightarrow> ct_packet \<Rightarrow> ipt_rule list" where
  "device_chain uuid_text peers users_enforced p =
     chain_for (plan_overlay_filter (fail_closed_ssh (map (wire_peer uuid_text) peers) users_enforced)) p"

lemma push_resource_flag:
  "fst (foldl (push_resource v) (ips, a) rs) = fst (foldl (push_resource v) (ips, b) rs)"
  by (induction rs arbitrary: ips a b) (simp_all add: push_resource_def)

lemma mapped_flag: "fst (map_candidate u acl now dist req active c) = mapped u acl now dist req c"
proof -
  obtain peer destination approved shares where c: "c = (peer, destination, approved, shares)" by (metis prod_cases4)
  let ?exits = "exit_matches u (mr_exit req) peer"
  let ?usable = "list_ex (\<lambda>route. is_default_route route \<and> route_active (mr_ipv6 req) route) approved"
  let ?run = "\<lambda>active. foldl (push_resource (mr_ipv6 req))
      (pe_allowed_ips peer @ filter (\<lambda>route. \<not> is_default_route route \<or> ?exits) approved, active \<or> ?exits \<and> ?usable)
      (routes_via dist (pe_id peer) (mr_id req) (mr_subject req) acl ?exits)"
  obtain ips a ips' a' where run: "?run active = (ips, a)" "?run False = (ips', a')"
    by (cases "?run active", cases "?run False")
  have "fst (?run active) = fst (?run False)" by (rule push_resource_flag)
  then have same: "ips' = ips" unfolding run by simp
  show ?thesis
    by (cases "peer_map_ingress acl now (mr_subject req) destination shares (mr_ssh_users_enforced req)")
       (simp_all only: mapped_def map_candidate_def c split_conv option.case push_approved_all Let_def run same fst_conv)
qed

lemma map_candidates_mapped: "fst (map_candidates u acl now dist req active cs) = List.map_filter (mapped u acl now dist req) cs"
proof (induction cs arbitrary: active)
  case (Cons c cs)
  have "mapped u acl now dist req c = fst (map_candidate u acl now dist req active c)" by (simp only: mapped_flag)
  with Cons show ?case
    by (simp add: Let_def case_prod_beta map_filter_simps split: option.splits)
qed (simp add: map_filter_simps)

lemma mapped_entry:
  assumes "mapped u acl now dist req (peer, source, approved, shares) = Some entry"
  shows "allows acl now (mr_subject req) source"
    and "pe_ingress entry = peer_map_ingress acl now (mr_subject req) source shares (mr_ssh_users_enforced req)"
  using assms unfolding mapped_def map_candidate_def
  by (auto simp: Let_def case_prod_beta peer_map_ingress_def split: option.splits if_splits)

lemma mapped_iff: "mapped u acl now dist req (peer, source, approved, shares) = None \<longleftrightarrow> \<not> allows acl now (mr_subject req) source"
  unfolding mapped_def map_candidate_def
  by (auto simp: Let_def case_prod_beta peer_map_ingress_def split: option.splits)

lemma find_sole:
  assumes "\<forall>c'\<in>set cs. case g c' of None \<Rightarrow> True | Some y \<Rightarrow> P y \<longrightarrow> c' = c" "\<And>y. g c = Some y \<Longrightarrow> P y"
  shows "find P (List.map_filter g cs) = (if c \<in> set cs then g c else None)"
  using assms(1)
proof (induction cs)
  case (Cons c' cs)
  then have rest: "find P (List.map_filter g cs) = (if c \<in> set cs then g c else None)" by simp
  show ?case
  proof (cases "g c'")
    case None
    with rest show ?thesis by (simp add: map_filter_simps)
  next
    case (Some y)
    with Cons.prems have "P y \<longleftrightarrow> c' = c" using assms(2) [of y] by auto
    with Some rest show ?thesis by (auto simp: map_filter_simps)
  qed
qed (simp add: map_filter_simps)

lemma annotate_peers_map:
  "\<exists>g. annotate_peers pol capable tags peers = map (\<lambda>peer. peer\<lparr>pe_pq := g peer\<rparr>) peers"
proof (cases "is_inert pol")
  case True
  have "map (\<lambda>peer. peer\<lparr>pe_pq := pe_pq peer\<rparr>) peers = peers" by (rule map_idI) simp
  with True show ?thesis unfolding annotate_peers_def by (intro exI [of _ pe_pq]) (simp only: if_True)
next
  case False
  let ?mode = "\<lambda>peer. mode_for pol tags (pe_tags peer)"
  show ?thesis
    unfolding annotate_peers_def Let_def if_not_P [OF False]
    by (rule exI [of _ "\<lambda>peer. if ?mode peer = PqOff then None
        else Some \<lparr>pp_mode = ?mode peer, pp_capable = pe_id peer \<in> set capable, pp_block = po_block_unestablished pol\<rparr>"]) (rule refl)
qed

lemma overlay_host_text: "overlay_host (host_text ip) = Some ip"
  using overlay_host_show [of "family_bits (is_ipv4 ip)" ip] by (simp add: host_text_def cidr_text_def family_bits_def)

lemma mapped_owns:
  assumes "mapped u acl now dist req c = Some entry" "host_text ip \<in> set (pe_allowed_ips (fst c))"
    "route_active (mr_ipv6 req) (host_text ip)"
  shows "owns u entry ip"
proof -
  obtain peer source approved shares where c: "c = (peer, source, approved, shares)" by (metis prod_cases4)
  have allowed: "allows acl now (mr_subject req) source" using mapped_entry(1) assms(1) unfolding c .
  obtain p a where "map_candidate u acl now dist req False c = (Some p, a)"
    and ips: "set (pe_allowed_ips p) = {route \<in> set (pe_allowed_ips peer)
        \<union> ({route \<in> set approved. \<not> is_default_route route \<or> exit_matches u (mr_exit req) peer}
           \<union> set (routes_via dist (pe_id peer) (mr_id req) (mr_subject req) acl (exit_matches u (mr_exit req) peer))).
        route_active (mr_ipv6 req) route}"
    by (rule map_candidate_routes [OF c allowed, of u dist False]) (rule that, assumption+)
  then have "p = entry" using assms(1) by (simp add: mapped_def)
  then have "host_text ip \<in> set (pe_allowed_ips entry)" using ips assms(2,3) by (simp add: c)
  then show ?thesis using overlay_host_text [of ip]
    by (auto simp: owns_def agent_hosts_def wire_peer_def map_filter_mem)
qed

text \<open>The peer of the map that a packet's source belongs to.\<close>

lemma map_owner:
  assumes "sole_owner u acl now dist req cs c ip"
  obtains g where "first_owner (map (wire_peer u) (annotate_peers pol capable tags (fst (map_candidates u acl now dist req active cs)))) ip =
    map_option (\<lambda>entry. wire_peer u (entry\<lparr>pe_pq := g entry\<rparr>)) (mapped u acl now dist req c)"
proof -
  obtain g where g: "annotate_peers pol capable tags (List.map_filter (mapped u acl now dist req) cs) =
      map (\<lambda>entry. entry\<lparr>pe_pq := g entry\<rparr>) (List.map_filter (mapped u acl now dist req) cs)"
    using annotate_peers_map [of pol capable tags "List.map_filter (mapped u acl now dist req) cs"] by (elim exE) (rule that)
  have hosts: "ip \<in> set (agent_hosts (wire_peer u (entry\<lparr>pe_pq := g entry\<rparr>))) \<longleftrightarrow> owns u entry ip" for entry
    by (simp add: owns_def agent_hosts_def wire_peer_def)
  have "find (\<lambda>entry. owns u entry ip) (List.map_filter (mapped u acl now dist req) cs) = mapped u acl now dist req c"
    using assms find_sole [where cs = cs and g = "mapped u acl now dist req" and P = "\<lambda>entry. owns u entry ip" and c = c]
      mapped_owns [of u acl now dist req c _ ip] by (simp add: sole_owner_def)
  then show thesis
    by (intro that [of g]) (simp add: first_owner_def map_candidates_mapped g find_map hosts comp_def)
qed

lemma map_peers_ingress:
  assumes "peer \<in> set (map (wire_peer u) (annotate_peers pol capable tags (fst (map_candidates u acl now dist req active cs))))"
  shows "ag_ingress peer \<noteq> None"
proof -
  obtain g where g: "annotate_peers pol capable tags (List.map_filter (mapped u acl now dist req) cs) =
      map (\<lambda>entry. entry\<lparr>pe_pq := g entry\<rparr>) (List.map_filter (mapped u acl now dist req) cs)"
    using annotate_peers_map [of pol capable tags "List.map_filter (mapped u acl now dist req) cs"] by (elim exE) (rule that)
  obtain c entry where entry: "mapped u acl now dist req c = Some entry" and peer: "ag_ingress peer = pe_ingress entry"
    using assms unfolding map_candidates_mapped g by (auto simp: map_filter_mem wire_peer_def)
  obtain device source approved shares where c: "c = (device, source, approved, shares)" by (metis prod_cases4)
  show ?thesis using mapped_entry [OF entry [unfolded c]] by (simp add: peer peer_map_ingress_def Let_def)
qed

lemma fail_closed_some:
  assumes "peers \<noteq> []" "\<And>peer. peer \<in> set peers \<Longrightarrow> ag_ingress peer \<noteq> None"
  shows "\<exists>peer\<in>set (fail_closed_ssh peers users). ag_ingress peer \<noteq> None"
  using assms(1) assms(2) [OF hd_in_set] by (cases peers) (auto simp: fail_closed_ssh_def)

lemma plain_admits:
  assumes "port \<noteq> 22" "p = TCP \<Longrightarrow> port \<noteq> PQ_PORT" "agent_ingress peer = i"
  shows "agent_admits users_enforced peer p port \<longleftrightarrow> admits i p port"
  using assms by (auto simp: agent_admits_def admits_def denied_def plain_denied_def Let_def)

lemma device_chain_admits:
  assumes d: "documented_reads reads" and fam: "family_ok p" and new: "\<not> ct_established p"
    and sole: "sole_owner u acl now dist req cs (peer, source, approved, []) (ct_src p)"
    and port: "ct_dport p \<noteq> 22" "ct_proto p = TCP \<Longrightarrow> ct_dport p \<noteq> PQ_PORT"
  shows "chain_verdict reads (device_chain u (annotate_peers pol capable tags (fst (map_candidates u acl now dist req active cs))) users p) p = Some ''ACCEPT'' \<longleftrightarrow>
    allows acl now (mr_subject req) source
    \<and> admits (peer_ingress_for acl now source (mr_subject req) (mr_ssh_users_enforced req)) (ct_proto p) (ct_dport p)"
proof -
  let ?peers = "map (wire_peer u) (annotate_peers pol capable tags (fst (map_candidates u acl now dist req active cs)))"
  obtain g where owner: "first_owner ?peers (ct_src p) =
      map_option (\<lambda>entry. wire_peer u (entry\<lparr>pe_pq := g entry\<rparr>)) (mapped u acl now dist req (peer, source, approved, []))"
    by (rule map_owner [OF sole]) (rule that)
  show ?thesis
  proof (cases "?peers = []")
    case True
    then have "mapped u acl now dist req (peer, source, approved, []) = None" using owner by (simp add: first_owner_def)
    then show ?thesis
      unfolding mapped_iff device_chain_def True
      by (simp add: fail_closed_ssh_def plan_overlay_filter_def chain_for_def filter_plan_default_def)
  next
    case False
    then have "\<exists>peer\<in>set (fail_closed_ssh ?peers users). ag_ingress peer \<noteq> None"
      by (intro fail_closed_some [OF _ map_peers_ingress]) assumption+
    note verdict = plan_verdict [OF d fam this]
    show ?thesis
    proof (cases "mapped u acl now dist req (peer, source, approved, [])")
      case None
      then have "first_owner (fail_closed_ssh ?peers users) (ct_src p) = None" unfolding fail_closed_owner owner by simp
      then show ?thesis using new None mapped_iff unfolding device_chain_def verdict by (simp add: target_word_def)
    next
      case (Some entry)
      let ?i = "peer_ingress_for acl now source (mr_subject req) (mr_ssh_users_enforced req)"
      let ?w = "wire_peer u (entry\<lparr>pe_pq := g entry\<rparr>)"
      have i: "agent_ingress ?w = ?i"
        using mapped_entry [OF Some]
        by (simp add: agent_ingress_def wire_peer_def peer_map_ingress_def grant_share_ports_def Let_def)
      have "first_owner (fail_closed_ssh ?peers users) (ct_src p) =
          Some (if users then ?w else ?w\<lparr>ag_ingress := map_option close_ssh (ag_ingress ?w)\<rparr>)"
        unfolding fail_closed_owner owner Some by simp
      then show ?thesis
        using new mapped_entry(1) [OF Some] plain_admits [OF port i] unfolding device_chain_def verdict
        by (auto simp: target_word_def fail_closed_admits)
    qed
  qed
qed

lemma ingress_admits_agent:
  assumes "flow_of p = Some (Some protocol, Some port)" "port \<noteq> 22"
  shows "ingress_admits i (Some protocol) (Some port) \<longleftrightarrow> admits i (ct_proto p) (ct_dport p)"
proof -
  have listed: "list_ex (spec_covers n) specs = listed specs n" for n specs
    using specs_cover_listed [of specs n] by (simp add: specs_cover_def)
  have "protocol = Tcp \<and> ct_proto p = TCP \<and> ct_dport p = port \<or> protocol = Udp \<and> ct_proto p = UDP \<and> ct_dport p = port"
    using assms(1) by (auto simp: flow_of_def split: if_splits)
  with assms(2) show ?thesis
    by (auto simp: ingress_admits_def listed admits_def granted_def denied_def is_icmp_def Let_def)
qed


definition lan_request :: map_request where
  "lan_request = \<lparr>mr_id = 5, mr_subject = subject_new Member [], mr_exit = None, mr_ipv6 = False, mr_ssh_users_enforced = False\<rparr>"

definition lan_facts :: "unit node_facts" where
  "lan_facts =
     \<lparr>kf_id = 5, kf_name = ''nas'', kf_display_name = None, kf_user_id = [], kf_role = Member, kf_tags = [], kf_os = Some ''linux'',
      kf_os_version = None, kf_agent_version = None, kf_capabilities = [CAP_ACL_FILTER], kf_created_at = 0,
      kf_credential_issued_at = None, kf_credential_expires_at = 0, kf_inventory_reported_at = None, kf_integrations = []\<rparr>"

lemma lan_sole_owner:
  "sole_owner u acl now dist lan_request [site_candidate] site_candidate (ct_src site_packet)"
proof -
  have digits: "show_nat 10 32 = ''32''" by code_simp
  have "CHR '':'' \<notin> set (host_text (V4 0x64400009))"
    using v4_text [of "0x64400009"] digits
    by (simp add: host_text_def cidr_text_def family_bits_def show_ip_def)
  moreover have "host_text (V4 0x64400009) = cidr_text (V4 0x64400009) 32" by (simp add: host_text_def family_bits_def)
  ultimately show ?thesis
    by (simp add: sole_owner_def site_candidate_def site_packet_def site_client_def lan_request_def route_active_def split: option.split)
qed


end
