(* ===== verification/Spec2Isabelle.thy ===== *)
theory Spec2Isabelle
  imports Relay_Hub Mobile_Relay Flow_Filter Ipam Forward_Install Device_Policy
begin

text \<open>
  \<^bold>\<open>BlakTail.\<close> BlakTail is a WireGuard overlay network. A coordinator (\<open>blaktail-coord\<close>) holds
  the organisation's policy, allocates addresses and compiles, for every device, a map of the peers
  it may talk to. Agents (\<open>blaktaild\<close> on hosts, \<open>blaktail-ios-wg\<close> on phones and Windows)
  enforce that map with a packet filter. Devices that advertise routes forward traffic for others
  under a compiled allow-list. When no direct path exists, packets travel through a relay
  (\<open>blaktail-relay\<close>, protocol in \<open>blaktail-relay-proto\<close>). The development models the code
  that decides who may reach whom, on both ends, and the relay path, and proves that the ends agree.

  \<^bold>\<open>Conventions.\<close> Structs are records, enums are datatypes, fallible functions return a sum or an
  option, machine integers are words of their width. A \<open>HashMap\<close> is an association list under
  the contract locale \<open>hash_table\<close>, a \<open>BTreeSet\<close> a sorted list, a \<open>BTreeMap\<close> a sorted
  association list. Clocks are arguments. Identifiers are 128-bit words; their text form is a
  parameter, as it comes from the \<open>uuid\<close> library. The keyed hash of relay tokens, the reader of
  iptables rules and the runner of commands are parameters with their documented behaviour as named
  hypotheses (\<open>documented_reads\<close>, \<open>documented_exec\<close>), each shown to be satisfiable by a
  concrete function (\<open>read_options\<close>, \<open>nf_run\<close>).

  \<^bold>\<open>Shared theories.\<close> \<open>Blak_Prelude\<close>: time, saturating arithmetic, hash tables, byte codes,
  the standard library's string operations, results. \<open>Net_Addr\<close> and \<open>Ip_Text\<close>: addresses,
  their textual forms and that parsing inverts printing. \<open>Coord_Base\<close>: roles, tags, sorted sets,
  errors of the coordinator.

  \<^bold>\<open>The relay path.\<close> \<open>Relay_Frame\<close> (\<open>frame.rs\<close>, \<open>lib.rs\<close> of the protocol crate):
  frames, identifiers and their round trips. \<open>Relay_Select\<close> (\<open>select.rs\<close>) and
  \<open>Relay_Ladder\<close> (\<open>ladder.rs\<close>): choice of relay and the two hysteresis machines, which never
  leave a peer without a path. \<open>Relay_Hub\<close> (\<open>blaktail-relay/src/lib.rs\<close>): the relay's state
  and event loop; every packet it emits belongs to a live registration, every registration was
  authenticated, its tables and each source's rate are bounded. \<open>Mobile_Relay\<close>
  (\<open>mobile.rs\<close>): the session machine of the phones. This theory adds the credential's way from
  the coordinator through the agent to the relay.

  \<^bold>\<open>The policy.\<close> \<open>Acl_Policy\<close> (\<open>blaktail-coord/src/lib.rs\<close>): the evaluator
  (\<open>allows_flow\<close>, \<open>allows_ssh\<close>) and the compiler (\<open>peer_ingress_for\<close>); the compiled
  entry admits exactly what the evaluator allows, SSH included. \<open>Acl_Validate\<close>: what a published
  document satisfies, and three places where its embedded tests or share ports differ from
  enforcement. \<open>Drive_Shares\<close> (\<open>shares.rs\<close>): folder grants. \<open>Ipam\<close> (\<open>ipam.rs\<close>):
  the allocator returns only free addresses of its pools, and finds one within its probe limit.
  \<open>Policy_Explain\<close> (\<open>policy_explain.rs\<close>): the explanation shown to operators.

  \<^bold>\<open>Enforcement on a device.\<close> \<open>Agent_Filter\<close> (\<open>acl_filter.rs\<close>): the Linux chain and the
  sshd file. \<open>Filter_Policy\<close>, \<open>Packet_Parse\<close>, \<open>Flow_Events\<close> and \<open>Flow_Filter\<close>
  (\<open>filter.rs\<close>, \<open>flow_events.rs\<close>): the userspace filter, from bytes to verdicts, with its
  connection and fragment tables. The verdict on every inbound packet is given exactly, tracked
  flows are justified by the policy or by traffic the device sent, tables stay bounded, and replies
  pass.

  \<^bold>\<open>Routing.\<close> \<open>Net_Resources\<close> (\<open>resources.rs\<close>): health and choice of routing peers, and
  the distribution of routes. \<open>Forwarding\<close> (\<open>forwarding.rs\<close>): the allow-list of a routing
  device, with the complement of the exit route. \<open>Peer_Map\<close> (\<open>list_peers\<close>,
  \<open>post_quantum.rs\<close>): the map of a device; it routes through a peer exactly what that peer
  forwards for it. \<open>Forward_Plan\<close> and \<open>Forward_Install\<close> (\<open>forward_filter.rs\<close>): the
  router's rules and their staged installation, during which forwarding is never open.

  \<^bold>\<open>Composition.\<close> \<open>Router_Policy\<close>: what a router's kernel forwards is what the policy grants,
  from the compiler through the wire form to the firewall. \<open>Device_Policy\<close>: what the
  coordinator's explanation says is what the destination's firewall does. The section below: an
  issued relay credential registers its device.

  \<^bold>\<open>Bounds and termination.\<close> The only loops with a counter are the two address probes of
  \<open>Ipam\<close>, and it is the source's own limit \<open>MAX_ALLOC_PROBES\<close>; completeness of the allocator
  is proved for pools within it. The other recursions are structural, or have termination proofs:
  string trimming, number printing, the walk over IPv6 extension headers (bounded by
  \<open>MAX_EXT_HEADERS\<close>) and \<open>fwd_split\<close>. The subtraction that could underflow in
  \<open>fwd_split\<close> is an explicit \<open>None\<close>, proved unreachable for the calls of the program.
  Indexing into packets is an option, proved never to fail. The relay's token buckets, floating
  point in the source, are rationals.

  \<^bold>\<open>Not modelled.\<close> The HTTP handlers and SQL of the coordinator, and therefore concurrency between
  handlers; the coordinator's workspaces for drafts, DNS, topology and lifecycle; posture checks and
  vendor integrations (a subject carries the names of the checks it passed); private services,
  public ingress, remote access and the agent gateway; WireGuard-only peers and service gateways in
  the peer map; the post-quantum handshake; the kernel WireGuard interface, pf and Windows
  filtering; sockets, TLS and WebSocket; the console and the platform apps. These are I/O, database
  queries, third-party cryptography or user interface. Locks are taken to succeed, and text is
  handled as ASCII bytes except where the code trims Unicode white space.
\<close>

section \<open>Relay credentials from the coordinator to the relay\<close>

text \<open>
  The coordinator issues a relay credential (\<open>relay_credentials\<close> in
  \<open>blaktail-coord/src/lib.rs\<close>), the agent decodes it and frames a registration
  (\<open>blaktaild/src/relay_client.rs\<close>), and the relay verifies it. The keyed hash comes from
  the \<open>hmac\<close> and \<open>sha2\<close> libraries and is the parameter \<open>hmac\<close>, as in the
  relay's own theory; of it the composition needs only that digests have 32 bytes.
\<close>

definition RELAY_TOKEN_TTL_SECS :: u64 where "RELAY_TOKEN_TTL_SECS = 604800"

definition uuid_bytes :: "uuid \<Rightarrow> bytes" where
  "uuid_bytes i = be_encode 16 (unat i)"

definition hex_encode :: "bytes \<Rightarrow> string" where
  "hex_encode bs = concat (map hex_byte bs)"

definition relay_capability :: "mac \<Rightarrow> bytes \<Rightarrow> uuid \<Rightarrow> u64 \<Rightarrow> string" where
  "relay_capability hmac secret node expires_at_unix =
     hex_encode (hmac secret (uuid_bytes node @ u64_be expires_at_unix))"

definition relay_credentials :: "mac \<Rightarrow> 'r list \<Rightarrow> bytes \<Rightarrow> int \<Rightarrow> uuid \<Rightarrow> string \<times> u64" where
  "relay_credentials hmac relays relay_auth_secret now node =
     (if relays = [] \<or> relay_auth_secret = [] then ([], 0)
      else let expires_at = word_of_int now + RELAY_TOKEN_TTL_SECS
           in (relay_capability hmac relay_auth_secret node expires_at, expires_at))"

text \<open>The agent's check of the token text, and its registration frame.\<close>

definition token_raw :: "string \<Rightarrow> string + bytes" where
  "token_raw relay_token_hex =
     (case hex_decode relay_token_hex of
        None \<Rightarrow> Inl ''relay token is not valid hex''
      | Some raw \<Rightarrow> if length raw \<noteq> TOKEN_LEN then Inl ''relay token must be 32 bytes'' else Inr raw)"

definition agent_register_frame :: "uuid \<Rightarrow> u64 \<Rightarrow> bytes \<Rightarrow> bytes option" where
  "agent_register_frame self_id expires_at_unix token =
     (if length token \<noteq> TOKEN_LEN then None
      else Some (register_frame (uuid_bytes self_id) expires_at_unix token))"

text \<open>
  C14. A credential the coordinator issues registers its device at the relay. Whatever the keyed hash,
  as long as its digests have 32 bytes: the agent accepts the token text of a non-empty
  credential and builds a frame from it, and a relay that shares the coordinator's secret and whose
  clock has not reached the expiry answers that frame by binding the device's identifier to the
  sender's address until that expiry, and forgets any other device at that address.
\<close>

theorem issued_token_registers:
  assumes "\<forall>k m. length (hmac k m) = 32" and "relays \<noteq> []" "secret \<noteq> []"
    and "relay_credentials hmac relays secret now node = (token_text, expires_at)"
    and "rc_auth_secret (hub_config h) = secret" "unix_now < expires_at"
  shows "\<exists>token frame. token_raw token_text = Inr token
    \<and> agent_register_frame node expires_at token = Some frame
    \<and> (\<exists>h'. handle_register hmac unix_now inst h frame source (take ID_LEN (drop 1 frame)) = (None, h')
         \<and> hm_get (hub_clients h') (uuid_bytes node) =
             Some \<lparr>cl_addr = source, cl_expires_at = expires_at, cl_last_seen = inst\<rparr>
         \<and> (\<forall>other c. other \<noteq> uuid_bytes node \<and> hm_get (hub_clients h') other = Some c \<longrightarrow> cl_addr c \<noteq> source))"
proof -
  let ?id = "uuid_bytes node" and ?token = "hmac secret (uuid_bytes node @ u64_be expires_at)"
  let ?frame = "register_frame ?id expires_at ?token"
  let ?kept = "hm_retain (\<lambda>known c. known = ?id \<or> cl_addr c \<noteq> source) (hub_clients h)"
  let ?new = "\<lparr>cl_addr = source, cl_expires_at = expires_at, cl_last_seen = inst\<rparr>"
  let ?h = "bump inc_registers_ok (h\<lparr>hub_clients := hm_insert ?id ?new ?kept\<rparr>)"
  have issued: "token_text = hex_encode ?token"
    using assms(2-4) by (auto simp: relay_credentials_def relay_capability_def Let_def)
  have token: "token_raw token_text = Inr ?token"
    using assms(1) by (simp add: token_raw_def issued hex_encode_def hex_decode_bytes TOKEN_LEN_def)
  have len: "length ?id = 16" by (simp add: uuid_bytes_def)
  have frame: "agent_register_frame node expires_at ?token = Some ?frame"
    using assms(1) by (simp add: agent_register_frame_def TOKEN_LEN_def)
  have parts: "length ?frame = REGISTER_FRAME" "take ID_LEN (drop 1 ?frame) = ?id"
    "take EXPIRY_LEN (drop HEADER ?frame) = u64_be expires_at" "drop (HEADER + EXPIRY_LEN) ?frame = ?token"
    using assms(1) len by (simp_all add: register_frame_def REGISTER_FRAME_def HEADER_def ID_LEN_def EXPIRY_LEN_def TOKEN_LEN_def)
  have "verify_token hmac secret ?id expires_at ?token"
    using assms(1,3) by (simp add: verify_token_def TOKEN_LEN_def)
  then have run: "handle_register hmac unix_now inst h ?frame source ?id = (None, ?h)"
    using assms(5,6) unfolding handle_register_def parts by (simp add: not_le)
  have "cl_addr c \<noteq> source" if other: "other \<noteq> ?id" "hm_get (hub_clients ?h) other = Some c" for other c
  proof -
    have "hm_get ?kept other = Some c" using other by (simp add: alist.get_ins)
    then have "(other, c) \<in> set ?kept" by (rule map_of_SomeD)
    then show ?thesis using other(1) by (simp add: hm_retain_mem)
  qed
  then have others: "\<forall>other c. other \<noteq> ?id \<and> hm_get (hub_clients ?h) other = Some c \<longrightarrow> cl_addr c \<noteq> source" by blast
  have stored: "hm_get (hub_clients ?h) ?id = Some ?new" by (simp add: alist.get_ins)
  show ?thesis
    by (intro exI [of _ ?token] exI [of _ ?frame] exI [of _ ?h] conjI token frame stored others) (simp only: parts(2) run)
qed

theorem issued_token_registers_witness:
  "\<exists>h'. handle_register (\<lambda>_ _. replicate 32 9) 50 0 (hub_new demo_config)
       (register_frame (uuid_bytes 7) 604800 (replicate 32 9)) (UdpAddr demo_addr) (uuid_bytes 7) = (None, h')
     \<and> hm_get (hub_clients h') (uuid_bytes 7) = Some \<lparr>cl_addr = UdpAddr demo_addr, cl_expires_at = 604800, cl_last_seen = 0\<rparr>"
proof -
  let ?m = "\<lambda>_ _ :: bytes. replicate 32 (9 :: u8)"
  have "relay_credentials ?m [()] [115] 0 7 = (hex_encode (replicate 32 9), 604800)"
    by (simp add: relay_credentials_def relay_capability_def RELAY_TOKEN_TTL_SECS_def)
  moreover have "rc_auth_secret (hub_config (hub_new demo_config)) = [115]"
    by (simp add: hub_new_def demo_config_def relay_config_default_def)
  moreover have "token_raw (hex_encode (replicate 32 9)) = Inr (replicate 32 9)"
    unfolding token_raw_def hex_encode_def hex_decode_bytes by (simp add: TOKEN_LEN_def)
  moreover have "take ID_LEN (drop 1 (register_frame (uuid_bytes 7) 604800 (replicate 32 9))) = uuid_bytes 7"
    by (simp add: register_frame_def ID_LEN_def uuid_bytes_def)
  ultimately show ?thesis
    using issued_token_registers [of ?m "[()]" "[115]" 0 7 "hex_encode (replicate 32 9)" 604800 "hub_new demo_config" 50 0 "UdpAddr demo_addr"]
    by (auto simp: agent_register_frame_def TOKEN_LEN_def)
qed

end
